(* ===== verification/Prelude.thy ===== *)
theory Prelude
  imports Main "HOL-Library.Word"
begin

text \<open>
  Shared vocabulary of the development: the machine integer types of the Rust code, Rust's
  panics as values of a sum type with its bind and its checked loops, slices and little-endian
  integers, and the generic list lemmas the component theories rest on.

  \<^item> \<open>usize\<close> is \<open>nat\<close>: lengths and indices. Where a \<open>usize\<close> computation can leave the 64-bit
    range the definition says so (\<open>checked_add_usize\<close>).
  \<^item> \<open>panic + 'a\<close> is the result of code that may panic: \<open>Inl p\<close> is the panic, \<open>Inr x\<close> the value.
  \<^item> \<open>'a option\<close> is Rust's \<open>Option\<close>.
  \<^item> Overflow of \<open>+\<close>, \<open>-\<close> on words wraps, as in the release build the Dockerfile and the README
    build (\<open>cargo build --release\<close>, \<open>cargo run --release\<close>: no overflow checks).
\<close>

unbundle bit_operations_syntax

named_theorems run_simps \<open>evaluation of checked computations that do not panic\<close>
named_theorems slice_simps \<open>reading slices at constant offsets\<close>

section \<open>Machine integers\<close>

type_synonym u8 = "8 word"
type_synonym u16 = "16 word"
type_synonym u32 = "32 word"
type_synonym u64 = "64 word"
type_synonym bytes = "8 word list"

definition usize_max :: nat where
  "usize_max = 2 ^ 64 - 1"

text \<open>\<open>usize::checked_add\<close> and \<open>usize::checked_mul\<close> on a 64-bit target.\<close>

definition checked_add_usize :: "nat \<Rightarrow> nat \<Rightarrow> nat option" where
  "checked_add_usize a b = (if a + b \<le> usize_max then Some (a + b) else None)"

definition checked_mul_usize :: "nat \<Rightarrow> nat \<Rightarrow> nat option" where
  "checked_mul_usize a b = (if a * b \<le> usize_max then Some (a * b) else None)"

text \<open>\<open>saturating_sub\<close> on an unsigned word.\<close>

definition saturating_sub :: "'a::len word \<Rightarrow> 'a word \<Rightarrow> 'a word" where
  "saturating_sub a b = (if b \<le> a then a - b else 0)"

lemma saturating_sub_le: "saturating_sub a b \<le> a"
  by (simp add: saturating_sub_def word_le_nat_alt unat_sub_if')

lemma unat_saturating_sub: "unat (saturating_sub a b) = unat a - unat b"
  by (auto simp: saturating_sub_def unat_sub word_le_nat_alt)

section \<open>Panics\<close>

datatype panic = IndexOutOfBounds | AssertFailed | DivisionByZero | CapacityOverflow | UnwrapFailed

definition run_bind :: "'e + 'a \<Rightarrow> ('a \<Rightarrow> 'e + 'b) \<Rightarrow> 'e + 'b" where
  "run_bind m f = (case m of Inl e \<Rightarrow> Inl e | Inr x \<Rightarrow> f x)"

definition index_at :: "'a list \<Rightarrow> nat \<Rightarrow> panic + 'a" where
  "index_at xs i = (if i < length xs then Inr (xs ! i) else Inl IndexOutOfBounds)"

text \<open>A loop that builds a vector, and a loop with an accumulator; both stop at the first panic.\<close>

fun run_map :: "('a \<Rightarrow> 'e + 'b) \<Rightarrow> 'a list \<Rightarrow> 'e + 'b list" where
  "run_map f [] = Inr []"
| "run_map f (x # xs) = run_bind (f x) (\<lambda>y. run_bind (run_map f xs) (\<lambda>ys. Inr (y # ys)))"

fun run_fold :: "('s \<Rightarrow> 'a \<Rightarrow> 'e + 's) \<Rightarrow> 's \<Rightarrow> 'a list \<Rightarrow> 'e + 's" where
  "run_fold f s [] = Inr s"
| "run_fold f s (x # xs) = run_bind (f s x) (\<lambda>s'. run_fold f s' xs)"

lemma run_bind_Inr [simp, run_simps]: "run_bind (Inr x) f = f x"
  by (simp add: run_bind_def)

lemma run_bind_Inl [simp, run_simps]: "run_bind (Inl e) f = Inl e"
  by (simp add: run_bind_def)

lemma run_bind_eq_Inr: "run_bind m f = Inr y \<longleftrightarrow> (\<exists>x. m = Inr x \<and> f x = Inr y)"
  by (cases m) auto

lemma run_bind_InrE: "run_bind m f = Inr y \<Longrightarrow> (\<And>x. m = Inr x \<Longrightarrow> f x = Inr y \<Longrightarrow> thesis) \<Longrightarrow> thesis"
  by (cases m) auto

lemma run_bind_eq_Inl: "run_bind m f = Inl e \<longleftrightarrow> m = Inl e \<or> (\<exists>x. m = Inr x \<and> f x = Inl e)"
  by (cases m) auto

lemma index_ok [run_simps]: "i < length xs \<Longrightarrow> index_at xs i = Inr (xs ! i)"
  by (simp add: index_at_def)

lemma index_panic: "length xs \<le> i \<Longrightarrow> index_at xs i = Inl IndexOutOfBounds"
  by (simp add: index_at_def)

lemma run_map_ok: "(\<And>x. x \<in> set xs \<Longrightarrow> f x = Inr (g x)) \<Longrightarrow> run_map f xs = Inr (map g xs)"
  by (induction xs) simp_all

lemma run_fold_ok: "(\<And>s x. x \<in> set xs \<Longrightarrow> f s x = Inr (g s x)) \<Longrightarrow> run_fold f s xs = Inr (foldl g s xs)"
proof (induction xs arbitrary: s)
  case (Cons a xs)
  have "f s a = Inr (g s a)" by (rule Cons.prems) simp
  moreover have "run_fold f (g s a) xs = Inr (foldl g (g s a) xs)"
    by (rule Cons.IH) (rule Cons.prems, simp)
  ultimately show ?case by simp
qed simp

lemma run_map_panic:
  "x \<in> set xs \<Longrightarrow> f x = Inl p \<Longrightarrow> (\<And>y q. f y = Inl q \<Longrightarrow> q = p) \<Longrightarrow> run_map f xs = Inl p"
proof (induction xs)
  case Nil
  from Nil.prems(1) show ?case by simp
next
  case (Cons a xs)
  show ?case
  proof (cases "f a")
    case (Inl q)
    then have "q = p" by (rule Cons.prems(3))
    with Inl show ?thesis by simp
  next
    case (Inr b)
    then have "x \<noteq> a" using Cons.prems(2) by (cases "x = a") simp_all
    then have "x \<in> set xs" using Cons.prems(1) by simp
    then have "run_map f xs = Inl p" using Cons.prems(2,3) by (rule Cons.IH)
    then show ?thesis using Inr by simp
  qed
qed

lemma run_map_InrD:
  "run_map f xs = Inr ys \<Longrightarrow> length ys = length xs \<and> (\<forall>i < length xs. f (xs ! i) = Inr (ys ! i))"
proof (induction xs arbitrary: ys)
  case (Cons x xs)
  then obtain z zs where z: "f x = Inr z" "run_map f xs = Inr zs" "ys = z # zs" by (auto elim!: run_bind_InrE)
  then show ?case using Cons.IH [OF z(2)] by (auto simp: nth_Cons split: nat.splits)
qed simp

lemma run_fold_panic:
  "x \<in> set xs \<Longrightarrow> (\<And>s. f s x = Inl p) \<Longrightarrow> (\<And>s y q. f s y = Inl q \<Longrightarrow> q = p) \<Longrightarrow> run_fold f s xs = Inl p"
proof (induction xs arbitrary: s)
  case Nil
  from Nil.prems(1) show ?case by simp
next
  case (Cons a xs)
  show ?case
  proof (cases "f s a")
    case (Inl q)
    then have "q = p" by (rule Cons.prems(3))
    with Inl show ?thesis by simp
  next
    case (Inr b)
    then have "x \<noteq> a" using Cons.prems(2) [of s] by (cases "x = a") simp_all
    then have "x \<in> set xs" using Cons.prems(1) by simp
    then have "run_fold f b xs = Inl p" using Cons.prems(2,3) by (rule Cons.IH)
    then show ?thesis using Inr by simp
  qed
qed

section \<open>Slices\<close>

text \<open>\<open>bytes.get(i)\<close> and \<open>bytes.get(a..b)\<close>: \<open>None\<close> outside the slice, also when \<open>b < a\<close>.\<close>

definition get_at :: "'a list \<Rightarrow> nat \<Rightarrow> 'a option" where
  "get_at xs i = (if i < length xs then Some (xs ! i) else None)"

definition get_range :: "'a list \<Rightarrow> nat \<Rightarrow> nat \<Rightarrow> 'a list option" where
  "get_range xs a b = (if a \<le> b \<and> b \<le> length xs then Some (take (b - a) (drop a xs)) else None)"

lemma get_at_Some: "get_at xs i = Some x \<longleftrightarrow> i < length xs \<and> x = xs ! i"
  by (auto simp: get_at_def)

lemma get_at_None: "get_at xs i = None \<longleftrightarrow> length xs \<le> i"
  by (auto simp: get_at_def)

lemma get_range_Some: "get_range xs a b = Some ys \<longleftrightarrow> a \<le> b \<and> b \<le> length xs \<and> ys = take (b - a) (drop a xs)"
  by (auto simp: get_range_def)

lemma get_range_None: "get_range xs a b = None \<longleftrightarrow> b < a \<or> length xs < b"
  by (auto simp: get_range_def)

lemma get_range_length: "get_range xs a b = Some ys \<Longrightarrow> length ys = b - a"
  by (auto simp: get_range_Some)

lemma get_range_append [slice_simps]:
  "length xs = a \<Longrightarrow> length ys = b - a \<Longrightarrow> a \<le> b \<Longrightarrow> get_range (xs @ ys @ zs) a b = Some ys"
  by (auto simp: get_range_def)

lemma get_at_append [slice_simps]: "length xs = i \<Longrightarrow> get_at (xs @ y # zs) i = Some y"
  by (auto simp: get_at_def nth_append)

lemma nth_take_drop: "i < n \<Longrightarrow> a + i < length xs \<Longrightarrow> take n (drop a xs) ! i = xs ! (a + i)"
  by simp

text \<open>A loop that collects results and returns \<open>None\<close> at the first \<open>?\<close> that fails.\<close>

fun opt_map :: "('a \<Rightarrow> 'b option) \<Rightarrow> 'a list \<Rightarrow> 'b list option" where
  "opt_map f [] = Some []"
| "opt_map f (x # xs) =
     (case f x of None \<Rightarrow> None
      | Some y \<Rightarrow> (case opt_map f xs of None \<Rightarrow> None | Some ys \<Rightarrow> Some (y # ys)))"

lemma opt_map_Some: "(\<And>x. x \<in> set xs \<Longrightarrow> f x = Some (g x)) \<Longrightarrow> opt_map f xs = Some (map g xs)"
  by (induction xs) simp_all

lemma opt_map_SomeD: "opt_map f xs = Some ys \<Longrightarrow> map f xs = map Some ys"
  by (induction xs arbitrary: ys) (auto split: option.splits)

lemma opt_map_None: "opt_map f xs = None \<longleftrightarrow> (\<exists>x \<in> set xs. f x = None)"
  by (induction xs) (auto split: option.splits)

text \<open>Slices of a buffer that is written field by field.\<close>

lemma get_range_after:
  "length xs \<le> a \<Longrightarrow> a \<le> b \<Longrightarrow> get_range (xs @ ys) a b = get_range ys (a - length xs) (b - length xs)"
  by (auto simp: get_range_def)

lemma get_range_here:
  "length xs = b \<Longrightarrow> get_range (xs @ ys) 0 b = Some xs"
  by (auto simp: get_range_def)

lemma get_at_after: "length xs \<le> i \<Longrightarrow> get_at (xs @ ys) i = get_at ys (i - length xs)"
  by (auto simp: get_at_def nth_append)

lemma get_at_here: "get_at (x # xs) 0 = Some x"
  by (simp add: get_at_def)

lemma get_range_Cons: "0 < a \<Longrightarrow> a \<le> b \<Longrightarrow> get_range (x # xs) a b = get_range xs (a - 1) (b - 1)"
  by (cases a; cases b) (auto simp: get_range_def)

lemma get_at_Cons: "0 < i \<Longrightarrow> get_at (x # xs) i = get_at xs (i - 1)"
  by (cases i) (auto simp: get_at_def)

lemmas field_read = get_range_after get_range_here get_at_after get_at_here get_range_Cons get_at_Cons

section \<open>Little-endian integers\<close>

text \<open>
  \<open>to_le_bytes\<close> and \<open>from_le_bytes\<close> of an \<open>n\<close>-byte integer, on \<open>nat\<close> values below \<open>256 ^ n\<close>;
  the typed versions read the value off the word.
\<close>

fun le_bytes :: "nat \<Rightarrow> nat \<Rightarrow> bytes" where
  "le_bytes 0 v = []"
| "le_bytes (Suc n) v = word_of_nat (v mod 256) # le_bytes n (v div 256)"

fun le_value :: "bytes \<Rightarrow> nat" where
  "le_value [] = 0"
| "le_value (b # bs) = unat b + 256 * le_value bs"

lemma length_le_bytes [simp]: "length (le_bytes n v) = n"
  by (induction n arbitrary: v) auto

lemma unat_u8_less [simp]: "unat (b :: u8) < 256"
  using unsigned_less [of b, where 'a = nat] by simp

lemma le_value_less: "le_value bs < 256 ^ length bs"
proof (induction bs)
  case (Cons b bs)
  have "unat b < 256" by (rule unat_u8_less)
  moreover have "le_value bs + 1 \<le> 256 ^ length bs" using Cons.IH by simp
  then have "256 * le_value bs + 256 \<le> 256 * 256 ^ length bs"
    by linarith
  ultimately have "unat b + 256 * le_value bs < 256 * 256 ^ length bs" by linarith
  then show ?case by simp
qed simp

lemma le_value_le_bytes: "v < 256 ^ n \<Longrightarrow> le_value (le_bytes n v) = v"
proof (induction n arbitrary: v)
  case (Suc n)
  then have "v div 256 < 256 ^ n" by (simp add: less_mult_imp_div_less mult.commute)
  then have "le_value (le_bytes n (v div 256)) = v div 256" by (rule Suc.IH)
  moreover have "unat (word_of_nat (v mod 256) :: u8) = v mod 256"
    by (simp add: unat_of_nat)
  ultimately show ?case by simp
qed simp

lemma le_bytes_le_value: "length bs = n \<Longrightarrow> le_bytes n (le_value bs) = bs"
proof (induction n arbitrary: bs)
  case (Suc n)
  then obtain b cs where bs: "bs = b # cs" by (cases bs) auto
  then have "le_bytes n (le_value cs) = cs" using Suc by simp
  moreover have "(unat b + 256 * le_value cs) mod 256 = unat b"
    and "(unat b + 256 * le_value cs) div 256 = le_value cs"
    by simp_all
  ultimately show ?case by (simp add: bs)
qed simp

definition u16_le :: "u16 \<Rightarrow> bytes" where "u16_le v = le_bytes 2 (unat v)"
definition u32_le :: "u32 \<Rightarrow> bytes" where "u32_le v = le_bytes 4 (unat v)"
definition u64_le :: "u64 \<Rightarrow> bytes" where "u64_le v = le_bytes 8 (unat v)"

definition u16_from_le :: "bytes \<Rightarrow> u16" where "u16_from_le bs = word_of_nat (le_value bs)"
definition u32_from_le :: "bytes \<Rightarrow> u32" where "u32_from_le bs = word_of_nat (le_value bs)"
definition u64_from_le :: "bytes \<Rightarrow> u64" where "u64_from_le bs = word_of_nat (le_value bs)"

lemma length_le [simp]: "length (u16_le a) = 2" "length (u32_le b) = 4" "length (u64_le c) = 8"
  by (simp_all add: u16_le_def u32_le_def u64_le_def)

lemma from_le_to_le [simp]:
  "u16_from_le (u16_le a) = a" "u32_from_le (u32_le b) = b" "u64_from_le (u64_le c) = c"
  using unsigned_less [of a, where 'a = nat] unsigned_less [of b, where 'a = nat] unsigned_less [of c, where 'a = nat]
  by (simp_all add: u16_le_def u32_le_def u64_le_def u16_from_le_def u32_from_le_def u64_from_le_def
      le_value_le_bytes)

lemma to_le_from_le:
  "length bs = 2 \<Longrightarrow> u16_le (u16_from_le bs) = bs"
  "length bs = 4 \<Longrightarrow> u32_le (u32_from_le bs) = bs"
  "length bs = 8 \<Longrightarrow> u64_le (u64_from_le bs) = bs"
  using le_value_less [of bs]
  by (auto simp: u16_le_def u32_le_def u64_le_def u16_from_le_def u32_from_le_def u64_from_le_def
      unat_of_nat le_bytes_le_value)

lemma unat_from_le: "length bs = 8 \<Longrightarrow> unat (u64_from_le bs) = le_value bs"
  using le_value_less [of bs] by (simp add: u64_from_le_def unat_of_nat)

section \<open>Decimal numbers\<close>

text \<open>The decimal digits of a number, as \<open>format!\<close> and \<open>to_string\<close> print it.\<close>

definition digit_char :: "nat \<Rightarrow> char" where "digit_char d = char_of (48 + d)"

fun decimal :: "nat \<Rightarrow> string" where
  "decimal n = (if n < 10 then [digit_char n] else decimal (n div 10) @ [digit_char (n mod 10)])"

declare decimal.simps [simp del]

definition digit_of :: "char \<Rightarrow> nat option" where
  "digit_of c = (if 48 \<le> (of_char c :: nat) \<and> (of_char c :: nat) \<le> 57 then Some (of_char c - 48) else None)"

lemma digit_of_char: "d < 10 \<Longrightarrow> digit_of (digit_char d) = Some d"
  by (simp add: digit_of_def digit_char_def)

lemma decimal_not_Nil [simp]: "decimal n \<noteq> []"
  by (subst decimal.simps) simp

lemma set_decimal: "set (decimal n) \<subseteq> digit_char ` {..<10}"
proof (induction n rule: decimal.induct)
  case (1 n)
  then show ?case by (cases "n < 10") (simp_all add: decimal.simps [of n])
qed

section \<open>Hash maps\<close>

text \<open>\<open>HashMap::insert\<close> on a list with one binding per key.\<close>

fun hash_insert :: "'k \<Rightarrow> 'v \<Rightarrow> ('k \<times> 'v) list \<Rightarrow> ('k \<times> 'v) list" where
  "hash_insert k v [] = [(k, v)]"
| "hash_insert k v ((j, w) # m) = (if j = k then (k, v) # m else (j, w) # hash_insert k v m)"

lemma map_of_hash_insert: "map_of (hash_insert k v m) = (map_of m)(k \<mapsto> v)"
  by (induction m rule: hash_insert.induct) (auto simp: fun_eq_iff)

lemma keys_hash_insert: "fst ` set (hash_insert k v m) = insert k (fst ` set m)"
  by (induction m rule: hash_insert.induct) auto

lemma distinct_hash_insert: "distinct (map fst m) \<Longrightarrow> distinct (map fst (hash_insert k v m))"
proof (induction m rule: hash_insert.induct)
  case (2 k v j w m)
  moreover have "j \<noteq> k \<Longrightarrow> j \<notin> fst ` set m \<Longrightarrow> j \<notin> fst ` set (hash_insert k v m)"
    by (simp add: keys_hash_insert)
  ultimately show ?case by auto
qed simp

lemma set_hash_insert: "set (hash_insert k v m) \<subseteq> insert (k, v) (set m)"
  by (induction m rule: hash_insert.induct) auto

lemma map_of_filter_values:
  "distinct (map fst m) \<Longrightarrow>
   map_of (filter (\<lambda>(k, v). P v) m) k = (case map_of m k of Some v \<Rightarrow> if P v then Some v else None | None \<Rightarrow> None)"
proof (induction m)
  case (Cons a m)
  obtain j w where a: "a = (j, w)" by (cases a)
  show ?case
  proof (cases "j = k")
    case True
    then have "map_of m k = None" using Cons.prems by (auto simp: a map_of_eq_None_iff)
    then show ?thesis using True Cons by (simp add: a)
  next
    case False
    then show ?thesis using Cons by (simp add: a)
  qed
qed simp

section \<open>Lists of optional entries\<close>

text \<open>The code counts received shreds with \<open>iter().filter(|s| s.is_some()).count()\<close>.\<close>

definition count_some :: "'a option list \<Rightarrow> nat" where
  "count_some xs = length (filter (\<lambda>s. s \<noteq> None) xs)"

lemma count_some_le: "count_some xs \<le> length xs"
  by (simp add: count_some_def)

lemma count_some_replicate [simp]: "count_some (replicate n None) = 0"
  by (simp add: count_some_def)

lemma count_some_Nil [simp]: "count_some [] = 0"
  by (simp add: count_some_def)

lemma count_some_Cons: "count_some (x # xs) = (if x = None then 0 else 1) + count_some xs"
  by (simp add: count_some_def)

lemma count_some_update:
  "i < length xs \<Longrightarrow> xs ! i = None \<Longrightarrow> count_some (xs[i := Some v]) = Suc (count_some xs)"
  by (induction xs arbitrary: i) (auto simp: count_some_Cons split: nat.splits)

lemma count_some_full: "count_some xs = length xs \<longleftrightarrow> (\<forall>x \<in> set xs. x \<noteq> None)"
proof (induction xs)
  case (Cons a xs)
  then show ?case using count_some_le [of xs] by (auto simp: count_some_Cons)
qed simp

lemma count_some_card: "count_some xs = card {i. i < length xs \<and> xs ! i \<noteq> None}"
  by (simp add: count_some_def length_filter_conv_card)

end
