(* ===== verification/Stats.thy ===== *)
theory Stats
  imports Prelude
begin

text \<open>
  \<^verbatim>\<open>crates/dc-tvu/src/stats.rs\<close>: the counters that the pipeline writes and \<open>/stats\<close> and
  \<open>getSlot\<close> read. \<open>Arc<RwLock<PipelineStats>>\<close> is the record itself, passed as state.
\<close>

record fec_batch_stats =
  bs_slot :: u64
  bs_fec_set_index :: u32
  bs_data_shreds :: nat
  bs_code_shreds :: nat
  bs_num_data :: nat
  bs_num_code :: nat

record pipeline_stats =
  ps_latest_slot :: u64
  ps_current_batch :: fec_batch_stats
  ps_total_blocks_recovered :: u64
  ps_blocks_in_ring_buffer :: nat
  ps_files_on_disk :: nat
  ps_latest_block_txs :: nat
  ps_latest_block_root :: bytes

definition new_shared_stats :: pipeline_stats where
  "new_shared_stats =
     \<lparr> ps_latest_slot = 0,
       ps_current_batch = \<lparr> bs_slot = 0, bs_fec_set_index = 0, bs_data_shreds = 0, bs_code_shreds = 0,
                            bs_num_data = 0, bs_num_code = 0 \<rparr>,
       ps_total_blocks_recovered = 0, ps_blocks_in_ring_buffer = 0, ps_files_on_disk = 0,
       ps_latest_block_txs = 0, ps_latest_block_root = replicate 32 0 \<rparr>"

end
