(* ===== verification/SlotStore.thy ===== *)
theory SlotStore
  imports Prelude
begin

text \<open>
  The interface of the two block stores that the RPC server reads, the ring buffer
  (\<^verbatim>\<open>ring_buffer.rs\<close>) and the files on disk (\<^verbatim>\<open>flat_file_store.rs\<close>). A store may lose slots, but
  never makes one up: what it answers for a slot is the last value put there.
  \<open>durable_store\<close> is a store that loses nothing.
\<close>

locale slot_store =
  fixes lookup :: "'s \<Rightarrow> u64 \<Rightarrow> 'e + 'v option"
    and insert_slot :: "'s \<Rightarrow> u64 \<Rightarrow> 'v \<Rightarrow> 'e + 's"
    and inv :: "'s \<Rightarrow> bool"
    and fits :: "'s \<Rightarrow> u64 \<Rightarrow> 'v \<Rightarrow> bool"
  assumes lookup_total: "inv s \<Longrightarrow> \<exists>r. lookup s k = Inr r"
    and insert_total: "inv s \<Longrightarrow> fits s k v \<Longrightarrow> \<exists>s'. insert_slot s k v = Inr s' \<and> inv s'"
    and fits_stable: "inv s \<Longrightarrow> fits s k v \<Longrightarrow> insert_slot s k v = Inr s' \<Longrightarrow> fits s' j w = fits s j w"
    and lookup_same: "inv s \<Longrightarrow> fits s k v \<Longrightarrow> insert_slot s k v = Inr s' \<Longrightarrow> lookup s' k = Inr r \<Longrightarrow> r \<noteq> None \<Longrightarrow>
      r = Some v"
    and lookup_other: "inv s \<Longrightarrow> fits s k v \<Longrightarrow> insert_slot s k v = Inr s' \<Longrightarrow> j \<noteq> k \<Longrightarrow> lookup s' j = Inr r \<Longrightarrow>
      r \<noteq> None \<Longrightarrow> lookup s j = Inr r"
begin

definition insert_all :: "'s \<Rightarrow> (u64 \<times> 'v) list \<Rightarrow> 'e + 's" where
  "insert_all s kvs = run_fold (\<lambda>s (k, v). insert_slot s k v) s kvs"

lemma insert_all_simps [simp]:
  "insert_all s [] = Inr s"
  "insert_all s ((k, v) # kvs) = run_bind (insert_slot s k v) (\<lambda>s'. insert_all s' kvs)"
  by (simp_all add: insert_all_def)

lemma insert_all_snoc: "insert_all s (kvs @ [(j, w)]) = run_bind (insert_all s kvs) (\<lambda>s1. insert_slot s1 j w)"
proof (induction kvs arbitrary: s)
  case Nil
  show ?case by (cases "insert_slot s j w") simp_all
next
  case (Cons a kvs)
  obtain x y where "a = (x, y)" by (cases a)
  then show ?case using Cons by (cases "insert_slot s x y") simp_all
qed

lemma insert_all_total:
  "inv s \<Longrightarrow> \<forall>(k, v) \<in> set kvs. fits s k v \<Longrightarrow>
   \<exists>s'. insert_all s kvs = Inr s' \<and> inv s' \<and> (\<forall>k v. fits s' k v = fits s k v)"
proof (induction kvs arbitrary: s)
  case (Cons kv kvs)
  obtain k v where kv: "kv = (k, v)" by (cases kv)
  then have fit: "fits s k v" using Cons.prems(2) by simp
  obtain s1 where s1: "insert_slot s k v = Inr s1" "inv s1" using insert_total [OF Cons.prems(1) fit] by blast
  then have stable: "fits s1 j w = fits s j w" for j w using fits_stable [OF Cons.prems(1) fit] by blast
  then have "\<forall>(k, v) \<in> set kvs. fits s1 k v" using Cons.prems(2) by auto
  then obtain s' where "insert_all s1 kvs = Inr s'" "inv s'" "\<forall>k v. fits s' k v = fits s1 k v"
    using Cons.IH [OF s1(2)] by blast
  then show ?case using s1 stable by (simp add: kv)
qed simp

text \<open>No answer is stale: it is the last value put at the slot, or the one there before.\<close>

lemma never_stale:
  "inv s \<Longrightarrow> \<forall>(k, v) \<in> set kvs. fits s k v \<Longrightarrow> insert_all s kvs = Inr s' \<Longrightarrow> lookup s' k = Inr (Some v) \<Longrightarrow>
   (if k \<in> fst ` set kvs then v = snd (last (filter (\<lambda>kv. fst kv = k) kvs)) else lookup s k = Inr (Some v))"
proof (induction kvs arbitrary: s' rule: rev_induct)
  case (snoc kv kvs)
  obtain j w where kv: "kv = (j, w)" by (cases kv)
  obtain s1 where s1: "insert_all s kvs = Inr s1" "inv s1" "\<forall>k v. fits s1 k v = fits s k v"
    using insert_all_total [of s kvs] snoc.prems(1,2) by auto
  have ins: "insert_slot s1 j w = Inr s'" using snoc.prems(3) by (simp add: kv insert_all_snoc s1(1))
  have fit: "fits s1 j w" using snoc.prems(2) s1(3) by (simp add: kv)
  show ?case
  proof (cases "j = k")
    case True
    then have "v = w" using lookup_same [OF s1(2) fit ins] snoc.prems(4) by auto
    then show ?thesis using True by (simp add: kv)
  next
    case False
    then have "lookup s1 k = Inr (Some v)" using lookup_other [OF s1(2) fit ins] snoc.prems(4) by auto
    then show ?thesis using snoc.IH [OF snoc.prems(1) _ s1(1)] snoc.prems(2) False by (simp add: kv split: if_splits)
  qed
qed simp

end

locale durable_store = slot_store +
  assumes keeps_same: "inv s \<Longrightarrow> fits s k v \<Longrightarrow> insert_slot s k v = Inr s' \<Longrightarrow> lookup s' k = Inr (Some v)"
    and keeps_other: "inv s \<Longrightarrow> fits s k v \<Longrightarrow> insert_slot s k v = Inr s' \<Longrightarrow> j \<noteq> k \<Longrightarrow> lookup s' j = lookup s j"
begin

text \<open>The store is a map: every slot answers with the last value put there.\<close>

lemma is_map:
  "inv s \<Longrightarrow> \<forall>(k, v) \<in> set kvs. fits s k v \<Longrightarrow> insert_all s kvs = Inr s' \<Longrightarrow>
   lookup s' k = (case map_of (rev kvs) k of Some v \<Rightarrow> Inr (Some v) | None \<Rightarrow> lookup s k)"
proof (induction kvs arbitrary: s)
  case (Cons kv kvs)
  obtain j w where kv: "kv = (j, w)" by (cases kv)
  have fit: "fits s j w" using Cons.prems(2) by (simp add: kv)
  obtain s1 where s1: "insert_slot s j w = Inr s1" "inv s1"
    using insert_total [OF Cons.prems(1) fit] by blast
  have stable: "fits s1 k v = fits s k v" for k v by (rule fits_stable [OF Cons.prems(1) fit s1(1)])
  have "lookup s' k = (case map_of (rev kvs) k of Some v \<Rightarrow> Inr (Some v) | None \<Rightarrow> lookup s1 k)"
    using Cons.IH [OF s1(2)] Cons.prems(2,3) by (simp add: kv s1(1) stable)
  then show ?case
    using keeps_same [OF Cons.prems(1) fit s1(1)] keeps_other [OF Cons.prems(1) fit s1(1), of k]
    by (auto simp: kv map_add_def split: option.splits)
qed simp

end

end
