(* ===== verification/Commitment.thy ===== *)
theory Commitment
  imports Prelude
begin

text \<open>
  The interface between the RPC server (\<^verbatim>\<open>rpc_server.rs\<close>, \<open>getProof\<close>) and the Merkle tree it
  calls (\<^verbatim>\<open>merkle_prover.rs\<close>): a commitment to a list, an opening at an index, and a check of an
  opening. The laws: an index of the list opens, its opening checks against the commitment for the
  element there, and no other index opens.
\<close>

locale commitment =
  fixes root_of :: "'v list \<Rightarrow> 'r"
    and leaf_of :: "'v \<Rightarrow> 'l"
    and open_at :: "'v list \<Rightarrow> nat \<Rightarrow> panic + 'p option"
    and check :: "'r \<Rightarrow> 'l \<Rightarrow> 'p \<Rightarrow> nat \<Rightarrow> bool"
  assumes open_in: "i < length vs \<Longrightarrow>
      \<exists>pf. open_at vs i = Inr (Some pf) \<and> check (root_of vs) (leaf_of (vs ! i)) pf i"
    and open_out: "length vs \<le> i \<Longrightarrow> open_at vs i = Inr None"
begin

lemma opens_iff: "(\<exists>pf. open_at vs i = Inr (Some pf)) \<longleftrightarrow> i < length vs"
  using open_in [of i vs] open_out [of vs i] by (cases "i < length vs") auto

lemma opened_checks:
  assumes "open_at vs i = Inr (Some pf)"
  shows "i < length vs \<and> check (root_of vs) (leaf_of (vs ! i)) pf i"
proof -
  have "i < length vs" using assms opens_iff by blast
  then show ?thesis using open_in [of i vs] assms by auto
qed

lemma never_panics: "open_at vs i \<noteq> Inl e"
  using open_in [of i vs] open_out [of vs i] by (cases "i < length vs") auto

end

end
