(* ===== verification/MerkleProver.thy ===== *)
theory MerkleProver
  imports Commitment
begin

text \<open>
  \<^verbatim>\<open>crates/dc-tvu/src/merkle_prover.rs\<close>: the Merkle tree over a block's transactions. SHA-256 of
  the crate \<open>sha2\<close> is the parameter \<open>H\<close>; \<open>update\<close> calls before \<open>finalize\<close> hash the
  concatenation. A \<open>[u8; 32]\<close> is a byte list; where its length matters a hypothesis says so.
\<close>

section \<open>The code\<close>

record merkle_tree =
  mt_root :: bytes
  mt_leaves :: "bytes list"
  mt_layers :: "bytes list list"

text \<open>\<open>chunks(2)\<close> of a slice.\<close>

fun chunks2 :: "'a list \<Rightarrow> 'a list list" where
  "chunks2 [] = []"
| "chunks2 [a] = [[a]]"
| "chunks2 (a # b # xs) = [a, b] # chunks2 xs"

definition next_layer :: "(bytes \<Rightarrow> bytes) \<Rightarrow> bytes list \<Rightarrow> bytes list" where
  "next_layer H current =
     map (\<lambda>pair. H (pair ! 0 @ (if 1 < length pair then pair ! 1 else pair ! 0))) (chunks2 current)"

lemma length_chunks2 [simp]: "length (chunks2 xs) = (length xs + 1) div 2"
  by (induction xs rule: chunks2.induct) auto

lemma length_next_layer [simp]: "length (next_layer H xs) = (length xs + 1) div 2"
  by (simp add: next_layer_def)

function build_layers :: "(bytes \<Rightarrow> bytes) \<Rightarrow> bytes list list \<Rightarrow> bytes list \<Rightarrow> bytes list list \<times> bytes list" where
  "build_layers H layers current =
     (if 1 < length current
      then let next = next_layer H current in build_layers H (layers @ [next]) next
      else (layers, current))"
  by pat_completeness auto
termination by (relation "measure (\<lambda>(_, _, current). length current)") auto

declare build_layers.simps [simp del]

definition merkle_new :: "(bytes \<Rightarrow> bytes) \<Rightarrow> bytes list \<Rightarrow> merkle_tree" where
  "merkle_new H entries =
     (let leaves = map H entries; (layers, current) = build_layers H [leaves] leaves
      in \<lparr> mt_root = (if current = [] then replicate 32 0 else current ! 0),
           mt_leaves = leaves, mt_layers = layers \<rparr>)"

definition prove_step :: "bytes list \<times> nat \<Rightarrow> bytes list \<Rightarrow> panic + bytes list \<times> nat" where
  "prove_step st layer =
     (let (pf, idx) = st
      in run_bind
           (if idx mod 2 = 0
            then (if idx + 1 < length layer then index_at layer (idx + 1) else index_at layer idx)
            else index_at layer (idx - 1))
           (\<lambda>sibling. Inr (pf @ [sibling], idx div 2)))"

text \<open>\<open>layers.len() - 1\<close> of no layers wraps, and the slice of the layers panics.\<close>

definition prove :: "merkle_tree \<Rightarrow> nat \<Rightarrow> panic + bytes list option" where
  "prove t i =
     (if length (mt_leaves t) \<le> i then Inr None
      else if mt_layers t = [] then Inl IndexOutOfBounds
      else run_bind (run_fold prove_step ([], i) (butlast (mt_layers t))) (\<lambda>(pf, idx). Inr (Some pf)))"

definition verify_step :: "(bytes \<Rightarrow> bytes) \<Rightarrow> bytes \<times> nat \<Rightarrow> bytes \<Rightarrow> bytes \<times> nat" where
  "verify_step H st sibling =
     (let (hash, idx) = st
      in (H (if idx mod 2 = 0 then hash @ sibling else sibling @ hash), idx div 2))"

definition verify :: "(bytes \<Rightarrow> bytes) \<Rightarrow> bytes \<Rightarrow> bytes \<Rightarrow> bytes list \<Rightarrow> nat \<Rightarrow> bool" where
  "verify H root leaf pf i = (fst (foldl (verify_step H) (leaf, i) pf) = root)"

section \<open>The layers above a list of nodes\<close>

function levels :: "(bytes \<Rightarrow> bytes) \<Rightarrow> bytes list \<Rightarrow> bytes list list" where
  "levels H current = (if 1 < length current then current # levels H (next_layer H current) else [current])"
  by pat_completeness auto
termination by (relation "measure (\<lambda>(_, current). length current)") auto

declare levels.simps [simp del]

lemma levels_leaf: "length current \<le> 1 \<Longrightarrow> levels H current = [current]"
  by (simp add: levels.simps)

lemma levels_more: "1 < length current \<Longrightarrow> levels H current = current # levels H (next_layer H current)"
  by (simp add: levels.simps)

lemma levels_not_Nil [simp]: "levels H current \<noteq> []"
  by (cases "1 < length current") (simp_all add: levels_leaf levels_more not_less)

lemma build_layers_levels:
  "build_layers H (acc @ [current]) current = (acc @ levels H current, last (levels H current))"
proof (induction H current arbitrary: acc rule: levels.induct)
  case (1 H current)
  show ?case
  proof (cases "1 < length current")
    case True
    then show ?thesis
      using 1 [OF True, of "acc @ [current]"]
      by (subst build_layers.simps) (simp add: levels_more Let_def)
  next
    case False
    then show ?thesis by (subst build_layers.simps) (simp add: levels_leaf)
  qed
qed

definition top_node :: "bytes list \<Rightarrow> bytes" where
  "top_node current = (if current = [] then replicate 32 0 else current ! 0)"

definition tree_root :: "(bytes \<Rightarrow> bytes) \<Rightarrow> bytes list \<Rightarrow> bytes" where
  "tree_root H current = top_node (last (levels H current))"

lemma tree_root_more: "1 < length current \<Longrightarrow> tree_root H current = tree_root H (next_layer H current)"
  by (simp add: tree_root_def levels_more)

lemma merkle_new_eq:
  "merkle_new H entries
     = \<lparr> mt_root = tree_root H (map H entries), mt_leaves = map H entries, mt_layers = levels H (map H entries) \<rparr>"
  using build_layers_levels [of H "[]" "map H entries"] by (simp add: merkle_new_def tree_root_def top_node_def Let_def)

lemma next_layer_nth:
  "2 * i < length current \<Longrightarrow>
   next_layer H current ! i
     = H (current ! (2 * i) @ (if 2 * i + 1 < length current then current ! (2 * i + 1) else current ! (2 * i)))"
proof (induction current arbitrary: i rule: chunks2.induct)
  case (3 a b xs)
  then show ?case by (cases i) (simp_all add: next_layer_def)
qed (simp_all add: next_layer_def)

section \<open>Proofs\<close>

text \<open>The sibling at a layer, and the path of siblings above a node.\<close>

definition sibling_at :: "bytes list \<Rightarrow> nat \<Rightarrow> bytes" where
  "sibling_at layer i =
     (if i mod 2 = 0 then (if i + 1 < length layer then layer ! (i + 1) else layer ! i) else layer ! (i - 1))"

function path :: "(bytes \<Rightarrow> bytes) \<Rightarrow> bytes list \<Rightarrow> nat \<Rightarrow> bytes list" where
  "path H current i =
     (if 1 < length current then sibling_at current i # path H (next_layer H current) (i div 2) else [])"
  by pat_completeness auto
termination by (relation "measure (\<lambda>(_, current, _). length current)") auto

declare path.simps [simp del]

lemma path_leaf: "length current \<le> 1 \<Longrightarrow> path H current i = []"
  by (simp add: path.simps)

lemma path_more:
  "1 < length current \<Longrightarrow> path H current i = sibling_at current i # path H (next_layer H current) (i div 2)"
  by (subst path.simps) simp

lemma prove_fold:
  "i < length current \<Longrightarrow>
   \<exists>j. run_fold prove_step (acc, i) (butlast (levels H current)) = Inr (acc @ path H current i, j)"
proof (induction H current i arbitrary: acc rule: path.induct)
  case (1 H current i)
  show ?case
  proof (cases "1 < length current")
    case True
    have "i div 2 < length (next_layer H current)" using 1(2) by simp
    then obtain j where j: "run_fold prove_step (acc @ [sibling_at current i], i div 2) (butlast (levels H (next_layer H current)))
        = Inr ((acc @ [sibling_at current i]) @ path H (next_layer H current) (i div 2), j)"
      using 1(1) [OF True] by blast
    have "prove_step (acc, i) current = Inr (acc @ [sibling_at current i], i div 2)"
      using 1(2) by (auto simp: prove_step_def sibling_at_def index_ok)
    then show ?thesis using j by (simp add: levels_more [OF True] path_more [OF True])
  qed (simp add: levels_leaf path_leaf)
qed

lemma prove_new:
  "prove (merkle_new H entries) i
     = Inr (if i < length entries then Some (path H (map H entries) i) else None)"
  using prove_fold [of i "map H entries" "[]" H] by (auto simp: merkle_new_eq prove_def)

text \<open>One step of the verifier is one layer of the builder.\<close>

lemma verify_step_next:
  assumes "i < length current"
  shows "verify_step H (current ! i, i) (sibling_at current i) = (next_layer H current ! (i div 2), i div 2)"
proof (cases "i mod 2 = 0")
  case True
  then have "2 * (i div 2) = i" by (simp add: dvd_mult_div_cancel mod_0_imp_dvd)
  then show ?thesis using assms True next_layer_nth [of "i div 2" current H]
    by (simp add: verify_step_def sibling_at_def)
next
  case False
  then have "2 * (i div 2) = i - 1" "0 < i" by presburger+
  then show ?thesis using assms False next_layer_nth [of "i div 2" current H]
    by (simp add: verify_step_def sibling_at_def)
qed

lemma path_verifies:
  "i < length current \<Longrightarrow> fst (foldl (verify_step H) (current ! i, i) (path H current i)) = tree_root H current"
proof (induction H current i rule: path.induct)
  case (1 H current i)
  show ?case
  proof (cases "1 < length current")
    case True
    then show ?thesis
      using 1 by (simp add: path_more verify_step_next tree_root_more)
  next
    case False
    then have "i = 0" "current \<noteq> []" using 1(2) by auto
    then show ?thesis using False by (simp add: path_leaf tree_root_def levels_leaf top_node_def)
  qed
qed

lemma path_length:
  "i < length current \<Longrightarrow> length current \<le> 2 ^ length (path H current i) \<and>
   (path H current i \<noteq> [] \<longrightarrow> 2 ^ (length (path H current i) - 1) < length current)"
proof (induction H current i rule: path.induct)
  case (1 H current i)
  show ?case
  proof (cases "1 < length current")
    case True
    let ?up = "path H (next_layer H current) (i div 2)"
    have IH: "(length current + 1) div 2 \<le> 2 ^ length ?up"
      "?up \<noteq> [] \<longrightarrow> 2 ^ (length ?up - 1) < (length current + 1) div 2"
      using 1(1) [OF True] 1(2) by simp_all
    show ?thesis
    proof (cases ?up)
      case Nil
      then show ?thesis using IH(1) True by (simp add: path_more [OF True])
    next
      case (Cons x xs)
      then show ?thesis using IH by (simp add: path_more [OF True]) linarith
    qed
  qed (use 1(2) in \<open>simp add: path_leaf\<close>)
qed

interpretation tree: commitment
  "\<lambda>entries. mt_root (merkle_new H entries)" H "\<lambda>entries. prove (merkle_new H entries)" "verify H" for H
proof
  fix i and vs :: "bytes list"
  assume i: "i < length vs"
  then have "verify H (mt_root (merkle_new H vs)) (H (vs ! i)) (path H (map H vs) i) i"
    using path_verifies [of i "map H vs" H] by (simp add: verify_def merkle_new_eq)
  then show "\<exists>pf. prove (merkle_new H vs) i = Inr (Some pf)
      \<and> verify H (mt_root (merkle_new H vs)) (H (vs ! i)) pf i"
    using i by (simp add: prove_new)
qed (simp add: prove_new)

section \<open>What a verified proof shows\<close>

text \<open>The strings hashed above a list of nodes, and by a verification.\<close>

function layer_inputs :: "(bytes \<Rightarrow> bytes) \<Rightarrow> bytes list \<Rightarrow> bytes list" where
  "layer_inputs H current =
     (if 1 < length current
      then map (\<lambda>pair. pair ! 0 @ (if 1 < length pair then pair ! 1 else pair ! 0)) (chunks2 current)
           @ layer_inputs H (next_layer H current)
      else [])"
  by pat_completeness auto
termination by (relation "measure (\<lambda>(_, current). length current)") auto

declare layer_inputs.simps [simp del]

fun verify_inputs :: "(bytes \<Rightarrow> bytes) \<Rightarrow> bytes \<Rightarrow> nat \<Rightarrow> bytes list \<Rightarrow> bytes list" where
  "verify_inputs H hash idx [] = []"
| "verify_inputs H hash idx (s # pf) =
     (let x = (if idx mod 2 = 0 then hash @ s else s @ hash) in x # verify_inputs H (H x) (idx div 2) pf)"

lemma pair_input_mem:
  "2 * i < length current \<Longrightarrow> 1 < length current \<Longrightarrow>
   current ! (2 * i) @ (if 2 * i + 1 < length current then current ! (2 * i + 1) else current ! (2 * i))
     \<in> set (layer_inputs H current)"
proof -
  assume i: "2 * i < length current" and big: "1 < length current"
  let ?f = "\<lambda>pair. pair ! 0 @ (if 1 < length pair then pair ! 1 else pair ! (0 :: nat))"
  have "map ?f (chunks2 current) ! i
      = current ! (2 * i) @ (if 2 * i + 1 < length current then current ! (2 * i + 1) else current ! (2 * i))"
    using i
  proof (induction current arbitrary: i rule: chunks2.induct)
    case (3 a b xs)
    then show ?case by (cases i) simp_all
  qed simp_all
  moreover have "i < length (map ?f (chunks2 current))" using i by simp
  then have "map ?f (chunks2 current) ! i \<in> set (map ?f (chunks2 current))" by (rule nth_mem)
  moreover have "set (map ?f (chunks2 current)) \<subseteq> set (layer_inputs H current)"
    by (subst layer_inputs.simps) (simp only: big if_True set_append Un_upper1)
  ultimately show ?thesis by (simp only: subset_iff)
qed

lemma layer_inputs_more:
  "1 < length current \<Longrightarrow> set (layer_inputs H (next_layer H current)) \<subseteq> set (layer_inputs H current)"
  by (subst (2) layer_inputs.simps) simp

lemma verified_node:
  "i < length current \<Longrightarrow> length pf = length (path H current i) \<Longrightarrow>
   fst (foldl (verify_step H) (leaf, i) pf) = tree_root H current \<Longrightarrow>
   \<forall>x. length (H x) = 32 \<Longrightarrow> \<forall>x \<in> set current. length x = 32 \<Longrightarrow> length leaf = 32 \<Longrightarrow>
   \<forall>x \<in> set pf. length x = 32 \<Longrightarrow>
   inj_on H (set (layer_inputs H current) \<union> set (verify_inputs H leaf i pf)) \<Longrightarrow>
   leaf = current ! i \<and> pf = path H current i"
proof (induction H current i arbitrary: leaf pf rule: path.induct)
  case (1 H current i)
  show ?case
  proof (cases "1 < length current")
    case False
    then have "i = 0" "current \<noteq> []" using 1(2) by auto
    then show ?thesis using 1(3,4) False by (simp add: path_leaf tree_root_def levels_leaf top_node_def)
  next
    case True
    then obtain s rest where pf: "pf = s # rest" using 1(3) by (cases pf) (auto simp: path_more)
    let ?x = "if i mod 2 = 0 then leaf @ s else s @ leaf"
    let ?l = "current ! (2 * (i div 2))"
    let ?r = "if 2 * (i div 2) + 1 < length current then current ! (2 * (i div 2) + 1) else ?l"
    have i2: "2 * (i div 2) < length current" using 1(2) by presburger
    have inputs: "set (layer_inputs H (next_layer H current)) \<union> set (verify_inputs H (H ?x) (i div 2) rest)
        \<subseteq> set (layer_inputs H current) \<union> set (verify_inputs H leaf i pf)"
      using layer_inputs_more [OF True, of H] by (auto simp: pf Let_def)
    have up: "H ?x = next_layer H current ! (i div 2) \<and> rest = path H (next_layer H current) (i div 2)"
    proof (rule 1(1) [OF True])
      show "i div 2 < length (next_layer H current)" using 1(2) by simp
      show "\<forall>x\<in>set (next_layer H current). length x = 32" using 1(5) by (auto simp: next_layer_def)
      show "inj_on H (set (layer_inputs H (next_layer H current)) \<union> set (verify_inputs H (H ?x) (i div 2) rest))"
        by (rule inj_on_subset [OF 1(9) inputs])
    qed (use 1(3-8) in \<open>simp_all add: pf path_more [OF True] verify_step_def tree_root_more [OF True]\<close>)
    then have "H ?x = H (?l @ ?r)" using next_layer_nth [OF i2] by simp
    moreover have "?x \<in> set (verify_inputs H leaf i pf)" by (simp add: pf Let_def)
    moreover have "?l @ ?r \<in> set (layer_inputs H current)" by (rule pair_input_mem [OF i2 True])
    ultimately have eq: "?x = ?l @ ?r" by (rule inj_onD [OF 1(9) _ UnI2 UnI1])
    have len: "length leaf = 32" "length s = 32" "length ?l = 32" using 1(6-8) i2 pf by auto
    show ?thesis
    proof (cases "i mod 2 = 0")
      case True
      then have "2 * (i div 2) = i" by presburger
      then show ?thesis using eq len True up by (simp add: pf path_more [OF \<open>1 < length current\<close>] sibling_at_def)
    next
      case False
      then have "2 * (i div 2) = i - 1" "0 < i" by presburger+
      then show ?thesis using eq len False up 1(2) by (simp add: pf path_more [OF True] sibling_at_def)
    qed
  qed
qed

text \<open>The verifier reads only as many bits of the index as the proof has siblings.\<close>

lemma verify_fold_index:
  "j mod 2 ^ length pf = i mod 2 ^ length pf \<Longrightarrow>
   fst (foldl (verify_step H) (leaf, i) pf) = fst (foldl (verify_step H) (leaf, j) pf)"
proof (induction pf arbitrary: leaf i j)
  case (Cons s pf)
  have "j mod 2 = i mod 2" using Cons.prems by (metis length_Cons mod_mult_right_eq mod_mod_cancel dvd_triv_left power_Suc)
  moreover have "(j div 2) mod 2 ^ length pf = (i div 2) mod 2 ^ length pf"
    using Cons.prems \<open>j mod 2 = i mod 2\<close> by (simp add: mod_mult2_eq)
  ultimately show ?case using Cons.IH [of "j div 2" "i div 2"] by (simp add: verify_step_def)
qed simp

text \<open>An odd layer pairs its last node with itself.\<close>

lemma next_layer_append: "even (length xs) \<Longrightarrow> next_layer H (xs @ ys) = next_layer H xs @ next_layer H ys"
  by (induction xs rule: chunks2.induct) (simp_all add: next_layer_def)

lemma next_layer_pair: "next_layer H [a, a] = next_layer H [a]"
  by (simp add: next_layer_def)

lemma next_layer_twice: "odd (length xs) \<Longrightarrow> next_layer H (xs @ [last xs]) = next_layer H xs"
proof -
  assume odd: "odd (length xs)"
  then have ne: "xs \<noteq> []" by auto
  then have "xs = butlast xs @ [last xs]" by simp
  moreover have "even (length (butlast xs))" using odd by simp
  ultimately show ?thesis
    using next_layer_append [of "butlast xs" H "[last xs]"] next_layer_append [of "butlast xs" H "[last xs, last xs]"]
    by (metis append.assoc append_Cons append_Nil nth_Cons_0 next_layer_pair)
qed

lemma tree_root_twice:
  assumes "odd (length xs)" "1 < length xs"
  shows "tree_root H (xs @ [last xs]) = tree_root H xs"
proof -
  have "1 < length (xs @ [last xs])" using assms(2) by (cases xs) simp_all
  then show ?thesis
    using tree_root_more [OF assms(2)] next_layer_twice [OF assms(1)] by (metis tree_root_more)
qed

section \<open>Properties\<close>

text \<open>C23. Completeness: every transaction of a block has a proof, the verifier accepts it for the
  transaction's hash, and it has as many siblings as the tree has layers above the leaves, the
  logarithm of the number of leaves rounded up.\<close>

theorem proof_verifies:
  assumes "i < length entries"
  shows "\<exists>pf. prove (merkle_new H entries) i = Inr (Some pf) \<and>
    verify H (mt_root (merkle_new H entries)) (H (entries ! i)) pf i \<and>
    length entries \<le> 2 ^ length pf \<and> (pf = [] \<or> 2 ^ (length pf - 1) < length entries)"
  using tree.open_in [OF assms, of H] path_length [of i "map H entries" H] assms
  by (auto simp: prove_new)

theorem proof_verifies_witness:
  "\<exists>pf. prove (merkle_new (take 32) [[1], [2], [3]]) 2 = Inr (Some pf) \<and>
    verify (take 32) (mt_root (merkle_new (take 32) [[1], [2], [3]])) [3] pf 2"
  using proof_verifies [of 2 "[[1], [2], [3]]" "take 32"] by auto

text \<open>C13. Soundness: when no two strings hashed by the tree and by the verification collide, the verifier
  accepts, at an index of the block and with a proof of the right length, only the leaf of that index
  and only the proof that \<open>prove\<close> gives.\<close>

theorem verified_is_member:
  assumes "prove (merkle_new H entries) i = Inr (Some pf0)" "length pf = length pf0"
    and "verify H (mt_root (merkle_new H entries)) leaf pf i"
    and "\<forall>x. length (H x) = 32" "length leaf = 32" "\<forall>x \<in> set pf. length x = 32"
    and "inj_on H (set (layer_inputs H (map H entries)) \<union> set (verify_inputs H leaf i pf))"
  shows "leaf = H (entries ! i) \<and> pf = pf0"
proof -
  have i: "i < length entries" using assms(1) tree.opens_iff by blast
  then have "pf0 = path H (map H entries) i" using assms(1) by (simp add: prove_new)
  moreover have "leaf = map H entries ! i \<and> pf = path H (map H entries) i"
    using assms calculation i
    by (intro verified_node) (simp_all add: verify_def merkle_new_eq)
  ultimately show ?thesis using i by simp
qed

definition pad32 :: "bytes \<Rightarrow> bytes" where
  "pad32 xs = take 32 (xs @ replicate 32 0)"

theorem verified_is_member_witness:
  "\<exists>pf. prove (merkle_new pad32 [[1], [2]]) 0 = Inr (Some pf) \<and> pf = [pad32 [2]]"
proof -
  have pf0: "prove (merkle_new pad32 [[1], [2]]) 0 = Inr (Some (path pad32 [pad32 [1], pad32 [2]] 0))"
    by (simp add: prove_new)
  have path: "length (path pad32 [pad32 [1], pad32 [2]] 0) = 1"
    by (simp add: path_more path_leaf next_layer_def)
  have root: "mt_root (merkle_new pad32 [[1], [2]]) = pad32 (pad32 [1] @ pad32 [2])"
    by (simp add: merkle_new_eq tree_root_more next_layer_def) (simp add: tree_root_def levels_leaf top_node_def)
  have inputs: "set (layer_inputs pad32 (map pad32 [[1], [2]])) \<subseteq> {pad32 [1] @ pad32 [2]}"
    by (simp add: layer_inputs.simps next_layer_def)
  have "inj_on pad32 (set (layer_inputs pad32 (map pad32 [[1], [2]])) \<union> set (verify_inputs pad32 (pad32 [1]) 0 [pad32 [2]]))"
    by (rule inj_on_subset [of _ "{pad32 [1] @ pad32 [2]}"]) (use inputs in \<open>auto simp: Let_def\<close>)
  then have "pad32 [1] = pad32 ([[1], [2]] ! 0) \<and> [pad32 [2]] = path pad32 [pad32 [1], pad32 [2]] 0"
    by (intro verified_is_member [OF pf0]) (simp_all add: path root verify_def verify_step_def, auto simp: pad32_def)
  then show ?thesis using pf0 by simp
qed

text \<open>The verifier reads only as many bits of the index as the proof has siblings: indices that agree
  there are accepted or refused together, so an accepted proof does not pin the index down.\<close>

theorem verify_index_bits: "verify H root leaf pf i = verify H root leaf pf (i mod 2 ^ length pf)"
  using verify_fold_index [of "i mod 2 ^ length pf" pf i H leaf] by (simp add: verify_def)

text \<open>A block of an odd number of transactions, at least three, has the same root as the block with its
  last transaction repeated.\<close>

theorem repeated_last_same_root:
  assumes "odd (length entries)" "1 < length entries"
  shows "mt_root (merkle_new H (entries @ [last entries])) = mt_root (merkle_new H entries)"
proof -
  have "entries \<noteq> []" using assms(2) by auto
  then have "last (map H entries) = H (last entries)" by (rule last_map)
  then show ?thesis using tree_root_twice [of "map H entries" H] assms by (simp add: merkle_new_eq)
qed

theorem repeated_last_same_root_witness:
  "mt_root (merkle_new pad32 [[1], [2], [3], [3]]) = mt_root (merkle_new pad32 [[1], [2], [3]])"
  using repeated_last_same_root [of "[[1], [2], [3]]" pad32] by simp

end
