(* ===== verification/RingBuffer.thy ===== *)
theory RingBuffer
  imports SlotStore MerkleProver
begin

text \<open>
  \<^verbatim>\<open>crates/dc-tvu/src/ring_buffer.rs\<close>: the recent blocks, at the index of their slot modulo the
  capacity, and the window \<open>head .. tail\<close> of slots that \<open>get\<close> answers. Slots are 64-bit words and
  the window arithmetic wraps; a capacity of 0 divides by zero.
\<close>

section \<open>The code\<close>

record slot_data =
  sd_slot :: u64
  sd_parent_slot :: u64
  sd_entries :: bytes
  sd_num_transactions :: nat
  sd_merkle_root :: "bytes option"
  sd_merkle_tree :: "merkle_tree option"

record ring_buffer =
  rb_slots :: "slot_data option list"
  rb_capacity :: nat
  rb_head :: u64
  rb_tail :: u64

definition new_ring_buffer :: "nat \<Rightarrow> ring_buffer" where
  "new_ring_buffer capacity =
     \<lparr> rb_slots = replicate capacity None, rb_capacity = capacity, rb_head = 0, rb_tail = 0 \<rparr>"

definition slot_rem :: "u64 \<Rightarrow> nat \<Rightarrow> panic + nat" where
  "slot_rem slot capacity =
     (if (word_of_nat capacity :: u64) = 0 then Inl DivisionByZero else Inr (unat (slot mod word_of_nat capacity)))"

definition put :: "ring_buffer \<Rightarrow> slot_data \<Rightarrow> panic + ring_buffer" where
  "put b d =
     (let slot = sd_slot d; cap = (word_of_nat (rb_capacity b) :: u64) in
      run_bind (slot_rem slot (rb_capacity b)) (\<lambda>idx.
      if idx < length (rb_slots b)
      then Inr (b\<lparr> rb_slots := (rb_slots b)[idx := Some d],
                   rb_head := (if rb_head b + cap \<le> slot then slot - cap + 1 else rb_head b),
                   rb_tail := (if rb_tail b \<le> slot then slot + 1 else rb_tail b) \<rparr>)
      else Inl IndexOutOfBounds))"

definition ring_latest_slot :: "ring_buffer \<Rightarrow> u64 option" where
  "ring_latest_slot b = (if rb_tail b = 0 then None else Some (rb_tail b - 1))"

definition ring_len :: "ring_buffer \<Rightarrow> nat" where
  "ring_len b = unat (saturating_sub (rb_tail b) (rb_head b))"

definition get :: "ring_buffer \<Rightarrow> u64 \<Rightarrow> panic + slot_data option" where
  "get b slot =
     (if slot < rb_head b \<or> rb_tail b \<le> slot then Inr None
      else run_bind (slot_rem slot (rb_capacity b)) (\<lambda>idx.
           run_bind (index_at (rb_slots b) idx) (\<lambda>s.
           case s of None \<Rightarrow> Inr None
           | Some d \<Rightarrow> Inr (if sd_slot d = slot then Some d else None))))"

section \<open>The invariant\<close>

text \<open>
  The index of a stored block is that of its slot, all stored slots are below the tail, the window
  is no longer than the capacity, and the tail is far enough from the top of the slot range that
  \<open>head + capacity\<close> has not wrapped.
\<close>

definition ring_ok :: "ring_buffer \<Rightarrow> bool" where
  "ring_ok b \<longleftrightarrow>
     0 < rb_capacity b \<and> rb_capacity b \<le> usize_max \<and> length (rb_slots b) = rb_capacity b \<and>
     unat (rb_tail b) + rb_capacity b \<le> usize_max \<and> unat (rb_tail b) \<le> unat (rb_head b) + rb_capacity b \<and>
     unat (rb_head b) \<le> unat (rb_tail b) \<and>
     (\<forall>i<rb_capacity b. \<forall>d. rb_slots b ! i = Some d \<longrightarrow>
        unat (sd_slot d) mod rb_capacity b = i \<and> sd_slot d < rb_tail b)"

text \<open>A slot far enough below \<open>2 ^ 64\<close> for the window arithmetic.\<close>

definition slot_fits :: "ring_buffer \<Rightarrow> u64 \<Rightarrow> slot_data \<Rightarrow> bool" where
  "slot_fits b slot d \<longleftrightarrow> sd_slot d = slot \<and> unat slot + rb_capacity b < usize_max"

lemma ring_ok_new: "0 < capacity \<Longrightarrow> capacity \<le> usize_max \<Longrightarrow> ring_ok (new_ring_buffer capacity)"
  by (simp add: ring_ok_def new_ring_buffer_def)

lemma unat_capacity: "ring_ok b \<Longrightarrow> unat (word_of_nat (rb_capacity b) :: u64) = rb_capacity b"
  by (simp add: ring_ok_def usize_max_def unat_of_nat)

lemma slot_rem_ok:
  assumes "ring_ok b"
  shows "slot_rem slot (rb_capacity b) = Inr (unat slot mod rb_capacity b)"
    and "unat slot mod rb_capacity b < length (rb_slots b)"
proof -
  have "0 < rb_capacity b" "length (rb_slots b) = rb_capacity b" using assms by (simp_all add: ring_ok_def)
  then show "slot_rem slot (rb_capacity b) = Inr (unat slot mod rb_capacity b)"
    and "unat slot mod rb_capacity b < length (rb_slots b)"
    using unat_capacity [OF assms] by (auto simp: slot_rem_def unat_mod_distrib word_unat_eq_iff)
qed

text \<open>The content of the buffer: the map that \<open>get\<close> answers from.\<close>

definition ring_map :: "ring_buffer \<Rightarrow> u64 \<Rightarrow> slot_data option" where
  "ring_map b slot =
     (if rb_head b \<le> slot \<and> slot < rb_tail b
      then (case rb_slots b ! (unat slot mod rb_capacity b) of
              Some d \<Rightarrow> if sd_slot d = slot then Some d else None | None \<Rightarrow> None)
      else None)"

lemma get_ring_map: "ring_ok b \<Longrightarrow> get b slot = Inr (ring_map b slot)"
  using slot_rem_ok [of b slot]
  by (auto simp: get_def ring_map_def index_ok not_le not_less split: option.splits)

lemma put_ok:
  assumes "ring_ok b" "slot_fits b (sd_slot d) d"
  defines "b' \<equiv> b\<lparr> rb_slots := (rb_slots b)[unat (sd_slot d) mod rb_capacity b := Some d],
      rb_head := (if unat (rb_head b) + rb_capacity b \<le> unat (sd_slot d)
                  then sd_slot d - word_of_nat (rb_capacity b) + 1 else rb_head b),
      rb_tail := (if rb_tail b \<le> sd_slot d then sd_slot d + 1 else rb_tail b) \<rparr>"
  shows "put b d = Inr b'"
proof -
  have "unat (rb_head b) + rb_capacity b \<le> usize_max" using assms(1) by (simp add: ring_ok_def)
  then have "unat (rb_head b + word_of_nat (rb_capacity b)) = unat (rb_head b) + rb_capacity b"
    using unat_capacity [OF assms(1)] by (simp add: unat_word_ariths usize_max_def)
  then show ?thesis
    using slot_rem_ok [OF assms(1), of "sd_slot d"] by (simp add: put_def Let_def b'_def word_le_nat_alt)
qed

text \<open>The ends of the window after a put, as numbers.\<close>

lemma put_window:
  assumes "ring_ok b" "slot_fits b (sd_slot d) d" "put b d = Inr b'"
  shows "unat (rb_head b') = (if unat (rb_head b) + rb_capacity b \<le> unat (sd_slot d)
           then unat (sd_slot d) + 1 - rb_capacity b else unat (rb_head b))"
    and "unat (rb_tail b') = max (unat (rb_tail b)) (unat (sd_slot d) + 1)"
    and "rb_capacity b' = rb_capacity b"
    and "rb_slots b' = (rb_slots b)[unat (sd_slot d) mod rb_capacity b := Some d]"
proof -
  note b' = put_ok [OF assms(1,2), unfolded assms(3), THEN Inr_inject]
  have cap: "unat (word_of_nat (rb_capacity b) :: u64) = rb_capacity b" by (rule unat_capacity [OF assms(1)])
  have top: "unat (sd_slot d) + rb_capacity b < usize_max" using assms(2) by (simp add: slot_fits_def)
  have one: "unat (sd_slot d + 1) = unat (sd_slot d) + 1"
    using top by (simp add: unat_word_ariths usize_max_def)
  have minus: "unat (sd_slot d - word_of_nat (rb_capacity b) + 1) = unat (sd_slot d) + 1 - rb_capacity b"
    if "unat (rb_head b) + rb_capacity b \<le> unat (sd_slot d)"
  proof -
    have "rb_capacity b \<le> unat (sd_slot d)" using that by simp
    then have "unat (sd_slot d - word_of_nat (rb_capacity b)) = unat (sd_slot d) - rb_capacity b"
      using cap by (simp add: unat_sub word_le_nat_alt)
    then show ?thesis using top \<open>rb_capacity b \<le> unat (sd_slot d)\<close>
      by (simp add: unat_word_ariths usize_max_def)
  qed
  show "unat (rb_head b') = (if unat (rb_head b) + rb_capacity b \<le> unat (sd_slot d)
           then unat (sd_slot d) + 1 - rb_capacity b else unat (rb_head b))"
    using minus by (simp add: b')
  show "unat (rb_tail b') = max (unat (rb_tail b)) (unat (sd_slot d) + 1)"
    using one by (simp add: b' word_le_nat_alt)
  show "rb_capacity b' = rb_capacity b"
    and "rb_slots b' = (rb_slots b)[unat (sd_slot d) mod rb_capacity b := Some d]"
    by (simp_all add: b')
qed

lemma put_keeps_ok:
  assumes "ring_ok b" "slot_fits b (sd_slot d) d" "put b d = Inr b'"
  shows "ring_ok b'"
proof -
  note w = put_window [OF assms]
  have top: "unat (sd_slot d) + rb_capacity b < usize_max" using assms(2) by (simp add: slot_fits_def)
  show ?thesis
    using assms(1) top
    by (auto simp: ring_ok_def w nth_list_update word_less_nat_alt)
qed

section \<open>The ring buffer as a map\<close>

lemma ring_map_below: "ring_ok b \<Longrightarrow> ring_map b slot = Some d \<Longrightarrow> sd_slot d = slot \<and> rb_head b \<le> slot \<and> slot < rb_tail b"
  by (auto simp: ring_map_def split: if_splits option.splits)

text \<open>
  A put replaces what is at the slot's index, drops what falls out of the window and, when its own
  slot is already below the window, is dropped itself: it then only evicts.
\<close>

lemma ring_map_put:
  assumes ok: "ring_ok b" and fit: "slot_fits b (sd_slot d) d" and put: "put b d = Inr b'"
  shows "ring_map b' s =
    (if s = sd_slot d then (if rb_head b \<le> s then Some d else None)
     else if unat s mod rb_capacity b = unat (sd_slot d) mod rb_capacity b \<or> unat s + rb_capacity b \<le> unat (sd_slot d)
     then None else ring_map b s)"
proof -
  note w = put_window [OF ok fit put]
  have cap: "0 < rb_capacity b" "length (rb_slots b) = rb_capacity b" using ok by (simp_all add: ring_ok_def)
  have idx: "unat i mod rb_capacity b < length (rb_slots b)" for i :: u64 using cap by simp
  show ?thesis
  proof (cases "unat s mod rb_capacity b = unat (sd_slot d) mod rb_capacity b")
    case True
    then show ?thesis using cap idx [of "sd_slot d"]
      by (auto simp: ring_map_def w word_le_nat_alt word_less_nat_alt)
  next
    case False
    let ?i = "unat s mod rb_capacity b"
    have same: "rb_slots b' ! ?i = rb_slots b ! ?i" using False by (simp add: w)
    show ?thesis
    proof (cases "\<exists>e. rb_slots b ! ?i = Some e \<and> sd_slot e = s")
      case True
      then obtain e where e: "rb_slots b ! ?i = Some e" "sd_slot e = s" by blast
      have "\<forall>i<rb_capacity b. \<forall>e. rb_slots b ! i = Some e \<longrightarrow> sd_slot e < rb_tail b" using ok by (simp add: ring_ok_def)
      then have "s < rb_tail b" using e idx [of s] cap(2) by metis
      then have "s < rb_tail b'" by (simp add: word_less_nat_alt w)
      have "rb_head b' \<le> s \<longleftrightarrow> \<not> unat s + rb_capacity b \<le> unat (sd_slot d)" if "rb_head b \<le> s"
        using that by (auto simp: word_le_nat_alt w)
      moreover have "rb_head b' \<le> s \<Longrightarrow> rb_head b \<le> s" by (simp add: word_le_nat_alt w split: if_splits)
      ultimately show ?thesis
        using False e same \<open>s < rb_tail b\<close> \<open>s < rb_tail b'\<close> by (auto simp: ring_map_def w(3))
    next
      case no: False
      then have "ring_map b s = None" "ring_map b' s = None"
        by (auto simp: ring_map_def w(3) same split: option.splits)
      then show ?thesis using False by auto
    qed
  qed
qed

interpretation ring: slot_store get "\<lambda>b slot d. put b d" ring_ok slot_fits
proof
  fix b slot and d :: slot_data
  assume ok: "ring_ok b"
  show "\<exists>r. get b slot = Inr r" using get_ring_map [OF ok] by blast
  assume fit: "slot_fits b slot d"
  then have fit': "slot_fits b (sd_slot d) d" and slot: "sd_slot d = slot" by (simp_all add: slot_fits_def)
  show "\<exists>b'. put b d = Inr b' \<and> ring_ok b'"
    using put_ok [OF ok fit'] put_keeps_ok [OF ok fit'] by blast
  fix b' assume put: "put b d = Inr b'"
  have ok': "ring_ok b'" by (rule put_keeps_ok [OF ok fit' put])
  show "slot_fits b' j w = slot_fits b j w" for j w
    by (simp add: slot_fits_def put_window(3) [OF ok fit' put])
  show "r = Some d" if "get b' slot = Inr r" "r \<noteq> None" for r
    using that ring_map_put [OF ok fit' put, of slot] by (simp add: get_ring_map [OF ok'] slot split: if_splits)
  show "get b j = Inr r" if "j \<noteq> slot" "get b' j = Inr r" "r \<noteq> None" for j r
    using that ring_map_put [OF ok fit' put, of j]
    by (simp add: get_ring_map [OF ok'] get_ring_map [OF ok] slot split: if_splits)
qed

section \<open>Blocks in slot order\<close>

lemma mod_less_dist: "a < b \<Longrightarrow> a mod n = b mod n \<Longrightarrow> a + n \<le> b" for a b n :: nat
proof -
  assume "a < b" "a mod n = b mod n"
  then have "n dvd b - a" by (metis mod_eq_dvd_iff_nat less_imp_le)
  then have "n \<le> b - a" using \<open>a < b\<close> by (simp add: dvd_imp_le)
  then show ?thesis using \<open>a < b\<close> by simp
qed

text \<open>The puts of a list of blocks, one after the other.\<close>

definition put_all :: "ring_buffer \<Rightarrow> slot_data list \<Rightarrow> panic + ring_buffer" where
  "put_all b ds = run_fold put b ds"

lemma put_all_insert_all: "put_all b ds = ring.insert_all b (map (\<lambda>d. (sd_slot d, d)) ds)"
  unfolding put_all_def by (induction ds arbitrary: b) (simp_all add: run_bind_def split: sum.split)

text \<open>Blocks that come in slot order stay until a slot at least a capacity above them comes.\<close>

lemma put_all_sorted:
  assumes "0 < capacity" "capacity \<le> usize_max"
  shows "sorted_wrt (\<lambda>d e. sd_slot d < sd_slot e) ds \<Longrightarrow> \<forall>d \<in> set ds. unat (sd_slot d) + capacity < usize_max \<Longrightarrow>
    \<exists>b. put_all (new_ring_buffer capacity) ds = Inr b \<and> ring_ok b \<and> rb_capacity b = capacity \<and>
      (if ds = [] then rb_tail b = 0 else unat (rb_tail b) = unat (sd_slot (last ds)) + 1) \<and>
      (\<forall>s. ring_map b s = (if ds \<noteq> [] \<and> unat s + capacity \<le> unat (sd_slot (last ds)) then None
                           else map_of (map (\<lambda>d. (sd_slot d, d)) ds) s))"
proof (induction ds rule: rev_induct)
  case Nil
  show ?case using assms
    by (simp add: put_all_def ring_ok_new new_ring_buffer_def ring_map_def ring_ok_def [of "new_ring_buffer capacity", unfolded new_ring_buffer_def])
next
  case (snoc d ds)
  have sorted: "\<forall>e \<in> set ds. sd_slot e < sd_slot d" "sorted_wrt (\<lambda>d e. sd_slot d < sd_slot e) ds"
    using snoc.prems(1) by (simp_all add: sorted_wrt_append)
  obtain b where b: "put_all (new_ring_buffer capacity) ds = Inr b" "ring_ok b" "rb_capacity b = capacity"
    and tail: "if ds = [] then rb_tail b = 0 else unat (rb_tail b) = unat (sd_slot (last ds)) + 1"
    and m: "\<And>s. ring_map b s = (if ds \<noteq> [] \<and> unat s + capacity \<le> unat (sd_slot (last ds)) then None
                                 else map_of (map (\<lambda>d. (sd_slot d, d)) ds) s)"
    using snoc.IH [OF sorted(2)] snoc.prems(2) by auto
  have fit: "slot_fits b (sd_slot d) d" using snoc.prems(2) b(3) by (simp add: slot_fits_def)
  obtain b' where b': "put b d = Inr b'" using put_ok [OF b(2) fit] by blast
  note w = put_window [OF b(2) fit b']
  have low: "unat (rb_tail b) \<le> unat (sd_slot d)"
    using tail sorted(1) last_in_set [of ds] by (auto simp: word_less_nat_alt Suc_le_eq split: if_splits)
  have head: "rb_head b \<le> sd_slot d" using b(2) low by (simp add: ring_ok_def word_le_nat_alt)
  have all: "put_all (new_ring_buffer capacity) (ds @ [d]) = Inr b'"
    using ring.insert_all_snoc [of "new_ring_buffer capacity" "map (\<lambda>d. (sd_slot d, d)) ds" "sd_slot d" d] b(1) b'
    by (simp add: put_all_insert_all)
  have "ring_map b' s = (if unat s + capacity \<le> unat (sd_slot d) then None
      else map_of (map (\<lambda>d. (sd_slot d, d)) (ds @ [d])) s)" for s
  proof (cases "s = sd_slot d")
    case True
    have "map_of (map (\<lambda>d. (sd_slot d, d)) ds) s = None"
      using sorted(1) by (auto simp: True map_of_eq_None_iff)
    then show ?thesis using True head assms(1)
      by (simp add: ring_map_put [OF b(2) fit b'] map_add_def)
  next
    case False
    have bound: "unat s < unat (sd_slot d)" if "map_of (map (\<lambda>d. (sd_slot d, d)) ds) s = Some e" for e
      using map_of_SomeD [OF that] sorted(1) by (auto simp: word_less_nat_alt)
    have near: "unat s + capacity \<le> unat (sd_slot d)"
      if "unat s < unat (sd_slot d)" "unat s mod capacity = unat (sd_slot d) mod capacity"
      using that mod_less_dist [OF that] by simp
    have older: "unat s + capacity \<le> unat (sd_slot (last ds)) \<Longrightarrow> ds \<noteq> [] \<Longrightarrow> unat s + capacity \<le> unat (sd_slot d)"
      using sorted(1) last_in_set [of ds] by (fastforce simp: word_less_nat_alt)
    show ?thesis using False older near bound
      by (cases "map_of (map (\<lambda>d. (sd_slot d, d)) ds) s") (auto simp: ring_map_put [OF b(2) fit b'] b(3) m map_add_def)
  qed
  then show ?case
    using all put_keeps_ok [OF b(2) fit b'] w b(3) low by simp
qed

section \<open>Properties\<close>

text \<open>What a put does, slot by slot: the block is found at its slot unless that is below the window; the
  block at the same index and all blocks a capacity or more below it are gone; every other block stays.\<close>

theorem get_after_put:
  assumes "ring_ok b" "slot_fits b (sd_slot d) d" "put b d = Inr b'"
  shows "ring_ok b' \<and> (\<forall>s. get b' s =
    (if s = sd_slot d then Inr (if rb_head b \<le> s then Some d else None)
     else if unat s mod rb_capacity b = unat (sd_slot d) mod rb_capacity b \<or> unat s + rb_capacity b \<le> unat (sd_slot d)
     then Inr None else get b s))"
  using ring_map_put [OF assms] put_keeps_ok [OF assms] get_ring_map [OF assms(1)] get_ring_map [of b']
  by simp

definition example_block :: "u64 \<Rightarrow> slot_data" where
  "example_block slot = \<lparr> sd_slot = slot, sd_parent_slot = slot - 1, sd_entries = [], sd_num_transactions = 0,
     sd_merkle_root = None, sd_merkle_tree = None \<rparr>"

theorem get_after_put_witness:
  "\<exists>b. put (new_ring_buffer 4) (example_block 6) = Inr b \<and> get b 6 = Inr (Some (example_block 6)) \<and> get b 2 = Inr None"
proof -
  have ok: "ring_ok (new_ring_buffer 4)" by (rule ring_ok_new) (simp_all add: usize_max_def)
  have fit: "slot_fits (new_ring_buffer 4) (sd_slot (example_block 6)) (example_block 6)"
    by (simp add: slot_fits_def example_block_def new_ring_buffer_def usize_max_def)
  obtain b where b: "put (new_ring_buffer 4) (example_block 6) = Inr b" using put_ok [OF ok fit] by blast
  from get_after_put [OF ok fit b] show ?thesis using b
    by (simp add: example_block_def new_ring_buffer_def)
qed

text \<open>C18. Blocks put in slot order are all found until a block at least a capacity above them comes: the
  buffer is a sliding window over the slots.\<close>

theorem sliding_window:
  assumes "0 < capacity" "capacity \<le> usize_max" "sorted_wrt (\<lambda>d e. sd_slot d < sd_slot e) ds" "ds \<noteq> []"
    and "\<forall>d \<in> set ds. unat (sd_slot d) + capacity < usize_max"
  shows "\<exists>b. put_all (new_ring_buffer capacity) ds = Inr b \<and> ring_latest_slot b = Some (sd_slot (last ds)) \<and>
    (\<forall>s. get b s = Inr (if unat s + capacity \<le> unat (sd_slot (last ds)) then None
                        else map_of (map (\<lambda>d. (sd_slot d, d)) ds) s))"
proof -
  obtain b where b: "put_all (new_ring_buffer capacity) ds = Inr b" "ring_ok b"
    "unat (rb_tail b) = unat (sd_slot (last ds)) + 1"
    "\<forall>s. ring_map b s = (if unat s + capacity \<le> unat (sd_slot (last ds)) then None
                         else map_of (map (\<lambda>d. (sd_slot d, d)) ds) s)"
    using put_all_sorted [OF assms(1,2,3,5)] assms(4) by auto
  have "rb_tail b \<noteq> 0" using b(3) by auto
  then have "unat (rb_tail b - 1) = unat (sd_slot (last ds))" using b(3) by (simp add: unat_minus_one)
  then have "ring_latest_slot b = Some (sd_slot (last ds))"
    using \<open>rb_tail b \<noteq> 0\<close> by (simp add: ring_latest_slot_def word_unat_eq_iff)
  then show ?thesis using b(1,2,4) by (auto simp: get_ring_map)
qed

theorem sliding_window_witness:
  "\<exists>b. put_all (new_ring_buffer 2) [example_block 3, example_block 4, example_block 6] = Inr b \<and>
     get b 6 = Inr (Some (example_block 6)) \<and> get b 4 = Inr None"
proof -
  have s: "sd_slot (example_block k) = k" for k by (simp add: example_block_def)
  obtain b where b: "put_all (new_ring_buffer 2) [example_block 3, example_block 4, example_block 6] = Inr b"
    "\<forall>s. get b s = Inr (if unat s + 2 \<le> unat (sd_slot (example_block 6)) then None
       else map_of (map (\<lambda>d. (sd_slot d, d)) [example_block 3, example_block 4, example_block 6]) s)"
    using sliding_window [of 2 "[example_block 3, example_block 4, example_block 6]"]
    by (auto simp: s usize_max_def)
  then show ?thesis by (simp add: s)
qed

text \<open>No stale block: after any puts, in any order, whatever is found at a slot is the last block that was
  put at that slot, or was there before.\<close>

theorem ring_never_stale:
  assumes "ring_ok b" "\<forall>d \<in> set ds. slot_fits b (sd_slot d) d"
    and "put_all b ds = Inr b'" "get b' slot = Inr (Some e)"
  shows "if slot \<in> sd_slot ` set ds then e = last (filter (\<lambda>d. sd_slot d = slot) ds) else get b slot = Inr (Some e)"
proof -
  let ?kvs = "map (\<lambda>d. (sd_slot d, d)) ds"
  have "filter (\<lambda>kv. fst kv = slot) ?kvs = map (\<lambda>d. (sd_slot d, d)) (filter (\<lambda>d. sd_slot d = slot) ds)"
    by (simp add: filter_map comp_def)
  moreover have "slot \<in> sd_slot ` set ds \<Longrightarrow> filter (\<lambda>d. sd_slot d = slot) ds \<noteq> []"
    by (auto simp: filter_empty_conv)
  moreover have "if slot \<in> fst ` set ?kvs then e = snd (last (filter (\<lambda>kv. fst kv = slot) ?kvs))
      else get b slot = Inr (Some e)"
    by (rule ring.never_stale [OF assms(1) _ assms(3) [unfolded put_all_insert_all] assms(4)]) (use assms(2) in auto)
  ultimately show ?thesis by (simp add: image_image last_map split: if_splits)
qed

theorem ring_never_stale_witness:
  "\<exists>b b'. put (new_ring_buffer 4) (example_block 6) = Inr b \<and> put_all b [example_block 7] = Inr b' \<and>
     get b' 7 = Inr (Some (example_block 7))"
proof -
  have ok: "ring_ok (new_ring_buffer 4)" by (rule ring_ok_new) (simp_all add: usize_max_def)
  have fit: "slot_fits c (sd_slot (example_block 7)) (example_block 7)"
    "slot_fits c (sd_slot (example_block 6)) (example_block 6)" if "rb_capacity c = 4" for c
    by (simp_all add: slot_fits_def example_block_def usize_max_def that)
  have cap: "rb_capacity (new_ring_buffer 4) = 4" by (simp add: new_ring_buffer_def)
  obtain b where b: "put (new_ring_buffer 4) (example_block 6) = Inr b" using put_ok [OF ok fit(2) [OF cap]] by blast
  note okb = put_keeps_ok [OF ok fit(2) [OF cap] b] and w = put_window [OF ok fit(2) [OF cap] b]
  have capb: "rb_capacity b = 4" using w(3) cap by simp
  obtain b' where b': "put b (example_block 7) = Inr b'" using put_ok [OF okb fit(1) [OF capb]] by blast
  have "rb_head b \<le> 7" using w(1) by (simp add: word_le_nat_alt example_block_def new_ring_buffer_def)
  then have "get b' 7 = Inr (Some (example_block 7))"
    using ring_map_put [OF okb fit(1) [OF capb] b', of 7] put_keeps_ok [OF okb fit(1) [OF capb] b']
    by (simp add: get_ring_map example_block_def)
  moreover have "put_all b [example_block 7] = Inr b'" using b' by (simp add: put_all_def)
  moreover have "example_block 7 = last (filter (\<lambda>d. sd_slot d = 7) [example_block 7])"
    using ring_never_stale [OF okb, of "[example_block 7]" b' 7 "example_block 7"] fit(1) [OF capb] calculation
    by (simp add: example_block_def)
  ultimately show ?thesis using b by blast
qed

text \<open>The top slot of the range empties the buffer: its tail wraps to zero, so the newest slot is unknown
  and no slot is found, the one just put included.\<close>

theorem top_slot_hides_all:
  assumes "0 < rb_capacity b" "rb_capacity b \<le> usize_max" "length (rb_slots b) = rb_capacity b" "sd_slot d = - 1"
  shows "\<exists>b'. put b d = Inr b' \<and> ring_latest_slot b' = None \<and> (\<forall>s. get b' s = Inr None)"
proof -
  have "unat (word_of_nat (rb_capacity b) :: u64) = rb_capacity b"
    using assms(2) by (simp add: usize_max_def unat_of_nat)
  then have "slot_rem (- 1) (rb_capacity b) = Inr (unat (- 1 :: u64) mod rb_capacity b)"
    using assms(1) by (auto simp: slot_rem_def unat_mod_distrib word_unat_eq_iff)
  then show ?thesis
    using assms by (auto simp: put_def Let_def ring_latest_slot_def get_def)
qed

theorem top_slot_hides_all_witness:
  "\<exists>b. put (new_ring_buffer 500) (example_block (- 1)) = Inr b \<and> get b (- 1) = Inr None"
  using top_slot_hides_all [of "new_ring_buffer 500" "example_block (- 1)"]
  by (auto simp: new_ring_buffer_def example_block_def usize_max_def)

end
