(* ===== verification/FlatFileStore.thy ===== *)
theory FlatFileStore
  imports SlotStore
begin

text \<open>
  \<^verbatim>\<open>crates/dc-tvu/src/flat_file_store.rs\<close>: one data and one meta file per slot, and an index of
  the data files by slot.

  The file system is a map from paths to contents. A path is the directory and the file name in
  it, as in \<open>data_dir.join(name)\<close>. What the operating system decides is an argument: whether a
  write succeeds (and what a failed one leaves in the file), and the listing that \<open>read_dir\<close>
  gives. A \<open>BTreeMap\<close> is the list of its bindings in the order of its keys.
\<close>

section \<open>File names\<close>

text \<open>\<open>Path::file_stem\<close>, \<open>extension\<close>, \<open>with_extension\<close> on a file name: split at the last dot, unless it leads.\<close>

definition split_name :: "string \<Rightarrow> string \<times> string option" where
  "split_name file =
     (let after = rev (takeWhile (\<lambda>c. c \<noteq> CHR ''.'') (rev file));
          before = rev (tl (dropWhile (\<lambda>c. c \<noteq> CHR ''.'') (rev file)))
      in if file = ''..'' \<or> CHR ''.'' \<notin> set file \<or> before = [] then (file, None) else (before, Some after))"

definition file_stem :: "string \<Rightarrow> string" where "file_stem file = fst (split_name file)"
definition extension :: "string \<Rightarrow> string option" where "extension file = snd (split_name file)"
definition with_extension :: "string \<Rightarrow> string \<Rightarrow> string" where
  "with_extension file ext = file_stem file @ ''.'' @ ext"

definition strip_prefix :: "string \<Rightarrow> string \<Rightarrow> string option" where
  "strip_prefix pre s = (if take (length pre) s = pre then Some (drop (length pre) s) else None)"

text \<open>\<open>str::parse::<u64>\<close>: an optional plus sign, at least one digit, no overflow.\<close>


fun parse_digits :: "nat \<Rightarrow> string \<Rightarrow> nat option" where
  "parse_digits acc [] = Some acc"
| "parse_digits acc (c # cs) =
     (case digit_of c of None \<Rightarrow> None
      | Some d \<Rightarrow> if acc * 10 + d < 2 ^ 64 then parse_digits (acc * 10 + d) cs else None)"

definition parse_u64 :: "string \<Rightarrow> u64 option" where
  "parse_u64 s =
     (let digits = (if s \<noteq> [] \<and> hd s = CHR ''+'' then tl s else s)
      in if digits = [] then None
         else (case parse_digits 0 digits of None \<Rightarrow> None | Some n \<Rightarrow> Some (word_of_nat n)))"

text \<open>\<open>{:010}\<close>.\<close>

definition slot_name :: "u64 \<Rightarrow> string" where
  "slot_name slot =
     (let ds = decimal (unat slot) in ''slot_'' @ replicate (10 - length ds) (CHR ''0'') @ ds)"

section \<open>The code\<close>

datatype io_error = IoError nat

type_synonym path_buf = "string \<times> string"
type_synonym file_system = "path_buf \<Rightarrow> bytes option"
type_synonym 'v btree_map = "(u64 \<times> 'v) list"

text \<open>The outcome of a write: success, or an error and what it leaves of the file.\<close>

type_synonym write_outcome = "(io_error \<times> bytes option) option"

definition fs_write :: "file_system \<Rightarrow> path_buf \<Rightarrow> bytes \<Rightarrow> write_outcome \<Rightarrow> file_system \<times> (io_error + unit)" where
  "fs_write fs p content outcome =
     (case outcome of None \<Rightarrow> (fs(p \<mapsto> content), Inr ())
      | Some (e, left) \<Rightarrow> (fs(p := left), Inl e))"

fun btree_insert :: "u64 \<Rightarrow> 'v \<Rightarrow> 'v btree_map \<Rightarrow> 'v btree_map" where
  "btree_insert k v [] = [(k, v)]"
| "btree_insert k v ((j, w) # m) =
     (if k < j then (k, v) # (j, w) # m else if k = j then (k, v) # m else (j, w) # btree_insert k v m)"

record slot_file_info =
  sf_data_path :: path_buf
  sf_data_size :: u64
  sf_meta_path :: path_buf

record flat_file_store =
  ff_data_dir :: string
  ff_index :: "slot_file_info btree_map"

text \<open>A file name, or of one whose stem or extension is not UTF-8 the extension where it is UTF-8: all the code looks at there. An
  entry of the directory: its name, and its length, if it can be read.\<close>

datatype os_name = Utf8 string | NotUtf8 "string option"

fun os_extension :: "os_name \<Rightarrow> string option" where
  "os_extension (Utf8 n) = extension n"
| "os_extension (NotUtf8 ext) = ext"

record dir_entry =
  de_name :: os_name
  de_len :: "io_error + u64"

fun scan_dir :: "string \<Rightarrow> (io_error + dir_entry) list \<Rightarrow> slot_file_info btree_map \<Rightarrow>
    io_error + slot_file_info btree_map" where
  "scan_dir dir [] m = Inr m"
| "scan_dir dir (Inl e # es) m = Inl e"
| "scan_dir dir (Inr entry # es) m =
     (case de_name entry of NotUtf8 ext \<Rightarrow> scan_dir dir es m | Utf8 file \<Rightarrow>
      if extension file \<noteq> Some ''dat'' then scan_dir dir es m
      else (case strip_prefix ''slot_'' (file_stem file) of None \<Rightarrow> scan_dir dir es m | Some n \<Rightarrow>
           (case parse_u64 n of None \<Rightarrow> scan_dir dir es m | Some slot \<Rightarrow>
            run_bind (de_len entry) (\<lambda>len.
            scan_dir dir es (btree_insert slot
              \<lparr> sf_data_path = (dir, file), sf_data_size = len,
                sf_meta_path = (dir, with_extension file ''meta'') \<rparr> m)))))"

definition open_store :: "io_error + unit \<Rightarrow> io_error + (io_error + dir_entry) list \<Rightarrow> string \<Rightarrow>
    io_error + flat_file_store" where
  "open_store created listing dir =
     run_bind created (\<lambda>_. run_bind listing (\<lambda>es. run_bind (scan_dir dir es []) (\<lambda>m.
     Inr \<lparr> ff_data_dir = dir, ff_index = m \<rparr>)))"

definition has_slot :: "flat_file_store \<Rightarrow> u64 \<Rightarrow> bool" where
  "has_slot st slot = (map_of (ff_index st) slot \<noteq> None)"

definition store_latest_slot :: "flat_file_store \<Rightarrow> u64 option" where
  "store_latest_slot st = (if ff_index st = [] then None else Some (fst (last (ff_index st))))"

definition load_slot :: "file_system \<Rightarrow> flat_file_store \<Rightarrow> u64 \<Rightarrow> bytes option" where
  "load_slot fs st slot =
     (case map_of (ff_index st) slot of None \<Rightarrow> None | Some info \<Rightarrow> fs (sf_data_path info))"

definition meta_text :: "u64 \<Rightarrow> nat \<Rightarrow> bytes" where
  "meta_text slot n = map (\<lambda>c. word_of_nat (of_char c))
     (''{ '' @ [CHR 0x22] @ ''slot'' @ [CHR 0x22] @ '': '' @ decimal (unat slot) @ '', '' @
      [CHR 0x22] @ ''size'' @ [CHR 0x22] @ '': '' @ decimal n @ '' }'')"

definition save_slot :: "write_outcome \<Rightarrow> write_outcome \<Rightarrow> file_system \<Rightarrow> flat_file_store \<Rightarrow> u64 \<Rightarrow> bytes \<Rightarrow>
    file_system \<times> flat_file_store \<times> (io_error + unit)" where
  "save_slot w1 w2 fs st slot entries =
     (let name = slot_name slot;
          data_path = (ff_data_dir st, with_extension name ''dat'');
          meta_path = (ff_data_dir st, with_extension name ''meta'')
      in case fs_write fs data_path entries w1 of
           (fs1, Inl e) \<Rightarrow> (fs1, st, Inl e)
         | (fs1, Inr _) \<Rightarrow>
           (case fs_write fs1 meta_path (meta_text slot (length entries)) w2 of
              (fs2, Inl e) \<Rightarrow> (fs2, st, Inl e)
            | (fs2, Inr _) \<Rightarrow>
                (fs2, st\<lparr>ff_index := btree_insert slot
                   \<lparr> sf_data_path = data_path, sf_data_size = word_of_nat (length entries),
                     sf_meta_path = meta_path \<rparr> (ff_index st)\<rparr>, Inr ())))"

section \<open>Names and slots\<close>

lemma parse_digits_append:
  "parse_digits acc (xs @ ys) = (case parse_digits acc xs of None \<Rightarrow> None | Some v \<Rightarrow> parse_digits v ys)"
  by (induction xs arbitrary: acc) (auto split: option.splits)

lemma parse_zeros: "parse_digits 0 (replicate k (CHR ''0'')) = Some 0"
  by (induction k) (simp_all add: digit_of_def)

lemma parse_decimal: "n < 2 ^ 64 \<Longrightarrow> parse_digits 0 (decimal n) = Some n"
proof (induction n rule: decimal.induct)
  case (1 n)
  show ?case
  proof (cases "n < 10")
    case True
    then show ?thesis by (simp add: decimal.simps [of n] digit_of_char)
  next
    case False
    have "parse_digits 0 (decimal (n div 10)) = Some (n div 10)" using 1(1) [OF False] 1(2) by simp
    moreover have "n div 10 * 10 + n mod 10 = n" by simp
    ultimately show ?thesis using 1(2) False
      by (simp add: decimal.simps [of n] parse_digits_append digit_of_char)
  qed
qed

lemma digit_char_plain: "d < 10 \<Longrightarrow> digit_char d \<noteq> CHR ''.'' \<and> digit_char d \<noteq> CHR ''+''"
  using digit_of_char [of d] by (auto simp: digit_of_def)

lemma digits_plain: "set cs \<subseteq> digit_char ` {..<10} \<Longrightarrow> CHR ''.'' \<notin> set cs \<and> CHR ''+'' \<notin> set cs"
  using digit_char_plain by fastforce

lemma slot_digits:
  defines "digits slot \<equiv> replicate (10 - length (decimal (unat slot))) (CHR ''0'') @ decimal (unat slot)"
  shows "slot_name slot = ''slot_'' @ digits slot" "digits slot \<noteq> []"
    "set (digits slot) \<subseteq> digit_char ` {..<10}" "parse_digits 0 (digits slot) = Some (unat slot)"
proof -
  show "slot_name slot = ''slot_'' @ digits slot" by (simp add: slot_name_def digits_def Let_def)
  show "digits slot \<noteq> []" by (simp add: digits_def)
  have "digit_char 0 = CHR ''0''" by (simp add: digit_char_def char_of_eq_iff)
  then have "CHR ''0'' \<in> digit_char ` {..<10}" by (intro image_eqI [of _ _ 0]) simp_all
  then show "set (digits slot) \<subseteq> digit_char ` {..<10}"
    using set_decimal [of "unat slot"] by (auto simp: digits_def)
  have "unat slot < 2 ^ 64" using unsigned_less [of slot, where 'a = nat] by simp
  then show "parse_digits 0 (digits slot) = Some (unat slot)"
    by (simp add: digits_def parse_digits_append parse_zeros parse_decimal)
qed

lemma parse_slot_name: "strip_prefix ''slot_'' (slot_name slot) = Some n \<Longrightarrow> parse_u64 n = Some slot"
proof -
  define ds where "ds = replicate (10 - length (decimal (unat slot))) (CHR ''0'') @ decimal (unat slot)"
  note d = slot_digits [of slot, folded ds_def]
  assume "strip_prefix ''slot_'' (slot_name slot) = Some n"
  then have n: "n = ds" by (simp add: strip_prefix_def d(1))
  have "hd ds \<in> set ds" using d(2) by simp
  then have "hd ds \<noteq> CHR ''+''" using digits_plain [OF d(3)] by (metis (no_types))
  then show "parse_u64 n = Some slot" unfolding n parse_u64_def Let_def using d(2) by (simp add: d(4))
qed

lemma strip_slot_name: "\<exists>n. strip_prefix ''slot_'' (slot_name slot) = Some n"
  by (simp add: strip_prefix_def slot_digits(1))

lemma slot_name_inject: "slot_name a = slot_name b \<Longrightarrow> a = b"
  using parse_slot_name [of a] parse_slot_name [of b] strip_slot_name [of a] by auto

lemma slot_name_plain: "CHR ''.'' \<notin> set (slot_name slot)" "slot_name slot \<noteq> []"
  using digits_plain [OF slot_digits(3) [of slot]] by (simp_all add: slot_digits(1))

lemma split_name_dot:
  assumes "CHR ''.'' \<notin> set ext" "CHR ''.'' \<notin> set name" "name \<noteq> []"
  shows "split_name (name @ ''.'' @ ext) = (name, Some ext)"
proof -
  have "takeWhile (\<lambda>c. c \<noteq> CHR ''.'') (rev ext @ CHR ''.'' # rev name) = rev ext"
    "dropWhile (\<lambda>c. c \<noteq> CHR ''.'') (rev ext @ CHR ''.'' # rev name) = CHR ''.'' # rev name"
    using assms(1) by (simp_all add: takeWhile_append dropWhile_append takeWhile_eq_all_conv)
  moreover have "name @ ''.'' @ ext \<noteq> ''..''" using assms by (cases name) auto
  ultimately show ?thesis using assms by (simp add: split_name_def Let_def)
qed

lemma split_name_no_dot: "CHR ''.'' \<notin> set name \<Longrightarrow> split_name name = (name, None)"
  by (simp add: split_name_def Let_def)

definition data_file :: "u64 \<Rightarrow> string" where "data_file slot = with_extension (slot_name slot) ''dat''"
definition meta_file :: "u64 \<Rightarrow> string" where "meta_file slot = with_extension (slot_name slot) ''meta''"

lemma split_files:
  "split_name (data_file slot) = (slot_name slot, Some ''dat'')"
  "split_name (meta_file slot) = (slot_name slot, Some ''meta'')"
  using split_name_dot [of _ "slot_name slot"] slot_name_plain [of slot]
  by (simp_all add: data_file_def meta_file_def with_extension_def file_stem_def split_name_no_dot)

lemma files_differ:
  "data_file a = data_file b \<longleftrightarrow> a = b" "meta_file a \<noteq> data_file b" "data_file a \<noteq> meta_file b"
proof -
  show "data_file a = data_file b \<longleftrightarrow> a = b"
    using split_files(1) [of a] split_files(1) [of b] slot_name_inject by (metis fst_conv)
  show "meta_file a \<noteq> data_file b" "data_file a \<noteq> meta_file b"
    using split_files [of a] split_files [of b] by auto
qed

section \<open>The index\<close>

lemma btree_insert_map: "map_of (btree_insert k v m) = (map_of m)(k \<mapsto> v)" if "sorted_wrt (<) (map fst m)"
  using that by (induction k v m rule: btree_insert.induct) (auto simp: fun_eq_iff)

lemma btree_insert_keys: "set (map fst (btree_insert k v m)) = insert k (set (map fst m))"
  by (induction k v m rule: btree_insert.induct) auto

lemma btree_insert_sorted: "sorted_wrt (<) (map fst m) \<Longrightarrow> sorted_wrt (<) (map fst (btree_insert k v m))"
proof (induction k v m rule: btree_insert.induct)
  case (2 k v j w m)
  have "set (map fst (btree_insert k v m)) = insert k (set (map fst m))" by (rule btree_insert_keys)
  then show ?case using 2 by (auto intro: less_trans)
qed simp

lemma last_sorted_max:
  "sorted_wrt (<) xs \<Longrightarrow> xs \<noteq> [] \<Longrightarrow> x \<in> set xs \<Longrightarrow> x \<le> last xs" for xs :: "u64 list"
  by (induction xs rule: rev_induct) (auto simp: sorted_wrt_append)

section \<open>Saving and loading\<close>

text \<open>The index is in key order and names, for every slot, the file that \<open>save_slot\<close> writes for it.\<close>

definition store_ok :: "flat_file_store \<Rightarrow> bool" where
  "store_ok st \<longleftrightarrow> sorted_wrt (<) (map fst (ff_index st)) \<and>
     (\<forall>k info. map_of (ff_index st) k = Some info \<longrightarrow> sf_data_path info = (ff_data_dir st, data_file k))"

definition info_of_slot :: "string \<Rightarrow> u64 \<Rightarrow> u64 \<Rightarrow> slot_file_info" where
  "info_of_slot dir slot n =
     \<lparr> sf_data_path = (dir, data_file slot), sf_data_size = n, sf_meta_path = (dir, meta_file slot) \<rparr>"

lemma save_slot_ok:
  "save_slot None None fs st slot entries =
     (fs((ff_data_dir st, data_file slot) \<mapsto> entries,
         (ff_data_dir st, meta_file slot) \<mapsto> meta_text slot (length entries)),
      st\<lparr>ff_index := btree_insert slot (info_of_slot (ff_data_dir st) slot (word_of_nat (length entries))) (ff_index st)\<rparr>,
      Inr ())"
  by (simp add: save_slot_def fs_write_def Let_def data_file_def meta_file_def info_of_slot_def)

lemma save_slot_error:
  "save_slot w1 w2 fs st slot entries = (fs', st', Inl e) \<Longrightarrow> st' = st"
  by (auto simp: save_slot_def Let_def fs_write_def split: option.splits prod.splits)

lemma save_slot_done:
  "save_slot w1 w2 fs st slot entries = (fs', st', Inr ()) \<Longrightarrow> w1 = None \<and> w2 = None"
  by (auto simp: save_slot_def Let_def fs_write_def split: option.splits prod.splits)

lemma save_slot_store_ok:
  "store_ok st \<Longrightarrow> store_ok (fst (snd (save_slot w1 w2 fs st slot entries)))"
  by (cases "w1"; cases "w2")
    (auto simp: save_slot_ok save_slot_def Let_def fs_write_def store_ok_def btree_insert_map btree_insert_sorted
      data_file_def info_of_slot_def)

lemma load_after_save:
  assumes "store_ok st" "save_slot None None fs st slot entries = (fs', st', Inr ())"
  shows "load_slot fs' st' k = (if k = slot then Some entries else load_slot fs st k)"
proof -
  have paths: "sf_data_path info = (ff_data_dir st, data_file j)" if "map_of (ff_index st) j = Some info" for j info
    using assms(1) that by (simp add: store_ok_def)
  have "sorted_wrt (<) (map fst (ff_index st))" using assms(1) by (simp add: store_ok_def)
  then show ?thesis
    using assms(2) by (auto simp: save_slot_ok load_slot_def btree_insert_map info_of_slot_def files_differ paths
        split: option.splits)
qed

definition save_slot_io :: "file_system \<times> flat_file_store \<Rightarrow> u64 \<Rightarrow> bytes \<Rightarrow>
    io_error + file_system \<times> flat_file_store" where
  "save_slot_io s slot entries =
     (case save_slot None None (fst s) (snd s) slot entries of
        (fs, st, Inr _) \<Rightarrow> Inr (fs, st) | (fs, st, Inl e) \<Rightarrow> Inl e)"

interpretation files: durable_store "\<lambda>(fs, st) slot. Inr (load_slot fs st slot)" save_slot_io
  "\<lambda>(fs, st). store_ok st" "\<lambda>_ _ _. True"
proof (unfold_locales, goal_cases)
  case (1 s k)
  then show ?case by (cases s) simp
next
  case (2 s k v)
  then show ?case using save_slot_store_ok [of "snd s" None None "fst s" k v]
    by (cases s) (simp add: save_slot_io_def save_slot_ok)
next
  case 3
  show ?case by simp
next
  case (4 s k v s' r)
  then show ?case using load_after_save [of "snd s" "fst s" k v]
    by (cases s; cases s') (simp add: save_slot_io_def save_slot_ok)
next
  case (5 s k v s' j r)
  then show ?case using load_after_save [of "snd s" "fst s" k v]
    by (cases s; cases s') (simp add: save_slot_io_def save_slot_ok)
next
  case (6 s k v s')
  then show ?case using load_after_save [of "snd s" "fst s" k v]
    by (cases s; cases s') (simp add: save_slot_io_def save_slot_ok)
next
  case (7 s k v s' j)
  then show ?case using load_after_save [of "snd s" "fst s" k v]
    by (cases s; cases s') (simp add: save_slot_io_def save_slot_ok)
qed

lemma latest_is_max:
  assumes "store_ok st"
  shows "store_latest_slot st = Some k \<longleftrightarrow> has_slot st k \<and> (\<forall>j. has_slot st j \<longrightarrow> j \<le> k)"
proof -
  let ?ks = "map fst (ff_index st)"
  have sorted: "sorted_wrt (<) ?ks" using assms by (simp add: store_ok_def)
  have has: "has_slot st j \<longleftrightarrow> j \<in> set ?ks" for j by (force simp: has_slot_def map_of_eq_None_iff)
  show ?thesis
  proof (cases "ff_index st = []")
    case False
    then have "last ?ks \<in> set ?ks" "fst (last (ff_index st)) = last ?ks" by (simp_all add: last_map)
    then show ?thesis using False last_sorted_max [OF sorted]
      unfolding has store_latest_slot_def by (auto intro: antisym)
  qed (simp add: store_latest_slot_def has_slot_def)
qed

section \<open>Reading the directory back\<close>

text \<open>
  A listing of the directory: each of its files once, in any order, with its length. What a fresh
  store reads from it is what the store that wrote the files has, whatever the order.
\<close>

definition lists_dir :: "file_system \<Rightarrow> string \<Rightarrow> (io_error + dir_entry) list \<Rightarrow> bool" where
  "lists_dir fs dir es \<longleftrightarrow>
     (\<exists>names. distinct names \<and> set names = {n. fs (dir, n) \<noteq> None} \<and>
        es = map (\<lambda>n. Inr \<lparr> de_name = Utf8 n, de_len = Inr (word_of_nat (length (the (fs (dir, n))))) \<rparr>) names)"

text \<open>The directory holds the data and meta files of the slots of the index and nothing else.\<close>

definition dir_of :: "file_system \<Rightarrow> flat_file_store \<Rightarrow> bool" where
  "dir_of fs st \<longleftrightarrow> store_ok st \<and>
     (\<forall>n. fs (ff_data_dir st, n) \<noteq> None \<longleftrightarrow> (\<exists>k. has_slot st k \<and> (n = data_file k \<or> n = meta_file k)))"

lemma dir_of_save:
  assumes "dir_of fs st" "save_slot None None fs st slot entries = (fs', st', Inr ())"
  shows "dir_of fs' st'"
proof -
  have ok: "store_ok st" and sorted: "sorted_wrt (<) (map fst (ff_index st))"
    using assms(1) by (simp_all add: dir_of_def store_ok_def)
  have "store_ok st'" using save_slot_store_ok [OF ok, of None None fs slot entries] assms(2) by simp
  moreover have "has_slot st' k \<longleftrightarrow> k = slot \<or> has_slot st k" for k
    using assms(2) sorted by (auto simp: save_slot_ok has_slot_def btree_insert_map)
  moreover have "fs' (ff_data_dir st, n) \<noteq> None \<longleftrightarrow> n = data_file slot \<or> n = meta_file slot \<or> fs (ff_data_dir st, n) \<noteq> None"
    and "ff_data_dir st' = ff_data_dir st" for n
    using assms(2) by (auto simp: save_slot_ok)
  ultimately show ?thesis using assms(1) by (auto simp: dir_of_def)
qed

lemma scan_step:
  "n = data_file k \<Longrightarrow>
   scan_dir dir (Inr \<lparr> de_name = Utf8 n, de_len = Inr len \<rparr> # es) m = scan_dir dir es (btree_insert k (info_of_slot dir k len) m)"
  "n = meta_file k \<Longrightarrow> scan_dir dir (Inr \<lparr> de_name = Utf8 n, de_len = Inr len \<rparr> # es) m = scan_dir dir es m"
proof -
  obtain ds where ds: "strip_prefix ''slot_'' (slot_name k) = Some ds" using strip_slot_name by blast
  show "n = data_file k \<Longrightarrow>
    scan_dir dir (Inr \<lparr> de_name = Utf8 n, de_len = Inr len \<rparr> # es) m = scan_dir dir es (btree_insert k (info_of_slot dir k len) m)"
    using parse_slot_name [OF ds]
    by (simp add: extension_def file_stem_def split_files ds info_of_slot_def with_extension_def meta_file_def
        split_name_no_dot slot_name_plain)
  show "n = meta_file k \<Longrightarrow> scan_dir dir (Inr \<lparr> de_name = Utf8 n, de_len = Inr len \<rparr> # es) m = scan_dir dir es m"
    by (simp add: extension_def split_files)
qed

lemma scan_names:
  assumes "\<forall>n \<in> set names. \<exists>k. n = data_file k \<or> n = meta_file k" "sorted_wrt (<) (map fst m)"
  shows "\<exists>m'. scan_dir dir (map (\<lambda>n. Inr \<lparr> de_name = Utf8 n, de_len = Inr (len n) \<rparr>) names) m = Inr m' \<and>
    sorted_wrt (<) (map fst m') \<and>
    (\<forall>k. map_of m' k = (if data_file k \<in> set names then Some (info_of_slot dir k (len (data_file k))) else map_of m k))"
  using assms
proof (induction names arbitrary: m)
  case (Cons n names)
  obtain k where k: "n = data_file k \<or> n = meta_file k" using Cons.prems(1) by auto
  then show ?case
  proof
    assume n: "n = data_file k"
    let ?m = "btree_insert k (info_of_slot dir k (len n)) m"
    have "sorted_wrt (<) (map fst ?m)" by (rule btree_insert_sorted [OF Cons.prems(2)])
    then obtain m' where m': "scan_dir dir (map (\<lambda>n. Inr \<lparr> de_name = Utf8 n, de_len = Inr (len n) \<rparr>) names) ?m = Inr m'"
      "sorted_wrt (<) (map fst m')"
      "\<forall>k. map_of m' k = (if data_file k \<in> set names then Some (info_of_slot dir k (len (data_file k))) else map_of ?m k)"
      using Cons.IH [of ?m] Cons.prems(1) by auto
    then show ?thesis unfolding list.map scan_step(1) [OF n]
      using Cons.prems(2) by (auto simp: btree_insert_map n files_differ)
  next
    assume n: "n = meta_file k"
    then show ?thesis unfolding list.map scan_step(2) [OF n]
      using Cons.IH [OF _ Cons.prems(2)] Cons.prems(1) by (auto simp: files_differ)
  qed
qed simp

lemma reopened:
  assumes "dir_of fs st" "lists_dir fs (ff_data_dir st) es"
  shows "\<exists>st'. open_store (Inr ()) (Inr es) (ff_data_dir st) = Inr st' \<and> store_ok st' \<and>
    ff_data_dir st' = ff_data_dir st \<and>
    (\<forall>k. has_slot st' k = has_slot st k \<and> load_slot fs st' k = load_slot fs st k)"
proof -
  let ?dir = "ff_data_dir st" and ?len = "\<lambda>n. word_of_nat (length (the (fs (ff_data_dir st, n)))) :: u64"
  obtain names where names: "set names = {n. fs (?dir, n) \<noteq> None}"
    "es = map (\<lambda>n. Inr \<lparr> de_name = Utf8 n, de_len = Inr (?len n) \<rparr>) names"
    using assms(2) by (auto simp: lists_dir_def)
  have files: "n \<in> set names \<longleftrightarrow> (\<exists>k. has_slot st k \<and> (n = data_file k \<or> n = meta_file k))" for n
    using assms(1) by (simp add: names(1) dir_of_def)
  obtain m where m: "scan_dir ?dir es [] = Inr m" "sorted_wrt (<) (map fst m)"
    "\<forall>k. map_of m k = (if data_file k \<in> set names then Some (info_of_slot ?dir k (?len (data_file k))) else map_of [] k)"
    using scan_names [of names "[]" ?dir ?len] files names(2) by auto
  have in_names: "data_file k \<in> set names \<longleftrightarrow> has_slot st k" for k
    unfolding files using files_differ by auto
  let ?st = "\<lparr> ff_data_dir = ?dir, ff_index = m \<rparr>"
  have "has_slot ?st k = has_slot st k" for k using m(3) in_names by (simp add: has_slot_def)
  moreover have "load_slot fs ?st k = load_slot fs st k" for k
    using m(3) in_names [of k] assms(1)
    by (auto simp: load_slot_def info_of_slot_def has_slot_def dir_of_def store_ok_def split: option.splits)
  moreover have "store_ok ?st" using m(2,3) by (auto simp: store_ok_def info_of_slot_def split: if_splits)
  ultimately show ?thesis using m(1) by (auto simp: open_store_def)
qed

section \<open>Any listing\<close>

text \<open>The names that count, without the parsing functions: \<^verbatim>\<open>slot_\<close>, perhaps a plus sign, decimal digits with any number of
  leading zeros, \<^verbatim>\<open>.dat\<close>.\<close>

definition number_of :: "nat list \<Rightarrow> nat" where
  "number_of = foldl (\<lambda>a d. a * 10 + d) 0"

definition names_slot :: "string \<Rightarrow> u64 \<Rightarrow> bool" where
  "names_slot file k \<longleftrightarrow> (\<exists>plus ds. plus \<in> {'''', ''+''} \<and> ds \<noteq> [] \<and> list_all (\<lambda>d. d < 10) ds \<and>
     file = ''slot_'' @ plus @ map digit_char ds @ ''.dat'' \<and> number_of ds = unat k)"

definition listed :: "u64 \<Rightarrow> (io_error + dir_entry) list \<Rightarrow> string list" where
  "listed k es = [f \<leftarrow> List.map_filter (\<lambda>e. case e of Inl err \<Rightarrow> None
     | Inr de \<Rightarrow> (case de_name de of Utf8 f \<Rightarrow> Some f | NotUtf8 ext \<Rightarrow> None)) es. names_slot f k]"

lemma digit_of_iff: "digit_of c = Some d \<longleftrightarrow> d < 10 \<and> c = digit_char d"
  by (auto simp: digit_of_def digit_char_def char_of_eq_iff)

lemma parse_digits_iff:
  "acc < 2 ^ 64 \<Longrightarrow> parse_digits acc s = Some v \<longleftrightarrow>
    (\<exists>ds. list_all (\<lambda>d. d < 10) ds \<and> s = map digit_char ds \<and> foldl (\<lambda>a d. a * 10 + d) acc ds = v \<and> v < 2 ^ 64)"
proof (induction s arbitrary: acc)
  case Nil
  then show ?case by auto
next
  case (Cons c cs)
  have up: "a \<le> foldl (\<lambda>a d. a * 10 + d) a ds" for a :: nat and ds
    proof (induction ds arbitrary: a)
      case (Cons d ds)
      have "a \<le> a * 10 + d" by simp
      also have "\<dots> \<le> foldl (\<lambda>a d. a * 10 + d) (a * 10 + d) ds" by (rule Cons)
      finally show ?case by simp
    qed simp
  show ?case
  proof
    assume "parse_digits acc (c # cs) = Some v"
    then obtain d where d: "d < 10" "c = digit_char d" "acc * 10 + d < 2 ^ 64" "parse_digits (acc * 10 + d) cs = Some v"
      by (auto simp: digit_of_iff split: option.splits if_splits)
    then obtain ds where "list_all (\<lambda>d. d < 10) ds" "cs = map digit_char ds"
      "foldl (\<lambda>a d. a * 10 + d) (acc * 10 + d) ds = v" "v < 2 ^ 64"
      using Cons.IH [OF d(3)] by blast
    then show "\<exists>ds. list_all (\<lambda>d. d < 10) ds \<and> c # cs = map digit_char ds \<and> foldl (\<lambda>a d. a * 10 + d) acc ds = v \<and> v < 2 ^ 64"
      using d by (intro exI [of _ "d # ds"]) simp
  next
    assume "\<exists>ds. list_all (\<lambda>d. d < 10) ds \<and> c # cs = map digit_char ds \<and> foldl (\<lambda>a d. a * 10 + d) acc ds = v \<and> v < 2 ^ 64"
    then obtain d ds where ds: "d < 10" "c = digit_char d" "list_all (\<lambda>d. d < 10) ds" "cs = map digit_char ds"
      "foldl (\<lambda>a d. a * 10 + d) (acc * 10 + d) ds = v" "v < 2 ^ 64"
      by (auto simp: Cons_eq_map_conv)
    have small: "acc * 10 + d < 2 ^ 64" using up [of "acc * 10 + d" ds] ds(5,6) by linarith
    then have "parse_digits (acc * 10 + d) cs = Some v" using Cons.IH [OF small] ds by blast
    then show "parse_digits acc (c # cs) = Some v" using ds(1,2) small by (simp add: digit_of_char)
  qed
qed

lemma digit_chars_plain: "list_all (\<lambda>d. d < 10) ds \<Longrightarrow> CHR ''.'' \<notin> set (map digit_char ds) \<and> CHR ''+'' \<notin> set (map digit_char ds)"
  using digits_plain [of "map digit_char ds"] by (auto simp: list_all_iff)

lemma parse_u64_iff:
  "parse_u64 s = Some k \<longleftrightarrow> (\<exists>plus ds. plus \<in> {'''', ''+''} \<and> ds \<noteq> [] \<and> list_all (\<lambda>d. d < 10) ds \<and>
     s = plus @ map digit_char ds \<and> number_of ds = unat k)"
proof
  define cs where "cs = (if s \<noteq> [] \<and> hd s = CHR ''+'' then tl s else s)"
  define plus where "plus = (if s \<noteq> [] \<and> hd s = CHR ''+'' then ''+'' else '''')"
  have s: "s = plus @ cs" "plus \<in> {'''', ''+''}" by (cases s; simp add: cs_def plus_def)+
  assume "parse_u64 s = Some k"
  then obtain n where "cs \<noteq> []" "parse_digits 0 cs = Some n" "word_of_nat n = k"
    by (auto simp: parse_u64_def Let_def simp flip: cs_def split: if_splits option.splits)
  moreover from this obtain ds where "list_all (\<lambda>d. d < 10) ds" "cs = map digit_char ds" "number_of ds = n" "n < 2 ^ 64"
    unfolding number_of_def using parse_digits_iff [of 0 cs n] by auto
  ultimately show "\<exists>plus ds. plus \<in> {'''', ''+''} \<and> ds \<noteq> [] \<and> list_all (\<lambda>d. d < 10) ds \<and>
     s = plus @ map digit_char ds \<and> number_of ds = unat k"
    using s by (intro exI [of _ plus] exI [of _ ds]) (auto simp: unat_of_nat)
next
  assume "\<exists>plus ds. plus \<in> {'''', ''+''} \<and> ds \<noteq> [] \<and> list_all (\<lambda>d. d < 10) ds \<and>
     s = plus @ map digit_char ds \<and> number_of ds = unat k"
  then obtain plus ds where d: "plus \<in> {'''', ''+''}" "ds \<noteq> []" "list_all (\<lambda>d. d < 10) ds"
     "s = plus @ map digit_char ds" "number_of ds = unat k" by blast
  have "hd (map digit_char ds) \<noteq> CHR ''+''" using digit_chars_plain [OF d(3)] d(2) by (cases ds) auto
  then have digits: "(if s \<noteq> [] \<and> hd s = CHR ''+'' then tl s else s) = map digit_char ds" using d(1,2,4) by auto
  have "unat k < 2 ^ 64" using unsigned_less [of k, where 'a = nat] by simp
  then have "parse_digits 0 (map digit_char ds) = Some (unat k)"
    using parse_digits_iff [of 0 "map digit_char ds" "unat k"] d(3,5) unfolding number_of_def by auto
  then show "parse_u64 s = Some k" using d(2) by (simp add: parse_u64_def digits)
qed

lemma split_name_Some: "split_name file = (stem, Some ext) \<Longrightarrow> file = stem @ ''.'' @ ext"
proof -
  let ?P = "\<lambda>c. c \<noteq> CHR ''.''"
  let ?d = "dropWhile ?P (rev file)"
  assume s: "split_name file = (stem, Some ext)"
  then have dot: "CHR ''.'' \<in> set file" and parts: "stem = rev (tl ?d)" "ext = rev (takeWhile ?P (rev file))"
    by (auto simp: split_name_def Let_def split: if_splits)
  have "?d \<noteq> []" using dot by auto
  then have "?d = CHR ''.'' # tl ?d" using hd_dropWhile [of ?P "rev file"] by (cases ?d) auto
  then have "rev file = rev ext @ CHR ''.'' # rev stem" unfolding parts by (metis rev_rev_ident takeWhile_dropWhile_id)
  then show ?thesis by (simp add: rev_swap)
qed

lemma strip_prefix_Some: "strip_prefix pre s = Some r \<Longrightarrow> s = pre @ r"
  unfolding strip_prefix_def by (metis append_take_drop_id option.distinct(1) option.inject)

lemma names_slot_iff:
  "(extension file = Some ''dat'' \<and> (\<exists>n. strip_prefix ''slot_'' (file_stem file) = Some n \<and> parse_u64 n = Some k)) \<longleftrightarrow> names_slot file k"
proof
  assume "extension file = Some ''dat'' \<and> (\<exists>n. strip_prefix ''slot_'' (file_stem file) = Some n \<and> parse_u64 n = Some k)"
  then obtain n where n: "split_name file = (file_stem file, Some ''dat'')" "strip_prefix ''slot_'' (file_stem file) = Some n" "parse_u64 n = Some k"
    by (auto simp: extension_def file_stem_def prod_eq_iff)
  have "file_stem file = ''slot_'' @ n"
    by (rule strip_prefix_Some [OF n(2)])
  then have "file = ''slot_'' @ n @ ''.dat''" using split_name_Some [OF n(1)] by simp
  moreover obtain plus ds where "plus \<in> {'''', ''+''}" "ds \<noteq> []" "list_all (\<lambda>d. d < 10) ds" "n = plus @ map digit_char ds" "number_of ds = unat k"
    using n(3) unfolding parse_u64_iff by blast
  ultimately show "names_slot file k" unfolding names_slot_def by (intro exI [of _ plus] exI [of _ ds]) simp
next
  assume "names_slot file k"
  then obtain plus ds where d: "plus \<in> {'''', ''+''}" "ds \<noteq> []" "list_all (\<lambda>d. d < 10) ds"
     "file = ''slot_'' @ plus @ map digit_char ds @ ''.dat''" "number_of ds = unat k" unfolding names_slot_def by blast
  let ?stem = "''slot_'' @ plus @ map digit_char ds"
  have "CHR ''.'' \<notin> set ?stem" using digit_chars_plain [OF d(3)] d(1) by auto
  then have "split_name file = (?stem, Some ''dat'')" using split_name_dot [of "''dat''" ?stem] d(4) by simp
  moreover have "parse_u64 (plus @ map digit_char ds) = Some k" unfolding parse_u64_iff using d by blast
  ultimately show "extension file = Some ''dat'' \<and> (\<exists>n. strip_prefix ''slot_'' (file_stem file) = Some n \<and> parse_u64 n = Some k)"
    by (simp add: extension_def file_stem_def strip_prefix_def)
qed

lemma names_slot_unique: "names_slot file j \<Longrightarrow> names_slot file k \<Longrightarrow> j = k"
  unfolding names_slot_iff [symmetric] by auto

text \<open>One entry of the scan.\<close>

lemma scan_entry:
  assumes "scan_dir dir (e # es) m = Inr m'"
  shows "\<exists>de. e = Inr de \<and>
    ((\<exists>f k len. de_name de = Utf8 f \<and> names_slot f k \<and> scan_dir dir es (btree_insert k
        \<lparr> sf_data_path = (dir, f), sf_data_size = len, sf_meta_path = (dir, with_extension f ''meta'') \<rparr> m) = Inr m') \<or>
     (\<forall>f k. de_name de = Utf8 f \<longrightarrow> \<not> names_slot f k) \<and> scan_dir dir es m = Inr m')"
proof (cases e)
  case (Inr de)
  show ?thesis
  proof (cases "\<exists>f k. de_name de = Utf8 f \<and> names_slot f k")
    case True
    then obtain f k where f: "de_name de = Utf8 f" "names_slot f k" by blast
    then show ?thesis using assms Inr names_slot_iff [of f k] by (auto elim!: run_bind_InrE)
  next
    case False
    then have "scan_dir dir es m = Inr m'"
      using assms Inr by (auto simp flip: names_slot_iff split: os_name.splits if_splits option.splits)
    then show ?thesis using False Inr by blast
  qed
qed (use assms in simp)

lemma listed_Cons:
  "listed k (Inr de # es) = (case de_name de of Utf8 f \<Rightarrow> if names_slot f k then f # listed k es else listed k es
     | NotUtf8 ext \<Rightarrow> listed k es)"
  by (simp add: listed_def map_filter_simps split: os_name.split)

lemma scanned_index:
  assumes "scan_dir dir es m = Inr m'" "sorted_wrt (<) (map fst m)"
  shows "map_option sf_data_path (map_of m' k) =
    (if listed k es = [] then map_option sf_data_path (map_of m k) else Some (dir, last (listed k es)))"
  using assms
proof (induction es arbitrary: m)
  case Nil
  then show ?case by (simp add: listed_def map_filter_simps)
next
  case (Cons e es)
  from scan_entry [OF Cons.prems(1)] obtain de where de: "e = Inr de" and step:
    "(\<exists>f j len. de_name de = Utf8 f \<and> names_slot f j \<and> scan_dir dir es (btree_insert j
        \<lparr> sf_data_path = (dir, f), sf_data_size = len, sf_meta_path = (dir, with_extension f ''meta'') \<rparr> m) = Inr m') \<or>
     (\<forall>f j. de_name de = Utf8 f \<longrightarrow> \<not> names_slot f j) \<and> scan_dir dir es m = Inr m'" by blast
  from step show ?case
  proof (elim disjE exE conjE)
    fix f j len
    let ?m = "btree_insert j \<lparr> sf_data_path = (dir, f), sf_data_size = len, sf_meta_path = (dir, with_extension f ''meta'') \<rparr> m"
    assume f: "de_name de = Utf8 f" "names_slot f j" and scan: "scan_dir dir es ?m = Inr m'"
    have "names_slot f k \<longleftrightarrow> k = j" using f(2) names_slot_unique by blast
    then show ?thesis
      using Cons.IH [OF scan btree_insert_sorted [OF Cons.prems(2)]] by (simp add: de listed_Cons f btree_insert_map [OF Cons.prems(2)])
  next
    assume none: "\<forall>f j. de_name de = Utf8 f \<longrightarrow> \<not> names_slot f j" and scan: "scan_dir dir es m = Inr m'"
    then show ?thesis using Cons.IH [OF scan Cons.prems(2)] by (simp add: de listed_Cons split: os_name.split)
  qed
qed

section \<open>Properties\<close>

text \<open>Saves that succeed, one after the other.\<close>

definition save_all :: "file_system \<times> flat_file_store \<Rightarrow> (u64 \<times> bytes) list \<Rightarrow>
    io_error + file_system \<times> flat_file_store" where
  "save_all s kvs = run_fold (\<lambda>s (slot, entries). save_slot_io s slot entries) s kvs"

lemma save_all_insert_all: "save_all s kvs = files.insert_all s kvs"
  by (simp add: save_all_def files.insert_all_def)

lemma save_all_total: "\<exists>fs st. save_all s kvs = Inr (fs, st) \<and> ff_data_dir st = ff_data_dir (snd s)"
proof (induction kvs arbitrary: s)
  case (Cons kv kvs)
  obtain k v where kv: "kv = (k, v)" by (cases kv)
  obtain fs1 st1 where s1: "save_slot_io s k v = Inr (fs1, st1)" "ff_data_dir st1 = ff_data_dir (snd s)"
    by (cases s) (simp add: save_slot_io_def save_slot_ok)
  then show ?case using Cons [of "(fs1, st1)"] by (simp add: save_all_def kv)
qed (simp add: save_all_def split_paired_all)

lemma dir_of_save_all:
  "save_all s kvs = Inr (fs', st') \<Longrightarrow> dir_of (fst s) (snd s) \<Longrightarrow> dir_of fs' st'"
proof (induction kvs arbitrary: s)
  case (Cons kv kvs)
  obtain k v where kv: "kv = (k, v)" by (cases kv)
  obtain fs1 st1 where s1: "save_slot_io s k v = Inr (fs1, st1)" "save_slot None None (fst s) (snd s) k v = (fs1, st1, Inr ())"
    by (cases s) (simp add: save_slot_io_def save_slot_ok)
  then show ?case using Cons.IH [of "(fs1, st1)"] Cons.prems dir_of_save [OF _ s1(2)] by (simp add: save_all_def kv)
qed (simp add: save_all_def split_paired_all)

text \<open>The store is a durable map: after saves that succeed, every slot loads the last bytes saved for it,
  and a slot not saved loads what it did before.\<close>

theorem load_after_saves:
  assumes "store_ok st" "save_all (fs, st) kvs = Inr (fs', st')"
  shows "load_slot fs' st' slot = (case map_of (rev kvs) slot of Some v \<Rightarrow> Some v | None \<Rightarrow> load_slot fs st slot)"
  using files.is_map [of "(fs, st)" kvs "(fs', st')" slot] assms
  by (auto simp: save_all_insert_all split: option.splits)

definition empty_store :: "string \<Rightarrow> flat_file_store" where
  "empty_store dir = \<lparr> ff_data_dir = dir, ff_index = [] \<rparr>"

lemma empty_store_ok: "store_ok (empty_store dir)"
  by (simp add: store_ok_def empty_store_def)

theorem load_after_saves_witness:
  "\<exists>fs' st'. save_all (Map.empty, empty_store ''d'') [(7, [1]), (8, [2]), (7, [3])] = Inr (fs', st') \<and>
     load_slot fs' st' 7 = Some [3] \<and> load_slot fs' st' 8 = Some [2] \<and> load_slot fs' st' 9 = None"
proof -
  obtain fs' st' where s: "save_all (Map.empty, empty_store ''d'') [(7, [1]), (8, [2]), (7, [3])] = Inr (fs', st')"
    using save_all_total by blast
  note l = load_after_saves [OF empty_store_ok s]
  have "load_slot fs' st' 7 = Some [3]" "load_slot fs' st' 8 = Some [2]" "load_slot fs' st' 9 = None"
    using l [of 7] l [of 8] l [of 9] by (simp_all add: load_slot_def empty_store_def)
  with s show ?thesis by blast
qed

text \<open>C17. A restart finds the same blocks: when a directory that was empty has been written by successful saves,
  opening a new store on any listing of it succeeds, and every slot is there and loads as before.\<close>

theorem restart_loads_the_same:
  assumes "\<forall>n. fs (dir, n) = None" "save_all (fs, empty_store dir) kvs = Inr (fs', st')" "lists_dir fs' dir es"
  shows "\<exists>st''. open_store (Inr ()) (Inr es) dir = Inr st'' \<and>
    (\<forall>slot. has_slot st'' slot = has_slot st' slot \<and> load_slot fs' st'' slot = load_slot fs' st' slot)"
proof -
  have "dir_of fs (empty_store dir)"
    using assms(1) by (simp add: dir_of_def empty_store_ok) (simp add: empty_store_def has_slot_def)
  then have d: "dir_of fs' st'" using dir_of_save_all [OF assms(2)] by simp
  have "ff_data_dir st' = dir"
    using save_all_total [of "(fs, empty_store dir)" kvs] assms(2) by (simp add: empty_store_def)
  then show ?thesis using reopened [OF d] assms(3) by auto
qed

theorem restart_loads_the_same_witness:
  "\<exists>fs' st' es st''. save_all (Map.empty, empty_store ''d'') [(7, [1])] = Inr (fs', st') \<and> lists_dir fs' ''d'' es \<and>
     open_store (Inr ()) (Inr es) ''d'' = Inr st'' \<and> load_slot fs' st'' 7 = Some [1]"
proof -
  let ?fs = "[(''d'', data_file 7) \<mapsto> [1], (''d'', meta_file 7) \<mapsto> meta_text 7 1] :: file_system"
  obtain st' where s: "save_all (Map.empty, empty_store ''d'') [(7, [1])] = Inr (?fs, st')"
    by (simp add: save_all_def save_slot_io_def save_slot_ok) (simp add: empty_store_def)
  define es :: "(io_error + dir_entry) list" where
    "es = map (\<lambda>n. Inr \<lparr> de_name = Utf8 n, de_len = Inr (word_of_nat (length (the (?fs (''d'', n))))) \<rparr>)
      [meta_file 7, data_file 7]"
  have "distinct [meta_file 7, data_file 7]" "set [meta_file 7, data_file 7] = {n. ?fs (''d'', n) \<noteq> None}"
    using files_differ by auto
  then have l: "lists_dir ?fs ''d'' es" unfolding lists_dir_def es_def by blast
  obtain st'' where "open_store (Inr ()) (Inr es) ''d'' = Inr st''" "load_slot ?fs st'' 7 = load_slot ?fs st' 7"
    using restart_loads_the_same [OF _ s l] by auto
  moreover have "load_slot ?fs st' 7 = Some [1]"
    using files.is_map [of "(Map.empty, empty_store ''d'')" "[(7, [1])]" "(?fs, st')" 7] s empty_store_ok
    by (simp add: save_all_insert_all)
  ultimately show ?thesis using s l by metis
qed

text \<open>C31. What a store opened on any listing serves, whoever wrote the files: for every slot the content of the last file of the
  listing whose name is \<^verbatim>\<open>slot_\<close>, an optional plus sign, digits whose number is the slot (leading zeros or none, so that
  one slot can have several files), and \<^verbatim>\<open>.dat\<close>; nothing for a slot that no such file names. Names that are not UTF-8 and all
  other files are passed over. (A listing with an entry that cannot be read makes the opening fail.)\<close>

theorem opened_store_serves_listing:
  assumes "open_store created (Inr es) dir = Inr st"
  shows "load_slot fs st k = (if listed k es = [] then None else fs (dir, last (listed k es)))"
proof -
  obtain m where m: "scan_dir dir es [] = Inr m" "st = \<lparr> ff_data_dir = dir, ff_index = m \<rparr>"
    using assms by (auto simp: open_store_def elim!: run_bind_InrE)
  have "map_option sf_data_path (map_of m k) = (if listed k es = [] then None else Some (dir, last (listed k es)))"
    using scanned_index [OF m(1), of k] by simp
  then show ?thesis unfolding m(2) by (cases "map_of m k") (auto simp: load_slot_def split: if_splits)
qed

text \<open>Two files of slot 7, one name that is not UTF-8, and one name with a letter among the digits.\<close>

theorem opened_store_serves_listing_witness:
  "\<exists>st. open_store (Inr ()) (Inr
       [Inr \<lparr> de_name = Utf8 ''slot_0000000007.dat'', de_len = Inr 1 \<rparr>, Inr \<lparr> de_name = NotUtf8 (Some ''dat''), de_len = Inr 1 \<rparr>,
        Inr \<lparr> de_name = Utf8 ''slot_7.dat'', de_len = Inr 2 \<rparr>, Inr \<lparr> de_name = Utf8 ''slot_7a.dat'', de_len = Inr 3 \<rparr>]) ''d'' = Inr st \<and>
     load_slot [(''d'', ''slot_0000000007.dat'') \<mapsto> [1], (''d'', ''slot_7.dat'') \<mapsto> [2, 2]] st 7 = Some [2, 2]"
proof -
  let ?es = "[Inr \<lparr> de_name = Utf8 ''slot_0000000007.dat'', de_len = Inr 1 \<rparr>, Inr \<lparr> de_name = NotUtf8 (Some ''dat''), de_len = Inr 1 \<rparr>,
     Inr \<lparr> de_name = Utf8 ''slot_7.dat'', de_len = Inr 2 \<rparr>, Inr \<lparr> de_name = Utf8 ''slot_7a.dat'', de_len = Inr 3 \<rparr>] :: (io_error + dir_entry) list"
  let ?fs = "[(''d'', ''slot_0000000007.dat'') \<mapsto> [1], (''d'', ''slot_7.dat'') \<mapsto> [2, 2]] :: file_system"
  have names: "names_slot ''slot_0000000007.dat'' 7" "names_slot ''slot_7.dat'' 7" "\<not> names_slot ''slot_7a.dat'' 7"
    unfolding names_slot_iff [symmetric]
    by (simp_all add: extension_def file_stem_def split_name_def strip_prefix_def parse_u64_def digit_of_def)
  have nil: "listed 7 [] = []" by (simp add: listed_def map_filter_simps)
  have l: "listed 7 ?es = [''slot_0000000007.dat'', ''slot_7.dat'']"
    using names nil by (simp add: listed_Cons)
  obtain st where st: "open_store (Inr ()) (Inr ?es) ''d'' = Inr st"
    by (simp add: open_store_def extension_def file_stem_def split_name_def strip_prefix_def parse_u64_def digit_of_def)
  from opened_store_serves_listing [OF st, of ?fs 7] have "load_slot ?fs st 7 = Some [2, 2]" unfolding l by simp
  then show ?thesis using st by blast
qed

text \<open>The newest slot of a well-formed store is the largest one it has, and there is none only when it has none.\<close>

theorem newest_is_largest:
  assumes "store_ok st"
  shows "(store_latest_slot st = Some k) = (has_slot st k \<and> (\<forall>j. has_slot st j \<longrightarrow> j \<le> k))"
  using assms by (rule latest_is_max)

theorem newest_is_largest_witness:
  "store_latest_slot (fst (snd (save_slot None None Map.empty (empty_store ''d'') 7 [1]))) = Some 7"
proof -
  let ?st = "fst (snd (save_slot None None Map.empty (empty_store ''d'') 7 [1]))"
  have "store_ok ?st" by (rule save_slot_store_ok [OF empty_store_ok])
  moreover have "has_slot ?st j = (j = 7)" for j by (simp add: save_slot_ok has_slot_def empty_store_def)
  ultimately show ?thesis using newest_is_largest [of ?st 7] by simp
qed

end
