(* ===== verification/ShortVec.thy ===== *)
theory ShortVec
  imports Prelude
begin

text \<open>
  \<^verbatim>\<open>crates/dc-gossip/src/short_vec.rs\<close>: the compact length encoding, seven bits a byte with a
  continuation bit. \<open>usize\<close> is the 64-bit word here, since the code shifts it; a shift by 64 or
  more bits takes the amount modulo 64, as the release build does.
\<close>

function encode_len :: "u64 \<Rightarrow> bytes" where
  "encode_len val =
     (let byte = (ucast (val AND 0x7F) :: u8); rest = drop_bit 7 val
      in if 0 < rest then (byte OR 0x80) # encode_len rest else [byte])"
  by pat_completeness auto
termination
proof (relation "measure unat")
  fix val :: u64 and byte :: u8 and rest :: u64
  assume "rest = drop_bit 7 val" "0 < rest"
  then have "unat rest = unat val div 128" by (simp add: unat_div_distrib drop_bit_eq_div)
  moreover have "0 < unat rest" using \<open>0 < rest\<close> by (simp add: unat_gt_0 word_neq_0_conv)
  ultimately show "(rest, val) \<in> measure unat" by simp
qed simp

declare encode_len.simps [simp del]

fun decode_loop :: "bytes \<Rightarrow> nat \<Rightarrow> u64 \<Rightarrow> nat \<Rightarrow> u64 \<times> nat" where
  "decode_loop [] i len bytes_read = (len, bytes_read)"
| "decode_loop (byte # bs) i len bytes_read =
     (let len' = len OR push_bit (i * 7 mod 64) (ucast (byte AND 0x7F)); read' = bytes_read + 1
      in if byte AND 0x80 = 0 then (len', read') else decode_loop bs (i + 1) len' read')"

definition decode_len :: "bytes \<Rightarrow> u64 \<times> nat" where
  "decode_len bytes = decode_loop bytes 0 0 0"

section \<open>The low seven bits and the continuation bit\<close>

lemma pow_mask: "(0x80 :: u8) = 2 ^ 7" "(0x7F :: u8) = mask 7" "(0x7F :: u64) = mask 7"
  by (simp_all add: mask_eq_exp_minus_1)

lemma bit_0x80: "bit (0x80 :: u8) n \<longleftrightarrow> n = 7"
  unfolding pow_mask(1) by (auto simp only: bit_exp_iff possible_bit_word) simp

lemma bit_0x7F: "bit (0x7F :: u8) n \<longleftrightarrow> n < 7" "bit (0x7F :: u64) n \<longleftrightarrow> n < 7"
  unfolding pow_mask(2,3) by (auto simp only: bit_mask_iff possible_bit_word) simp_all

text \<open>The byte the encoder writes for the low seven bits of \<open>v\<close>, with or without the continuation bit.\<close>

lemma low7_byte:
  "(ucast (v AND 0x7F) :: u8) AND 0x7F = ucast (v AND 0x7F)"
  "((ucast (v AND 0x7F) :: u8) OR 0x80) AND 0x7F = ucast (v AND 0x7F)"
  "(ucast (v AND 0x7F) :: u8) AND 0x80 = 0"
  "((ucast (v AND 0x7F) :: u8) OR 0x80) AND 0x80 = 0x80" for v :: u64
  by (rule bit_word_eqI;
      auto simp: bit_and_iff bit_or_iff bit_ucast_iff bit_0x80 bit_0x7F simp del: bit_numeral_word_iff)+

lemma low7_back: "(ucast (ucast (v AND 0x7F) :: u8) :: u64) = v AND 0x7F" for v :: u64
  by (rule bit_word_eqI) (auto simp: bit_and_iff bit_ucast_iff bit_0x7F simp del: bit_numeral_word_iff)

lemma split7: "(v AND 0x7F) OR push_bit 7 (drop_bit 7 v) = v" for v :: u64
proof (rule bit_word_eqI)
  fix n assume "n < LENGTH(64)"
  then show "bit ((v AND 0x7F) OR push_bit 7 (drop_bit 7 v)) n = bit v n"
    by (cases "n < 7") (auto simp: bit_and_iff bit_or_iff bit_0x7F bit_push_bit_iff bit_drop_bit_eq not_less
        simp del: bit_numeral_word_iff)
qed

lemma push_split7: "push_bit s (v AND 0x7F) OR push_bit (s + 7) (drop_bit 7 v) = push_bit s v" for v :: u64
proof -
  have "push_bit (s + 7) (drop_bit 7 v) = push_bit s (push_bit 7 (drop_bit 7 v))"
    by (simp only: push_bit_push_bit)
  then show ?thesis by (simp only: flip: push_bit_or) (simp only: split7)
qed

lemma drop7_less: "unat v < 2 ^ (n + 7) \<Longrightarrow> unat (drop_bit 7 v) < 2 ^ n" for v :: u64
  by (simp add: unat_div_distrib drop_bit_eq_div power_add less_mult_imp_div_less)

section \<open>Decoding what was encoded\<close>

lemma encode_len_last: "drop_bit 7 v = 0 \<Longrightarrow> encode_len v = [ucast (v AND 0x7F)]"
  by (subst encode_len.simps) (simp add: Let_def)

lemma encode_len_more:
  "drop_bit 7 v \<noteq> 0 \<Longrightarrow> encode_len v = ((ucast (v AND 0x7F)) OR 0x80) # encode_len (drop_bit 7 v)"
  by (subst encode_len.simps) (simp add: Let_def word_neq_0_conv)

lemma decode_loop_encode:
  "i * 7 < 64 \<Longrightarrow> unat v < 2 ^ (64 - i * 7) \<Longrightarrow>
   decode_loop (encode_len v @ rest) i len r = (len OR push_bit (i * 7) v, r + length (encode_len v))"
proof (induction v arbitrary: i len r rule: encode_len.induct)
  case (1 v)
  show ?case
  proof (cases "drop_bit 7 v = 0")
    case True
    then have "v AND 0x7F = v" using split7 [of v] by simp
    then show ?thesis
      using 1(2) low7_byte(1,3) [of v] low7_back [of v] by (simp add: encode_len_last [OF True] Let_def)
  next
    case False
    have i: "(i + 1) * 7 < 64"
    proof (rule ccontr)
      assume "\<not> (i + 1) * 7 < 64"
      then have "64 - i * 7 \<le> 0 + 7" by simp
      then have "unat v < 2 ^ (0 + 7)" using 1(3) by (meson less_le_trans one_le_numeral power_increasing)
      then have "unat (drop_bit 7 v) < 2 ^ 0" by (rule drop7_less)
      then show False using False by (simp add: unat_eq_0)
    qed
    then have "64 - i * 7 = (64 - (i + 1) * 7) + 7" by simp
    then have small: "unat (drop_bit 7 v) < 2 ^ (64 - (i + 1) * 7)" using 1(3) by (metis drop7_less)
    have pos: "0 < drop_bit 7 v" using False by (simp only: word_neq_0_conv)
    note IH = 1(1) [OF refl refl pos i small]
    have "push_bit (i * 7) (v AND 0x7F) OR push_bit ((i + 1) * 7) (drop_bit 7 v) = push_bit (i * 7) v"
      using push_split7 [of "i * 7" v] by (simp only: distrib_right mult_1)
    then show ?thesis
      using 1(2) by (simp only: encode_len_more [OF False] append_Cons decode_loop.simps low7_byte Let_def
          low7_back IH if_False list.size or.assoc mod_less) simp
  qed
qed

lemma decode_encode_len: "decode_len (encode_len v @ rest) = (v, length (encode_len v))"
  using decode_loop_encode [of 0 v rest 0 0] unsigned_less [of v, where 'a = nat]
  by (simp add: decode_len_def)

lemma encode_len_nonempty: "encode_len v \<noteq> []"
  by (subst encode_len.simps) (simp add: Let_def)

text \<open>How many bytes a length takes: one for every started group of seven bits.\<close>

lemma encode_len_length:
  "0 < k \<Longrightarrow> unat v < 2 ^ (7 * k) \<Longrightarrow> k = 1 \<or> 2 ^ (7 * (k - 1)) \<le> unat v \<Longrightarrow> length (encode_len v) = k"
proof (induction k arbitrary: v)
  case (Suc k)
  have div: "unat (drop_bit 7 v) = unat v div 128" by (simp add: unat_div_distrib drop_bit_eq_div)
  show ?case
  proof (cases k)
    case 0
    then have "unat (drop_bit 7 v) = 0" using Suc.prems(2) div by simp
    then have "drop_bit 7 v = 0" by (simp only: unat_eq_0)
    then show ?thesis using 0 by (simp only: encode_len_last) simp
  next
    case (Suc j)
    then have lo: "2 ^ (7 * k) \<le> unat v" using Suc.prems(3) by simp
    have e: "(2::nat) ^ (7 * k) = 128 * 2 ^ (7 * j)" "(2::nat) ^ (7 * Suc k) = 128 * 2 ^ (7 * k)"
      using Suc by (simp_all add: power_add)
    have "2 ^ (7 * j) \<le> unat v div 128" using lo e(1) by (simp add: less_eq_div_iff_mult_less_eq mult.commute)
    moreover have "unat v div 128 < 2 ^ (7 * k)"
      using Suc.prems(2) e(2) by (metis less_mult_imp_div_less mult.commute)
    ultimately have "length (encode_len (drop_bit 7 v)) = k"
      using Suc by (intro Suc.IH) (simp_all add: div)
    moreover have "drop_bit 7 v \<noteq> 0"
      using \<open>2 ^ (7 * j) \<le> unat v div 128\<close> div by (metis le_zero_eq power_not_zero unsigned_0 zero_neq_numeral)
    ultimately show ?thesis by (metis encode_len_more length_Cons)
  qed
qed simp

section \<open>Properties\<close>

text \<open>Decoding an encoded length, whatever follows it, gives the length and the number of bytes it took,
  for every 64-bit value.\<close>

theorem len_roundtrip: "decode_len (encode_len v @ rest) = (v, length (encode_len v))"
  by (rule decode_encode_len)

text \<open>An encoded length takes one byte for every started group of seven bits, at least one: two bytes
  below \<open>2 ^ 14\<close>, three below \<open>2 ^ 21\<close>, and so on.\<close>

theorem len_bytes:
  assumes "0 < k" "unat v < 2 ^ (7 * k)" "k = 1 \<or> 2 ^ (7 * (k - 1)) \<le> unat v"
  shows "length (encode_len v) = k"
  using assms by (rule encode_len_length)

theorem len_bytes_witness: "length (encode_len 2097152) = 4"
  by (rule len_bytes) simp_all

end
