(* ===== verification/Reader.thy ===== *)
theory Reader
  imports Prelude
begin

text \<open>
  The interface of the cursor-style readers of \<^verbatim>\<open>deshredder.rs\<close>: a reader takes the buffer and a
  position and gives a value and the next position; a writer lays the value out. The one law is
  that reading at the place where a value was written gives the value and the position after it.
\<close>

locale reader =
  fixes rd :: "bytes \<Rightarrow> nat \<Rightarrow> ('v \<times> nat) option"
    and wr :: "'v \<Rightarrow> bytes"
    and ok :: "'v \<Rightarrow> bool"
  assumes read_write: "ok v \<Longrightarrow> rd (pre @ wr v @ rest) (length pre) = Some (v, length pre + length (wr v))"
begin

text \<open>Reading where the buffer, from the position on, starts with a written value.\<close>

lemma read_at:
  assumes "ok v" "drop p buf = wr v @ rest" "p \<le> length buf"
  shows "rd buf p = Some (v, p + length (wr v))"
proof -
  have "buf = take p buf @ wr v @ rest" using assms(2) by (metis append_take_drop_id)
  moreover have "length (take p buf) = p" using assms(3) by simp
  ultimately show ?thesis using read_write [OF assms(1), of "take p buf" rest] by metis
qed

text \<open>No written value is a proper prefix of another: the encoding is uniquely decodable.\<close>

lemma prefix_free:
  assumes "ok v" "ok w" "wr v @ r = wr w @ s"
  shows "v = w \<and> r = s"
proof -
  have "rd (wr v @ r) 0 = Some (v, length (wr v))" "rd (wr w @ s) 0 = Some (w, length (wr w))"
    using read_write [OF assms(1), of "[]" r] read_write [OF assms(2), of "[]" s] by simp_all
  then show ?thesis using assms(3) by simp
qed

end

end
