(* ===== verification/Deshredder.thy ===== *)
theory Deshredder
  imports ShortVec Reader
begin

text \<open>
  \<^verbatim>\<open>crates/dc-tvu/src/deshredder.rs\<close>: from the recovered payloads to entries and transactions.
  A cursor \<open>&mut pos\<close> is a position that a reader takes and, with its value, returns; a position
  of a reader that fails is never used again by the code, so failure is just \<open>None\<close>.
\<close>

section \<open>The code\<close>

text \<open>\<open>u16::checked_shl\<close>: \<open>None\<close> only for a shift by the width or more; bits shifted out are lost.\<close>

definition checked_shl_u16 :: "u16 \<Rightarrow> nat \<Rightarrow> u16 option" where
  "checked_shl_u16 v shift = (if shift < 16 then Some (push_bit shift v) else None)"

function read_shortu16_loop :: "bytes \<Rightarrow> nat \<Rightarrow> u16 \<Rightarrow> nat \<Rightarrow> (u16 \<times> nat) option" where
  "read_shortu16_loop data pos val shift =
     (case get_at data pos of None \<Rightarrow> None | Some byte \<Rightarrow>
     (case checked_shl_u16 (ucast (byte AND 0x7F)) shift of None \<Rightarrow> None | Some part \<Rightarrow>
      let val' = val OR part in
      if byte AND 0x80 = 0 then Some (val', pos + 1)
      else if 14 < shift + 7 then None
      else read_shortu16_loop data (pos + 1) val' (shift + 7)))"
  by pat_completeness auto
termination by (relation "measure (\<lambda>(_, _, _, shift). 15 - shift)") auto

declare read_shortu16_loop.simps [simp del]

definition read_shortu16 :: "bytes \<Rightarrow> nat \<Rightarrow> (u16 \<times> nat) option" where
  "read_shortu16 data pos = read_shortu16_loop data pos 0 0"

definition read_u64 :: "bytes \<Rightarrow> nat \<Rightarrow> (u64 \<times> nat) option" where
  "read_u64 data pos =
     (case get_range data pos (pos + 8) of None \<Rightarrow> None | Some s \<Rightarrow> Some (u64_from_le s, pos + 8))"

text \<open>A compact length followed by that many units of \<open>unit_size\<close> bytes, skipped without being looked at.\<close>

definition skip_vec :: "bytes \<Rightarrow> nat \<Rightarrow> nat \<Rightarrow> nat option" where
  "skip_vec data p unit_size =
     (case read_shortu16 data p of None \<Rightarrow> None | Some (count, p1) \<Rightarrow>
     (case checked_mul_usize (unat count) unit_size of None \<Rightarrow> None | Some n \<Rightarrow> checked_add_usize p1 n))"

text \<open>The loop bodies over the instructions and over the address-table lookups.\<close>

fun skip_instructions :: "bytes \<Rightarrow> nat \<Rightarrow> nat \<Rightarrow> nat option" where
  "skip_instructions data 0 p = Some p"
| "skip_instructions data (Suc n) p =
     (case checked_add_usize p 1 of None \<Rightarrow> None | Some p1 \<Rightarrow>
     (case skip_vec data p1 1 of None \<Rightarrow> None | Some p2 \<Rightarrow>
     (case skip_vec data p2 1 of None \<Rightarrow> None | Some p3 \<Rightarrow> skip_instructions data n p3)))"

fun skip_lookups :: "bytes \<Rightarrow> nat \<Rightarrow> nat \<Rightarrow> nat option" where
  "skip_lookups data 0 p = Some p"
| "skip_lookups data (Suc n) p =
     (case checked_add_usize p 32 of None \<Rightarrow> None | Some p1 \<Rightarrow>
     (case skip_vec data p1 1 of None \<Rightarrow> None | Some p2 \<Rightarrow>
     (case skip_vec data p2 1 of None \<Rightarrow> None | Some p3 \<Rightarrow> skip_lookups data n p3)))"

definition tx_len :: "bytes \<Rightarrow> nat \<Rightarrow> nat option" where
  "tx_len data start =
     (case skip_vec data start 64 of None \<Rightarrow> None | Some p1 \<Rightarrow>
     (case get_at data p1 of None \<Rightarrow> None | Some first \<Rightarrow>
      let versioned = (first AND 0x80 \<noteq> 0); p2 = (if versioned then p1 + 1 else p1) in
     (case checked_add_usize p2 3 of None \<Rightarrow> None | Some p3 \<Rightarrow>
     (case skip_vec data p3 32 of None \<Rightarrow> None | Some p4 \<Rightarrow>
     (case checked_add_usize p4 32 of None \<Rightarrow> None | Some p5 \<Rightarrow>
     (case read_shortu16 data p5 of None \<Rightarrow> None | Some (num_ixs, p6) \<Rightarrow>
     (case skip_instructions data (unat num_ixs) p6 of None \<Rightarrow> None | Some p7 \<Rightarrow>
     (case (if versioned
            then (case read_shortu16 data p7 of None \<Rightarrow> None
                  | Some (num_lookups, p8) \<Rightarrow> skip_lookups data (unat num_lookups) p8)
            else Some p7) of None \<Rightarrow> None | Some p \<Rightarrow>
      if length data < p then None else Some (p - start)))))))))"

record entry =
  en_num_hashes :: u64
  en_hash :: bytes
  en_transactions :: "bytes list"

record deshred_result =
  dr_entries :: "entry list"
  dr_transactions :: "bytes list"

fun read_txs :: "bytes \<Rightarrow> nat \<Rightarrow> nat \<Rightarrow> bytes list \<Rightarrow> (bytes list \<times> nat) option" where
  "read_txs data 0 pos txs = Some (txs, pos)"
| "read_txs data (Suc n) pos txs =
     (case tx_len data pos of
        Some len \<Rightarrow> read_txs data n (pos + len) (txs @ [take len (drop pos data)])
      | None \<Rightarrow> None)"

text \<open>One turn of the entry loop; \<open>None\<close> is its \<open>break\<close>.\<close>

definition read_entry :: "bytes \<Rightarrow> nat \<Rightarrow> (entry \<times> nat) option" where
  "read_entry data pos =
     (case read_u64 data pos of None \<Rightarrow> None | Some (num_hashes, p1) \<Rightarrow>
     (case get_range data p1 (p1 + 32) of None \<Rightarrow> None | Some hash \<Rightarrow>
     (case read_u64 data (p1 + 32) of None \<Rightarrow> None | Some (v, p2) \<Rightarrow>
      if v \<le> 100000
      then (case read_txs data (unat v) p2 [] of None \<Rightarrow> None
            | Some (txs, p3) \<Rightarrow>
                Some (\<lparr> en_num_hashes = num_hashes, en_hash = hash, en_transactions = txs \<rparr>, p3))
      else None)))"

fun read_entries :: "bytes \<Rightarrow> nat \<Rightarrow> nat \<Rightarrow> entry list \<Rightarrow> entry list" where
  "read_entries data 0 pos entries = entries"
| "read_entries data (Suc n) pos entries =
     (case read_entry data pos of
        None \<Rightarrow> entries
      | Some (e, pos') \<Rightarrow> read_entries data n pos' (entries @ [e]))"

definition deshred_into_txs :: "bytes list \<Rightarrow> deshred_result option" where
  "deshred_into_txs data_payloads =
     (let all_data = concat data_payloads in
      if length all_data < 8 then None
      else (case read_u64 all_data 0 of None \<Rightarrow> None | Some (num_entries, pos) \<Rightarrow>
        if 1000000 < num_entries then None
        else let entries = read_entries all_data (unat num_entries) pos []
             in if entries = [] then None
                else Some \<lparr> dr_entries = entries, dr_transactions = concat (map en_transactions entries) \<rparr>))"

section \<open>The readers and the layouts they read\<close>

lemma ucast_low7: "(ucast (ucast (v AND 0x7F) :: u8) :: u16) = ucast (v AND 0x7F)" for v :: u64
  by (rule bit_word_eqI) (auto simp: bit_and_iff bit_ucast_iff bit_0x7F simp del: bit_numeral_word_iff)

lemma ucast_push_split7:
  "push_bit s (ucast (v AND 0x7F) :: u16) OR push_bit (s + 7) (ucast (drop_bit 7 v)) = push_bit s (ucast v)"
  for v :: u64
proof (rule bit_word_eqI)
  fix n assume n: "n < LENGTH(16)"
  show "bit (push_bit s (ucast (v AND 0x7F) :: u16) OR push_bit (s + 7) (ucast (drop_bit 7 v))) n
      = bit (push_bit s (ucast v :: u16)) n"
  proof (cases "s \<le> n \<and> n < s + 7")
    case True
    then show ?thesis using n
      by (auto simp: bit_and_iff bit_or_iff bit_ucast_iff bit_0x7F bit_push_bit_iff simp del: bit_numeral_word_iff)
  next
    case False
    then show ?thesis using n
      by (auto simp: bit_and_iff bit_or_iff bit_ucast_iff bit_0x7F bit_push_bit_iff bit_drop_bit_eq not_less
          simp del: bit_numeral_word_iff)
  qed
qed

lemma shortu16_loop_encode:
  "shift < 16 \<Longrightarrow> unat v < 2 ^ (16 - shift) \<Longrightarrow> shift mod 7 = 0 \<Longrightarrow>
   read_shortu16_loop (pre @ encode_len v @ rest) (length pre) val shift
     = Some (val OR push_bit shift (ucast v), length pre + length (encode_len v))"
proof (induction v arbitrary: pre val shift rule: encode_len.induct)
  case (1 v)
  show ?case
  proof (cases "drop_bit 7 v = 0")
    case True
    then have "v AND 0x7F = v" using split7 [of v] by simp
    then show ?thesis
      using 1(2) low7_byte(1,3) [of v] ucast_low7 [of v]
      by (subst read_shortu16_loop.simps)
        (simp add: encode_len_last [OF True] Let_def get_at_append checked_shl_u16_def)
  next
    case False
    have le: "shift + 7 \<le> 14"
    proof (rule ccontr)
      assume "\<not> shift + 7 \<le> 14"
      then have "16 - shift \<le> 0 + 7" using 1(2,4) by presburger
      then have "unat v < 2 ^ (0 + 7)" using 1(3) by (meson less_le_trans one_le_numeral power_increasing)
      then have "unat (drop_bit 7 v) < 2 ^ 0" by (rule drop7_less)
      then show False using False by (simp add: unat_eq_0)
    qed
    then have "16 - shift = (16 - (shift + 7)) + 7" by simp
    then have small: "unat (drop_bit 7 v) < 2 ^ (16 - (shift + 7))" using 1(3) by (metis drop7_less)
    have pos: "0 < drop_bit 7 v" using False by (simp only: word_neq_0_conv)
    let ?b = "(ucast (v AND 0x7F) :: u8) OR 0x80"
    have IH: "read_shortu16_loop ((pre @ [?b]) @ encode_len (drop_bit 7 v) @ rest) (length (pre @ [?b]))
        (val OR push_bit shift (ucast (v AND 0x7F))) (shift + 7)
      = Some ((val OR push_bit shift (ucast (v AND 0x7F))) OR push_bit (shift + 7) (ucast (drop_bit 7 v)),
          length (pre @ [?b]) + length (encode_len (drop_bit 7 v)))"
      using le 1(4) by (intro 1(1) [OF refl refl pos _ small]) simp_all
    have buf: "pre @ encode_len v @ rest = pre @ ?b # (encode_len (drop_bit 7 v) @ rest)"
      "(pre @ [?b]) @ encode_len (drop_bit 7 v) @ rest = pre @ ?b # (encode_len (drop_bit 7 v) @ rest)"
      by (simp_all only: encode_len_more [OF False] append_Cons append_assoc append_Nil)
    have len: "length (encode_len v) = Suc (length (encode_len (drop_bit 7 v)))"
      by (simp only: encode_len_more [OF False]) simp
    have "read_shortu16_loop (pre @ encode_len v @ rest) (length pre) val shift
      = read_shortu16_loop (pre @ ?b # (encode_len (drop_bit 7 v) @ rest)) (length pre + 1)
          (val OR push_bit shift (ucast (v AND 0x7F))) (shift + 7)"
      unfolding buf(1) using le 1(2)
      by (subst read_shortu16_loop.simps)
        (simp add: get_at_append low7_byte checked_shl_u16_def ucast_low7)
    also have "\<dots> = Some (val OR push_bit shift (ucast v), length pre + length (encode_len v))"
      using IH unfolding buf(2) len
      by (simp only: or.assoc ucast_push_split7) simp
    finally show ?thesis .
  qed
qed

lemma read_shortu16_encode:
  "read_shortu16 (pre @ encode_len (ucast v) @ rest) (length pre)
     = Some (v, length pre + length (encode_len (ucast v)))"
proof -
  have "unat (ucast v :: u64) = unat v"
    using unsigned_less [of v, where 'a = nat] by (simp add: unsigned_ucast_eq take_bit_nat_eq_self_iff)
  moreover have "(ucast (ucast v :: u64) :: u16) = v"
    by (rule bit_word_eqI) (auto simp: bit_ucast_iff)
  ultimately show ?thesis
    using shortu16_loop_encode [of 0 "ucast v" pre rest 0] unsigned_less [of v, where 'a = nat]
    by (simp add: read_shortu16_def)
qed

lemma read_u64_write: "read_u64 (pre @ u64_le v @ rest) (length pre) = Some (v, length pre + 8)"
  by (simp add: read_u64_def field_read)

interpretation shortu16: reader read_shortu16 "\<lambda>v. encode_len (ucast v)" "\<lambda>_. True"
  by unfold_locales (simp add: read_shortu16_encode)

interpretation le64: reader read_u64 u64_le "\<lambda>_. True"
  by unfold_locales (simp add: read_u64_write)

section \<open>The wire format of a transaction\<close>

text \<open>
  The classic Solana layout that the comment of \<open>tx_len\<close> describes, as a writer: signatures, the
  version byte of a versioned message, the header, account keys, the recent blockhash, the
  instructions and, for a versioned message, the address-table lookups.
\<close>

record wire_tx =
  wt_signatures :: "bytes list"
  wt_version :: "u8 option"
  wt_header :: bytes
  wt_accounts :: "bytes list"
  wt_blockhash :: bytes
  wt_instructions :: "(u8 \<times> bytes \<times> bytes) list"
  wt_lookups :: "(bytes \<times> bytes \<times> bytes) list"

definition short_len :: "nat \<Rightarrow> bytes" where
  "short_len n = encode_len (word_of_nat n)"

definition short_bytes :: "bytes \<Rightarrow> bytes" where
  "short_bytes xs = short_len (length xs) @ xs"

fun instruction_bytes :: "u8 \<times> bytes \<times> bytes \<Rightarrow> bytes" where
  "instruction_bytes (program, accts, payload) = program # short_bytes accts @ short_bytes payload"

fun lookup_bytes :: "bytes \<times> bytes \<times> bytes \<Rightarrow> bytes" where
  "lookup_bytes (key, writable, readonly) = key @ short_bytes writable @ short_bytes readonly"

definition tx_bytes :: "wire_tx \<Rightarrow> bytes" where
  "tx_bytes t =
     short_len (length (wt_signatures t)) @ concat (wt_signatures t) @
     (case wt_version t of None \<Rightarrow> [] | Some v \<Rightarrow> [v]) @ wt_header t @
     short_len (length (wt_accounts t)) @ concat (wt_accounts t) @ wt_blockhash t @
     short_len (length (wt_instructions t)) @ concat (map instruction_bytes (wt_instructions t)) @
     (case wt_version t of None \<Rightarrow> []
      | Some v \<Rightarrow> short_len (length (wt_lookups t)) @ concat (map lookup_bytes (wt_lookups t)))"

definition short_ok :: "'a list \<Rightarrow> bool" where
  "short_ok xs \<longleftrightarrow> length xs < 65536"

definition tx_ok :: "wire_tx \<Rightarrow> bool" where
  "tx_ok t \<longleftrightarrow>
     short_ok (wt_signatures t) \<and> (\<forall>s \<in> set (wt_signatures t). length s = 64) \<and>
     length (wt_header t) = 3 \<and>
     (case wt_version t of None \<Rightarrow> wt_header t ! 0 AND 0x80 = 0 | Some v \<Rightarrow> v AND 0x80 \<noteq> 0) \<and>
     short_ok (wt_accounts t) \<and> (\<forall>a \<in> set (wt_accounts t). length a = 32) \<and>
     length (wt_blockhash t) = 32 \<and> short_ok (wt_instructions t) \<and>
     (\<forall>(program, accts, payload) \<in> set (wt_instructions t). short_ok accts \<and> short_ok payload) \<and>
     short_ok (wt_lookups t) \<and>
     (\<forall>(key, writable, readonly) \<in> set (wt_lookups t).
        length key = 32 \<and> short_ok writable \<and> short_ok readonly)"

section \<open>Reading a written transaction\<close>

text \<open>The bytes \<open>xs\<close> stand in the buffer at position \<open>p\<close>.\<close>

definition stands_at :: "bytes \<Rightarrow> nat \<Rightarrow> bytes \<Rightarrow> bool" where
  "stands_at buf p xs \<longleftrightarrow> p \<le> length buf \<and> (\<exists>rest. drop p buf = xs @ rest)"

lemma stands_at_append [simp]:
  "stands_at buf p (xs @ ys) \<longleftrightarrow> stands_at buf p xs \<and> stands_at buf (p + length xs) ys"
proof
  assume L: "stands_at buf p (xs @ ys)"
  then obtain r where r: "drop p buf = xs @ ys @ r" "p \<le> length buf" by (auto simp: stands_at_def)
  then have "drop (p + length xs) buf = ys @ r" by (metis add.commute append_eq_conv_conj drop_drop)
  moreover have "length (drop p buf) = length (xs @ ys @ r)" using r(1) by simp
  then have "p + length xs \<le> length buf" using r(2) by simp
  ultimately show "stands_at buf p xs \<and> stands_at buf (p + length xs) ys"
    using r by (auto simp: stands_at_def)
next
  assume R: "stands_at buf p xs \<and> stands_at buf (p + length xs) ys"
  then obtain r s where r: "drop p buf = xs @ r" "p \<le> length buf" "drop (p + length xs) buf = ys @ s"
    by (auto simp: stands_at_def)
  then have "r = ys @ s" by (metis add.commute append_eq_conv_conj drop_drop)
  then show "stands_at buf p (xs @ ys)" using r by (auto simp: stands_at_def)
qed

lemma stands_at_Cons: "stands_at buf p (x # xs) \<longleftrightarrow> get_at buf p = Some x \<and> stands_at buf (p + 1) xs"
proof -
  have "stands_at buf p (x # xs) \<longleftrightarrow> stands_at buf p [x] \<and> stands_at buf (p + 1) xs"
    using stands_at_append [of buf p "[x]" xs] by simp
  moreover have "stands_at buf p [x] \<longleftrightarrow> get_at buf p = Some x"
    by (cases "p < length buf") (auto simp: stands_at_def get_at_def Cons_nth_drop_Suc [symmetric])
  ultimately show ?thesis by simp
qed

lemma stands_at_Nil [simp]: "stands_at buf p [] \<longleftrightarrow> p \<le> length buf"
  by (simp add: stands_at_def)

lemma stands_at_end: "stands_at buf p xs \<Longrightarrow> p + length xs \<le> length buf"
  using stands_at_append [of buf p xs "[]"] by simp

lemma stands_at_range: "stands_at buf p xs \<Longrightarrow> get_range buf p (p + length xs) = Some xs"
  using stands_at_end by (auto simp: stands_at_def get_range_def)

lemma stands_at_take: "p + k \<le> length buf \<Longrightarrow> stands_at buf p (take k (drop p buf))"
  unfolding stands_at_def by (rule conjI, simp, rule exI [of _ "drop k (drop p buf)"], simp only: append_take_drop_id)

lemma read_short_at:
  assumes "stands_at buf p (short_len n)" "n < 65536"
  shows "read_shortu16 buf p = Some (word_of_nat n, p + length (short_len n))"
proof -
  have "(ucast (word_of_nat n :: u16) :: u64) = word_of_nat n"
    by (use assms(2) in \<open>simp add: word_unat_eq_iff unsigned_ucast_eq unat_of_nat take_bit_eq_mod\<close>)
  then show ?thesis
    using assms(1) shortu16.read_at [where v = "word_of_nat n" and p = p and buf = buf] by (auto simp: short_len_def stands_at_def)
qed

lemma skip_vec_at:
  assumes "stands_at buf p (short_len n @ body)" "n < 65536" "length body = n * k" "length buf \<le> usize_max"
  shows "skip_vec buf p k = Some (p + length (short_len n) + length body)"
proof -
  have "p + length (short_len n) + length body \<le> length buf"
    using assms(1) stands_at_end [of buf p "short_len n @ body"] by simp
  then show ?thesis
    using assms read_short_at [of buf p n]
    by (simp add: skip_vec_def checked_mul_usize_def checked_add_usize_def unat_of_nat)
qed

lemma skip_short_bytes_at:
  assumes "stands_at buf p (short_bytes xs)" "short_ok xs" "length buf \<le> usize_max"
  shows "skip_vec buf p 1 = Some (p + length (short_bytes xs))"
  using skip_vec_at [of buf p "length xs" xs 1] assms by (simp add: short_bytes_def short_ok_def)

lemma skip_instructions_at:
  "\<forall>(program, accts, payload) \<in> set ixs. short_ok accts \<and> short_ok payload \<Longrightarrow> length buf \<le> usize_max \<Longrightarrow>
   stands_at buf p (concat (map instruction_bytes ixs)) \<Longrightarrow>
   skip_instructions buf (length ixs) p = Some (p + length (concat (map instruction_bytes ixs)))"
proof (induction ixs arbitrary: p)
  case (Cons ix ixs)
  obtain program accts payload where ix: "ix = (program, accts, payload)" by (cases ix) auto
  let ?p2 = "p + 1 + length (short_bytes accts)"
  have at: "stands_at buf (p + 1) (short_bytes accts)" "stands_at buf ?p2 (short_bytes payload)"
    "stands_at buf (?p2 + length (short_bytes payload)) (concat (map instruction_bytes ixs))"
    and first: "get_at buf p = Some program"
    using Cons.prems(3) by (simp_all add: ix stands_at_Cons add.assoc)
  have "p + 1 \<le> usize_max" using first Cons.prems(2) by (simp add: get_at_Some)
  moreover have "short_ok accts" "short_ok payload" using Cons.prems(1) ix by auto
  moreover have "skip_instructions buf (length ixs) (?p2 + length (short_bytes payload))
      = Some (?p2 + length (short_bytes payload) + length (concat (map instruction_bytes ixs)))"
    using Cons.prems by (intro Cons.IH at) auto
  ultimately show ?case
    using skip_short_bytes_at [OF at(1)] skip_short_bytes_at [OF at(2)] Cons.prems(2)
    by (simp add: ix checked_add_usize_def add.assoc)
qed simp

lemma skip_lookups_at:
  "\<forall>(key, writable, readonly) \<in> set lks. length key = 32 \<and> short_ok writable \<and> short_ok readonly \<Longrightarrow>
   length buf \<le> usize_max \<Longrightarrow> stands_at buf p (concat (map lookup_bytes lks)) \<Longrightarrow>
   skip_lookups buf (length lks) p = Some (p + length (concat (map lookup_bytes lks)))"
proof (induction lks arbitrary: p)
  case (Cons lk lks)
  obtain key writable readonly where lk: "lk = (key, writable, readonly)" by (cases lk) auto
  let ?p2 = "p + 32 + length (short_bytes writable)"
  have key: "length key = 32" "short_ok writable" "short_ok readonly" using Cons.prems(1) lk by auto
  have at: "stands_at buf (p + 32) (short_bytes writable)" "stands_at buf ?p2 (short_bytes readonly)"
    "stands_at buf (?p2 + length (short_bytes readonly)) (concat (map lookup_bytes lks))"
    using Cons.prems(3) key(1) by (simp_all add: lk add.assoc)
  have "p + 32 \<le> usize_max" using stands_at_end [OF at(1)] Cons.prems(2) by simp
  moreover have "skip_lookups buf (length lks) (?p2 + length (short_bytes readonly))
      = Some (?p2 + length (short_bytes readonly) + length (concat (map lookup_bytes lks)))"
    using Cons.prems by (intro Cons.IH at) auto
  ultimately show ?case
    using skip_short_bytes_at [OF at(1) key(2)] skip_short_bytes_at [OF at(2) key(3)] Cons.prems(2) key(1)
    by (simp add: lk checked_add_usize_def add.assoc)
qed simp

lemma length_concat_same: "\<forall>x \<in> set xs. length x = k \<Longrightarrow> length (concat xs) = length xs * k"
  by (induction xs) auto

lemma tx_len_at:
  assumes ok: "tx_ok t" and at: "stands_at buf p (tx_bytes t)" and fits: "length buf \<le> usize_max"
  shows "tx_len buf p = Some (length (tx_bytes t))"
proof -
  define sigs where "sigs = short_len (length (wt_signatures t)) @ concat (wt_signatures t)"
  define ver where "ver = (case wt_version t of None \<Rightarrow> [] | Some v \<Rightarrow> [v])"
  define accs where "accs = short_len (length (wt_accounts t)) @ concat (wt_accounts t)"
  define ixs where "ixs = concat (map instruction_bytes (wt_instructions t))"
  define lks where "lks = concat (map lookup_bytes (wt_lookups t))"
  define nixs where "nixs = short_len (length (wt_instructions t))"
  define nlks where "nlks = short_len (length (wt_lookups t))"
  let ?p1 = "p + length sigs" let ?p2 = "?p1 + length ver" let ?p3 = "?p2 + 3"
  let ?p4 = "?p3 + length accs" let ?p5 = "?p4 + 32" let ?p6 = "?p5 + length nixs"
  let ?p7 = "?p6 + length ixs"
  have tail: "tx_bytes t = sigs @ ver @ wt_header t @ accs @ wt_blockhash t @ nixs @ ixs @
      (case wt_version t of None \<Rightarrow> [] | Some v \<Rightarrow> nlks @ lks)"
    by (simp add: tx_bytes_def sigs_def ver_def accs_def ixs_def lks_def nixs_def nlks_def split: option.split)
  have lens: "length (wt_header t) = 3" "length (wt_blockhash t) = 32" using ok by (simp_all add: tx_ok_def)
  have at': "stands_at buf p sigs" "stands_at buf ?p1 ver" "stands_at buf ?p2 (wt_header t)"
    "stands_at buf ?p3 accs" "stands_at buf ?p4 (wt_blockhash t)" "stands_at buf ?p5 nixs" "stands_at buf ?p6 ixs"
    "stands_at buf ?p7 (case wt_version t of None \<Rightarrow> [] | Some v \<Rightarrow> nlks @ lks)"
    using at by (simp_all add: tail lens add.assoc)
  note short = ok [unfolded tx_ok_def short_ok_def]
  have s1: "skip_vec buf p 64 = Some ?p1"
    using skip_vec_at [OF at'(1) [unfolded sigs_def], of 64] short fits length_concat_same [of "wt_signatures t" 64]
    by (simp add: sigs_def)
  have s4: "skip_vec buf ?p3 32 = Some ?p4"
    using skip_vec_at [OF at'(4) [unfolded accs_def], of 32] short fits length_concat_same [of "wt_accounts t" 32]
    by (simp add: accs_def)
  have s6: "read_shortu16 buf ?p5 = Some (word_of_nat (length (wt_instructions t)), ?p6)"
    using read_short_at [OF at'(6) [unfolded nixs_def]] short by (simp add: nixs_def)
  have s7: "skip_instructions buf (length (wt_instructions t)) ?p6 = Some ?p7"
    using skip_instructions_at [OF _ fits at'(7) [unfolded ixs_def]] ok by (simp add: ixs_def tx_ok_def)
  obtain h hs where h: "wt_header t = h # hs" using lens(1) by (cases "wt_header t") auto
  have first: "get_at buf ?p1 = Some (case wt_version t of None \<Rightarrow> h | Some v \<Rightarrow> v)"
    using at'(2,3) by (auto simp: ver_def h stands_at_Cons split: option.splits)
  have versioned: "((case wt_version t of None \<Rightarrow> h | Some v \<Rightarrow> v) AND 0x80 \<noteq> 0) = (wt_version t \<noteq> None)"
    using ok by (auto simp: tx_ok_def h split: option.splits)
  have bounds: "?p2 + 3 \<le> usize_max" "?p4 + 32 \<le> usize_max"
    using stands_at_end [OF at'(4)] stands_at_end [OF at'(6)] fits by simp_all
  have ends: "p + length (tx_bytes t) \<le> length buf" by (rule stands_at_end [OF at])
  have idx: "unat (word_of_nat (length (wt_instructions t)) :: u16) = length (wt_instructions t)"
    using short by (simp add: unat_of_nat)
  show ?thesis
  proof (cases "wt_version t")
    case None
    have "length (tx_bytes t) = ?p7 - p" by (simp add: tail lens None)
    then show ?thesis using ends s1 s4 s6 s7 first versioned bounds
      by (simp add: tx_len_def None ver_def checked_add_usize_def idx add.assoc)
  next
    case (Some v)
    have s8: "read_shortu16 buf ?p7 = Some (word_of_nat (length (wt_lookups t)), ?p7 + length nlks)"
      using read_short_at [of buf ?p7 "length (wt_lookups t)"] at'(8) Some short by (simp add: nlks_def)
    have s9: "skip_lookups buf (length (wt_lookups t)) (?p7 + length nlks) = Some (?p7 + length nlks + length lks)"
      using skip_lookups_at [OF _ fits, of "wt_lookups t" "?p7 + length nlks"] at'(8) Some ok
      by (simp add: lks_def tx_ok_def)
    have "unat (word_of_nat (length (wt_lookups t)) :: u16) = length (wt_lookups t)"
      using short by (simp add: unat_of_nat)
    moreover have "length (tx_bytes t) = ?p7 + length nlks + length lks - p" by (simp add: tail lens Some)
    ultimately show ?thesis using ends s1 s4 s6 s7 s8 s9 first versioned bounds
      by (simp add: tx_len_def Some ver_def checked_add_usize_def idx add.assoc)
  qed
qed

section \<open>The entry stream\<close>

text \<open>What the cluster serialises: a count, then each entry with its transactions.\<close>

definition entry_bytes :: "entry \<Rightarrow> bytes" where
  "entry_bytes e = u64_le (en_num_hashes e) @ en_hash e @
     u64_le (word_of_nat (length (en_transactions e))) @ concat (en_transactions e)"

definition stream_bytes :: "entry list \<Rightarrow> bytes" where
  "stream_bytes es = u64_le (word_of_nat (length es)) @ concat (map entry_bytes es)"

definition entry_ok :: "entry \<Rightarrow> bool" where
  "entry_ok e \<longleftrightarrow> length (en_hash e) = 32 \<and> length (en_transactions e) \<le> 100000 \<and>
     (\<forall>x \<in> set (en_transactions e). \<exists>t. tx_ok t \<and> x = tx_bytes t)"

lemma read_u64_at: "stands_at buf p (u64_le v) \<Longrightarrow> read_u64 buf p = Some (v, p + 8)"
  using le64.read_at [where v = v and p = p and buf = buf] by (auto simp: stands_at_def)

lemma read_txs_at:
  "\<forall>x \<in> set xs. \<exists>t. tx_ok t \<and> x = tx_bytes t \<Longrightarrow> length buf \<le> usize_max \<Longrightarrow>
   stands_at buf p (concat xs) \<Longrightarrow>
   read_txs buf (length xs) p acc = Some (acc @ xs, p + length (concat xs))"
proof (induction xs arbitrary: p acc)
  case (Cons x xs)
  then obtain t where t: "tx_ok t" "x = tx_bytes t" by auto
  have at: "stands_at buf p x" "stands_at buf (p + length x) (concat xs)" using Cons.prems(3) by simp_all
  have "tx_len buf p = Some (length x)" using tx_len_at [OF t(1) at(1) [unfolded t(2)] Cons.prems(2)] t(2) by simp
  moreover have "take (length x) (drop p buf) = x" using at(1) by (auto simp: stands_at_def)
  ultimately show ?case using Cons at(2) by (simp add: add.assoc)
qed simp

lemma read_entry_at:
  assumes "entry_ok e" "length buf \<le> usize_max" "stands_at buf p (entry_bytes e)"
  shows "read_entry buf p = Some (e, p + length (entry_bytes e))"
proof -
  let ?n = "length (en_transactions e)"
  have len: "length (en_hash e) = 32" "?n \<le> 100000" using assms(1) by (simp_all add: entry_ok_def)
  have at: "stands_at buf p (u64_le (en_num_hashes e))" "stands_at buf (p + 8) (en_hash e)"
    "stands_at buf (p + 40) (u64_le (word_of_nat ?n))" "stands_at buf (p + 48) (concat (en_transactions e))"
    using assms(3) by (simp_all add: entry_bytes_def len add.assoc)
  have n: "unat (word_of_nat ?n :: u64) = ?n" using len(2) by (simp add: unat_of_nat)
  then have le: "(word_of_nat ?n :: u64) \<le> 100000" using len(2) by (simp add: word_le_nat_alt)
  have "read_txs buf ?n (p + 48) [] = Some (en_transactions e, p + 48 + length (concat (en_transactions e)))"
    using read_txs_at [of "en_transactions e" buf "p + 48" "[]"] assms(1,2) at(4) by (simp add: entry_ok_def)
  then show ?thesis
    using read_u64_at [OF at(1)] stands_at_range [OF at(2)] read_u64_at [OF at(3)] le n len
    by (simp add: read_entry_def entry_bytes_def add.assoc)
qed

lemma read_entries_at:
  "\<forall>e \<in> set es. entry_ok e \<Longrightarrow> length buf \<le> usize_max \<Longrightarrow> stands_at buf p (concat (map entry_bytes es)) \<Longrightarrow>
   read_entries buf (length es) p acc = acc @ es"
proof (induction es arbitrary: p acc)
  case (Cons e es)
  have "read_entry buf p = Some (e, p + length (entry_bytes e))"
    using Cons.prems by (intro read_entry_at) simp_all
  then show ?case using Cons by simp
qed simp

lemma deshred_stream:
  assumes "es \<noteq> []" "length es \<le> 1000000" "\<forall>e \<in> set es. entry_ok e"
    and fits: "length (concat payloads) \<le> usize_max" and stream: "concat payloads = stream_bytes es @ pad"
  shows "deshred_into_txs payloads
    = Some \<lparr> dr_entries = es, dr_transactions = concat (map en_transactions es) \<rparr>"
proof -
  let ?buf = "concat payloads"
  have "stands_at ?buf 0 (stream_bytes es)" using stream by (simp add: stands_at_def)
  then have at: "stands_at ?buf 0 (u64_le (word_of_nat (length es)))" "stands_at ?buf 8 (concat (map entry_bytes es))"
    by (simp_all add: stream_bytes_def)
  have n: "unat (word_of_nat (length es) :: u64) = length es" using assms(2) by (simp add: unat_of_nat)
  then have "\<not> 1000000 < (word_of_nat (length es) :: u64)" using assms(2) by (simp add: word_less_nat_alt)
  moreover have "read_u64 ?buf 0 = Some (word_of_nat (length es), 8)" using read_u64_at [OF at(1)] by simp
  moreover have "8 \<le> length ?buf" using stands_at_end [OF at(2)] by simp
  ultimately show ?thesis
    using read_entries_at [OF assms(3) fits at(2), of "[]"] assms(1)
    by (simp add: deshred_into_txs_def Let_def n)
qed

section \<open>What a successful read means\<close>

text \<open>Whatever is read as an entry is laid out there: writing the entries back gives the bytes read.\<close>

lemma read_u64_SomeD:
  assumes "read_u64 buf p = Some (v, q)" shows "q = p + 8" "stands_at buf p (u64_le v)"
proof -
  obtain s where s: "get_range buf p (p + 8) = Some s" "v = u64_from_le s" "q = p + 8"
    using assms by (auto simp: read_u64_def split: option.splits)
  then have "u64_le v = s" using get_range_length [OF s(1)] by (simp add: to_le_from_le)
  moreover have "stands_at buf p s" using stands_at_take [of p 8 buf] s(1) by (simp add: get_range_Some)
  ultimately show "stands_at buf p (u64_le v)" by simp
  show "q = p + 8" by (rule s(3))
qed

lemma get_range_stands: "get_range buf p q = Some xs \<Longrightarrow> stands_at buf p xs \<and> q = p + length xs"
  using stands_at_take [of p "q - p" buf] by (clarsimp simp: get_range_Some)

text \<open>A transaction lies inside the buffer, and is at least the bytes that hold it.\<close>

lemma read_txs_SomeD:
  "read_txs buf n p acc = Some (txs, q) \<Longrightarrow> p \<le> length buf \<Longrightarrow> (\<And>i k. tx_len buf i = Some k \<Longrightarrow> i + k \<le> length buf) \<Longrightarrow>
   \<exists>xs. txs = acc @ xs \<and> length xs = n \<and> stands_at buf p (concat xs) \<and> q = p + length (concat xs)"
proof (induction n arbitrary: p acc)
  case (Suc n)
  then obtain k where k: "tx_len buf p = Some k" "read_txs buf n (p + k) (acc @ [take k (drop p buf)]) = Some (txs, q)"
    by (auto split: option.splits)
  let ?x = "take k (drop p buf)"
  have le: "p + k \<le> length buf" by (rule Suc.prems(3) [OF k(1)])
  then have len: "length ?x = k" by simp
  obtain xs where xs: "txs = (acc @ [?x]) @ xs" "length xs = n" "stands_at buf (p + k) (concat xs)"
    "q = p + k + length (concat xs)"
    using Suc.IH [OF k(2) le Suc.prems(3)] by blast
  have "stands_at buf p ?x" by (rule stands_at_take [OF le])
  then show ?case using xs len by (intro exI [of _ "?x # xs"]) simp
qed simp

text \<open>Every reader moves forward.\<close>

lemma shortu16_loop_forward: "read_shortu16_loop data p val shift = Some (v, q) \<Longrightarrow> p < q"
proof (induction data p val shift rule: read_shortu16_loop.induct)
  case (1 data p val shift)
  from 1(2) show ?case
    by (subst (asm) read_shortu16_loop.simps)
      (auto simp: Let_def split: option.splits if_splits dest!: 1(1))
qed

lemma read_shortu16_forward: "read_shortu16 data p = Some (v, q) \<Longrightarrow> p < q"
  unfolding read_shortu16_def by (rule shortu16_loop_forward)

lemma checked_add_usize_Some: "checked_add_usize a b = Some c \<Longrightarrow> c = a + b"
  by (simp add: checked_add_usize_def split: if_splits)

lemma skip_vec_forward: "skip_vec data p k = Some q \<Longrightarrow> p < q"
  by (fastforce simp: skip_vec_def split: option.splits dest: checked_add_usize_Some read_shortu16_forward)

lemma skip_instructions_forward: "skip_instructions data n p = Some q \<Longrightarrow> p \<le> q"
  by (induction n arbitrary: p)
    (fastforce split: option.splits dest: checked_add_usize_Some skip_vec_forward)+

lemma skip_lookups_forward: "skip_lookups data n p = Some q \<Longrightarrow> p \<le> q"
  by (induction n arbitrary: p)
    (fastforce split: option.splits dest: checked_add_usize_Some skip_vec_forward)+

text \<open>The last part of \<open>tx_len\<close>: from the header on.\<close>

lemma tx_len_parts:
  assumes "tx_len data start = Some k"
  obtains p1 first p3 p4 p5 num_ixs p6 p7 p where
    "skip_vec data start 64 = Some p1" "get_at data p1 = Some first"
    "checked_add_usize (if first AND 0x80 \<noteq> 0 then p1 + 1 else p1) 3 = Some p3"
    "skip_vec data p3 32 = Some p4" "checked_add_usize p4 32 = Some p5"
    "read_shortu16 data p5 = Some (num_ixs, p6)" "skip_instructions data (unat num_ixs) p6 = Some p7"
    "(if first AND 0x80 \<noteq> 0
      then (case read_shortu16 data p7 of None \<Rightarrow> None
            | Some (num_lookups, p8) \<Rightarrow> skip_lookups data (unat num_lookups) p8)
      else Some p7) = Some p" "p \<le> length data" "k = p - start"
  using assms by (auto simp: tx_len_def Let_def not_less split: option.splits if_splits)

lemma tx_len_SomeD:
  assumes "tx_len data start = Some k"
  obtains p where "start < p" "p \<le> length data" "k = p - start"
  using assms
proof (rule tx_len_parts)
  fix p1 p3 p4 p5 p6 p7 p :: nat and first :: u8 and num_ixs :: u16
  assume s: "skip_vec data start 64 = Some p1"
      "checked_add_usize (if first AND 0x80 \<noteq> 0 then p1 + 1 else p1) 3 = Some p3"
      "skip_vec data p3 32 = Some p4" "checked_add_usize p4 32 = Some p5"
      "read_shortu16 data p5 = Some (num_ixs, p6)" "skip_instructions data (unat num_ixs) p6 = Some p7"
    and last: "(if first AND 0x80 \<noteq> 0
      then (case read_shortu16 data p7 of None \<Rightarrow> None
            | Some (num_lookups, p8) \<Rightarrow> skip_lookups data (unat num_lookups) p8)
      else Some p7) = Some p"
    and k: "p \<le> length data" "k = p - start"
  have "p7 \<le> p" using last
    by (auto split: if_splits option.splits dest!: read_shortu16_forward skip_lookups_forward)
  moreover have "start < p1" "p1 < p3" "p3 < p4" "p4 < p5" "p5 < p6" "p6 \<le> p7"
    using s by (auto dest!: skip_vec_forward checked_add_usize_Some read_shortu16_forward
        skip_instructions_forward split: if_splits)
  ultimately show ?thesis using that [of p] k by simp
qed

lemma tx_len_bounds: "tx_len data start = Some k \<Longrightarrow> 0 < k \<and> start + k \<le> length data"
  by (erule tx_len_SomeD) simp

lemma read_entry_SomeD:
  assumes "read_entry buf p = Some (e, q)"
  shows "stands_at buf p (entry_bytes e)" "q = p + length (entry_bytes e)" "length (en_hash e) = 32"
    "length (en_transactions e) \<le> 100000"
proof -
  obtain num_hashes p1 hash v p2 txs where
    s: "read_u64 buf p = Some (num_hashes, p1)" "get_range buf p1 (p1 + 32) = Some hash"
      "read_u64 buf (p1 + 32) = Some (v, p2)" "v \<le> 100000" "read_txs buf (unat v) p2 [] = Some (txs, q)"
      "e = \<lparr> en_num_hashes = num_hashes, en_hash = hash, en_transactions = txs \<rparr>"
    using assms by (auto simp: read_entry_def split: option.splits if_splits)
  note u = read_u64_SomeD [OF s(1)] read_u64_SomeD [OF s(3)]
  have "p2 \<le> length buf" using stands_at_end [OF u(4)] u(3) by simp
  then have txs: "length txs = unat v" "stands_at buf p2 (concat txs)" "q = p2 + length (concat txs)"
    using read_txs_SomeD [OF s(5)] tx_len_bounds by auto
  have h: "stands_at buf p1 hash" "length hash = 32"
    using get_range_stands [OF s(2)] get_range_length [OF s(2)] by simp_all
  have "word_of_nat (unat v) = v" by simp
  then show "stands_at buf p (entry_bytes e)" "q = p + length (entry_bytes e)"
    using txs h u by (simp_all add: s(6) entry_bytes_def add.assoc)
  show "length (en_hash e) = 32" by (simp add: s(6) h)
  show "length (en_transactions e) \<le> 100000" using s(4) txs(1) by (simp add: s(6) word_le_nat_alt)
qed

lemma read_entries_acc: "read_entries buf n p acc = acc @ read_entries buf n p []"
proof (induction n arbitrary: p acc)
  case (Suc n)
  show ?case
  proof (cases "read_entry buf p")
    case (Some r)
    then show ?thesis using Suc [of "snd r" "acc @ [fst r]"] Suc [of "snd r" "[fst r]"] by (cases r) simp
  qed simp
qed simp

lemma read_entries_stands:
  "p \<le> length buf \<Longrightarrow>
   stands_at buf p (concat (map entry_bytes (read_entries buf n p []))) \<and> length (read_entries buf n p []) \<le> n"
proof (induction n arbitrary: p)
  case (Suc n)
  show ?case
  proof (cases "read_entry buf p")
    case (Some r)
    obtain e q where r: "r = (e, q)" by (cases r)
    note d = read_entry_SomeD [OF Some [unfolded r]]
    have "q \<le> length buf" using stands_at_end [OF d(1)] d(2) by simp
    then show ?thesis
      using Suc.IH [of q] d(1,2) by (simp add: Some r read_entries_acc [where acc = "[e]"])
  qed (use Suc.prems in simp)
qed simp

text \<open>All the bytes that a result stands for are in the payloads, in order, after the count.\<close>

lemma deshred_SomeD:
  assumes "deshred_into_txs payloads = Some r"
  obtains n pad where "concat payloads = u64_le n @ concat (map entry_bytes (dr_entries r)) @ pad"
    and "dr_entries r \<noteq> []" "length (dr_entries r) \<le> unat n" "n \<le> 1000000"
    and "dr_transactions r = concat (map en_transactions (dr_entries r))"
proof -
  let ?buf = "concat payloads"
  obtain n p where s: "read_u64 ?buf 0 = Some (n, p)" "n \<le> 1000000"
    "read_entries ?buf (unat n) p [] \<noteq> []"
    "r = \<lparr> dr_entries = read_entries ?buf (unat n) p [],
           dr_transactions = concat (map en_transactions (read_entries ?buf (unat n) p [])) \<rparr>"
    using assms by (auto simp: deshred_into_txs_def Let_def not_less split: option.splits if_splits)
  note u = read_u64_SomeD [OF s(1)]
  have "p \<le> length ?buf" using stands_at_end [OF u(2)] u(1) by simp
  note e = read_entries_stands [OF this, of "unat n"]
  have "stands_at ?buf 0 (u64_le n @ concat (map entry_bytes (dr_entries r)))"
    using u e by (simp add: s(4))
  then obtain pad where "?buf = (u64_le n @ concat (map entry_bytes (dr_entries r))) @ pad"
    by (auto simp: stands_at_def)
  then show ?thesis using that [of n pad] s e by simp
qed

section \<open>A longer buffer\<close>

text \<open>What is read from a buffer is read from every buffer that continues it.\<close>

lemma get_at_ext: "get_at xs i = Some x \<Longrightarrow> get_at (xs @ m) i = Some x"
  by (auto simp: get_at_def nth_append split: if_splits)

lemma get_range_ext: "get_range xs a b = Some ys \<Longrightarrow> get_range (xs @ m) a b = Some ys"
  by (auto simp: get_range_def split: if_splits)

lemma shortu16_loop_ext:
  "read_shortu16_loop xs p val shift = Some r \<Longrightarrow> read_shortu16_loop (xs @ m) p val shift = Some r"
proof (induction xs p val shift rule: read_shortu16_loop.induct)
  case (1 data p val shift)
  from 1(2) show ?case
    by (subst (asm) read_shortu16_loop.simps, subst read_shortu16_loop.simps)
      (auto simp: Let_def get_at_ext split: option.splits if_splits dest: 1(1) get_at_ext [where m = m])
qed

lemma read_shortu16_ext: "read_shortu16 xs p = Some r \<Longrightarrow> read_shortu16 (xs @ m) p = Some r"
  unfolding read_shortu16_def by (rule shortu16_loop_ext)

lemma read_u64_ext: "read_u64 xs p = Some r \<Longrightarrow> read_u64 (xs @ m) p = Some r"
  by (auto simp: read_u64_def split: option.splits dest: get_range_ext [where m = m])

lemma skip_vec_ext: "skip_vec xs p k = Some r \<Longrightarrow> skip_vec (xs @ m) p k = Some r"
  by (auto simp: skip_vec_def split: option.splits prod.splits dest: read_shortu16_ext [where m = m])

lemma skip_instructions_ext: "skip_instructions xs n p = Some r \<Longrightarrow> skip_instructions (xs @ m) n p = Some r"
  by (induction n arbitrary: p)
    (auto split: option.splits simp: skip_vec_ext dest: skip_vec_ext [where m = m])

lemma skip_lookups_ext: "skip_lookups xs n p = Some r \<Longrightarrow> skip_lookups (xs @ m) n p = Some r"
  by (induction n arbitrary: p)
    (auto split: option.splits simp: skip_vec_ext dest: skip_vec_ext [where m = m])

lemma tx_len_ext:
  assumes "tx_len xs p = Some k" shows "tx_len (xs @ m) p = Some k"
  using assms
proof (rule tx_len_parts)
  fix p1 p3 p4 p5 p6 p7 q :: nat and first :: u8 and num_ixs :: u16
  assume s: "skip_vec xs p 64 = Some p1" "get_at xs p1 = Some first"
      "checked_add_usize (if first AND 0x80 \<noteq> 0 then p1 + 1 else p1) 3 = Some p3"
      "skip_vec xs p3 32 = Some p4" "checked_add_usize p4 32 = Some p5"
      "read_shortu16 xs p5 = Some (num_ixs, p6)" "skip_instructions xs (unat num_ixs) p6 = Some p7"
      "q \<le> length xs" "k = q - p"
    and last: "(if first AND 0x80 \<noteq> 0
      then (case read_shortu16 xs p7 of None \<Rightarrow> None
            | Some (num_lookups, p8) \<Rightarrow> skip_lookups xs (unat num_lookups) p8)
      else Some p7) = Some q"
  have "(if first AND 0x80 \<noteq> 0
      then (case read_shortu16 (xs @ m) p7 of None \<Rightarrow> None
            | Some (num_lookups, p8) \<Rightarrow> skip_lookups (xs @ m) (unat num_lookups) p8)
      else Some p7) = Some q"
    using last by (auto split: if_splits option.splits simp: skip_lookups_ext dest: read_shortu16_ext [where m = m])
  with s show ?thesis
    using skip_vec_ext [OF s(1), of m] get_at_ext [OF s(2), of m] skip_vec_ext [OF s(4), of m]
      read_shortu16_ext [OF s(6), of m] skip_instructions_ext [OF s(7), of m]
    by (simp only: tx_len_def Let_def option.case prod.case length_append) simp
qed

lemma read_txs_ext: "read_txs xs n p acc = Some r \<Longrightarrow> read_txs (xs @ m) n p acc = Some r"
proof (induction n arbitrary: p acc)
  case (Suc n)
  then obtain k where k: "tx_len xs p = Some k" "read_txs xs n (p + k) (acc @ [take k (drop p xs)]) = Some r"
    by (auto split: option.splits)
  have "take k (drop p (xs @ m)) = take k (drop p xs)" using tx_len_bounds [OF k(1)] by simp
  then show ?case using Suc.IH [OF k(2)] by (simp only: read_txs.simps tx_len_ext [OF k(1)] option.case)
qed simp

lemma read_entry_ext: "read_entry xs p = Some r \<Longrightarrow> read_entry (xs @ m) p = Some r"
  by (auto simp: read_entry_def read_u64_ext get_range_ext read_txs_ext split: option.splits prod.splits if_splits
      dest: read_u64_ext [where m = m] get_range_ext [where m = m] read_txs_ext [where m = m])

lemma read_entries_ext: "\<exists>more. read_entries (xs @ m) n p acc = read_entries xs n p acc @ more"
proof (induction n arbitrary: p acc)
  case (Suc n)
  show ?case
  proof (cases "read_entry xs p")
    case None
    then show ?thesis
      using read_entries_acc [of "xs @ m" "Suc n" p acc] by (simp only: read_entries.simps option.case) blast
  next
    case (Some r)
    then show ?thesis using Suc [of "snd r" "acc @ [fst r]"] by (cases r) (simp add: read_entry_ext [OF Some])
  qed
qed simp

lemma deshred_ext:
  assumes "deshred_into_txs payloads = Some r"
  shows "\<exists>r' more. deshred_into_txs (payloads @ later) = Some r' \<and> dr_entries r' = dr_entries r @ more"
proof -
  let ?buf = "concat payloads" and ?m = "concat later"
  obtain n p where s: "8 \<le> length ?buf" "read_u64 ?buf 0 = Some (n, p)" "\<not> 1000000 < n"
    "read_entries ?buf (unat n) p [] \<noteq> []" "dr_entries r = read_entries ?buf (unat n) p []"
    using assms by (auto simp: deshred_into_txs_def Let_def not_less split: option.splits if_splits)
  obtain more where "read_entries (?buf @ ?m) (unat n) p [] = read_entries ?buf (unat n) p [] @ more"
    using read_entries_ext by blast
  then show ?thesis
    using s read_u64_ext [OF s(2), of ?m] by (simp add: deshred_into_txs_def Let_def)
qed

section \<open>Properties\<close>

text \<open>The reader of compact lengths in transactions and the gossip crate's encoder agree: every 16-bit
  length that \<open>encode_len\<close> writes, \<open>read_shortu16\<close> reads, anywhere in a buffer.\<close>

theorem shortu16_reads_encode_len:
  "read_shortu16 (pre @ encode_len (ucast v) @ rest) (length pre) = Some (v, length pre + length (encode_len (ucast v)))"
  by (rule read_shortu16_encode)

text \<open>\<open>tx_len\<close> finds the end of every well-formed transaction, legacy or versioned, wherever it stands
  in a buffer.\<close>

theorem tx_len_of_transaction:
  assumes "tx_ok t" "length (pre @ tx_bytes t @ rest) \<le> usize_max"
  shows "tx_len (pre @ tx_bytes t @ rest) (length pre) = Some (length (tx_bytes t))"
  using assms by (intro tx_len_at) (simp_all add: stands_at_def)

definition example_tx :: wire_tx where
  "example_tx = \<lparr> wt_signatures = [replicate 64 1], wt_version = Some 0x80, wt_header = [1, 0, 0],
     wt_accounts = [replicate 32 2, replicate 32 3], wt_blockhash = replicate 32 4,
     wt_instructions = [(1, [0], [9, 9])], wt_lookups = [(replicate 32 5, [1], [])] \<rparr>"

lemma example_tx_ok: "tx_ok example_tx"
  by (simp add: tx_ok_def example_tx_def short_ok_def)

lemma example_tx_length: "length (tx_bytes example_tx) = 209"
  by (simp add: tx_bytes_def example_tx_def short_bytes_def short_len_def encode_len_last drop_bit_eq_div)

theorem tx_len_of_transaction_witness: "tx_len ([7] @ tx_bytes example_tx @ [8]) 1 = Some 209"
  using tx_len_of_transaction [OF example_tx_ok, of "[7]" "[8]"] by (simp add: example_tx_length usize_max_def)

text \<open>C14. Deshredding a serialised entry stream, however it is cut into payloads and padded at the end,
  gives the entries and their transactions in order.\<close>

theorem deshred_of_stream:
  assumes "es \<noteq> []" "length es \<le> 1000000" "\<forall>e \<in> set es. entry_ok e"
    and "length (concat payloads) \<le> usize_max" "concat payloads = stream_bytes es @ pad"
  shows "deshred_into_txs payloads
    = Some \<lparr> dr_entries = es, dr_transactions = concat (map en_transactions es) \<rparr>"
  using assms by (rule deshred_stream)

definition example_entry :: entry where
  "example_entry = \<lparr> en_num_hashes = 5, en_hash = replicate 32 6, en_transactions = [tx_bytes example_tx] \<rparr>"

lemma example_entry_ok: "entry_ok example_entry"
  using example_tx_ok by (auto simp: entry_ok_def example_entry_def)

lemma example_stream_length: "length (stream_bytes [example_entry]) = 265"
  by (simp add: stream_bytes_def entry_bytes_def example_entry_def example_tx_length)

theorem deshred_of_stream_witness:
  "deshred_into_txs [take 100 (stream_bytes [example_entry]), drop 100 (stream_bytes [example_entry]) @ [0]]
     = Some \<lparr> dr_entries = [example_entry], dr_transactions = [tx_bytes example_tx] \<rparr>"
  using deshred_of_stream [of "[example_entry]"
      "[take 100 (stream_bytes [example_entry]), drop 100 (stream_bytes [example_entry]) @ [0]]" "[0]"]
    example_stream_length
  by (simp add: example_entry_ok usize_max_def) (simp add: example_entry_def)

text \<open>Nothing is invented: the bytes of every deshredded result are in the payloads, in order, right after
  the entry count, and the transactions are those of the entries.\<close>

theorem deshred_result_in_payloads:
  assumes "deshred_into_txs payloads = Some r"
  shows "\<exists>n pad. concat payloads = u64_le n @ concat (map entry_bytes (dr_entries r)) @ pad \<and>
    dr_entries r \<noteq> [] \<and> length (dr_entries r) \<le> unat n \<and> n \<le> 1000000 \<and>
    dr_transactions r = concat (map en_transactions (dr_entries r))"
  using assms by (rule deshred_SomeD) blast

theorem deshred_result_in_payloads_witness:
  "\<exists>n pad. concat [stream_bytes [example_entry]] = u64_le n @ concat (map entry_bytes [example_entry]) @ pad"
  using deshred_result_in_payloads [OF deshred_stream [of "[example_entry]" "[stream_bytes [example_entry]]" "[]"]]
    example_stream_length
  by (simp add: example_entry_ok usize_max_def) blast

text \<open>More data only adds: what is deshredded from some payloads is the beginning of what is deshredded
  from them and any later ones.\<close>

theorem deshred_of_more_payloads:
  assumes "deshred_into_txs payloads = Some r"
  shows "\<exists>r' more. deshred_into_txs (payloads @ later) = Some r' \<and> dr_entries r' = dr_entries r @ more"
  using assms by (rule deshred_ext)

theorem deshred_of_more_payloads_witness:
  "\<exists>r' more. deshred_into_txs [stream_bytes [example_entry], [1, 2, 3]] = Some r' \<and>
     dr_entries r' = [example_entry] @ more"
  using deshred_of_more_payloads [OF deshred_stream [of "[example_entry]" "[stream_bytes [example_entry]]" "[]"],
      of "[[1, 2, 3]]"] example_stream_length
  by (simp add: example_entry_ok usize_max_def)

end
