(* ===== verification/RpcServer.thy ===== *)
theory RpcServer
  imports Stats RingBuffer FlatFileStore Deshredder
begin

text \<open>
  \<^verbatim>\<open>crates/dc-tvu/src/rpc_server.rs\<close>: the JSON-RPC methods over the ring buffer, the files and
  the counters. What third-party crates do is a field of the record \<open>externals\<close>: \<open>serde_json\<close>'s
  accessors on parameter values, \<open>bincode\<close> on entries and transactions, the text encodings, and
  SHA-256. A handler takes its locks one after the other and the pipeline may write in between;
  \<open>view k\<close> is the shared state at the handler's \<open>k\<close>-th lock.
\<close>

section \<open>The code\<close>

record app_state =
  as_ring_buffer :: ring_buffer
  as_files :: file_system
  as_file_store :: flat_file_store
  as_stats :: pipeline_stats

record ('v, 'tx) externals =
  x_as_array :: "'v \<Rightarrow> 'v list option"
  x_as_str :: "'v \<Rightarrow> string option"
  x_as_u64 :: "'v \<Rightarrow> u64 option"
  x_as_bool :: "'v \<Rightarrow> bool option"
  x_de_entries :: "bytes \<Rightarrow> entry list option"
  x_ser_entries :: "entry list \<Rightarrow> bytes option"
  x_de_tx :: "bytes \<Rightarrow> 'tx option"
  x_ser_tx :: "'tx \<Rightarrow> bytes option"
  x_tx_signatures :: "'tx \<Rightarrow> bytes list"
  x_base64 :: "bytes \<Rightarrow> string"
  x_bs58 :: "bytes \<Rightarrow> string"
  x_hex :: "bytes \<Rightarrow> string"
  x_sha256 :: "bytes \<Rightarrow> bytes"

type_synonym 'v params = "'v option"

record 'v json_rpc_request =
  rq_jsonrpc :: string
  rq_method :: string
  rq_params :: "'v option"
  rq_id :: u64

record 'r json_rpc_response =
  rs_jsonrpc :: string
  rs_result :: "'r option"
  rs_error :: "string option"
  rs_id :: u64

text \<open>The objects that \<open>json!\<close> builds, one constructor per shape.\<close>

datatype tx_field = TxJson (tx_signatures: "string list") | TxBase64 string

record proof_object =
  po_slot :: u64
  po_tx_index :: nat
  po_transaction :: "string option"
  po_leaf :: string
  po_proof :: "string list"
  po_root :: string
  po_verified :: bool

record tx_proof_object =
  to_index :: nat
  to_signatures :: "string list"
  to_leaf :: string
  to_proof :: "string list"
  to_transaction :: "string option"

datatype rpc_result =
    SlotNumber u64
  | SlotObject u64
  | Block (block_parent: u64) (block_transactions: "tx_field list") (block_num_transactions: nat)
  | Proof proof_object
  | BlockWithProofs (bp_slot: u64) (bp_parent: u64) (bp_num_transactions: nat) (bp_root: string)
      (bp_transactions: "tx_proof_object list")

definition respond :: "u64 \<Rightarrow> 'r \<Rightarrow> 'r json_rpc_response" where
  "respond rid r = \<lparr> rs_jsonrpc = ''2.0'', rs_result = Some r, rs_error = None, rs_id = rid \<rparr>"

definition respond_error :: "u64 \<Rightarrow> string \<Rightarrow> 'r json_rpc_response" where
  "respond_error rid msg = \<lparr> rs_jsonrpc = ''2.0'', rs_result = None, rs_error = Some msg, rs_id = rid \<rparr>"

text \<open>The object of \<open>/stats\<close>.\<close>

datatype stats_value = StatNumber nat | StatText string | StatObject "(string \<times> stats_value) list"

definition stats_handler :: "('v, 'tx) externals \<Rightarrow> (nat \<Rightarrow> app_state) \<Rightarrow> stats_value" where
  "stats_handler X view =
     (let stats = as_stats (view 0); batch = ps_current_batch stats in StatObject
      [(''latest_slot'', StatNumber (unat (ps_latest_slot stats))),
       (''current_batch'', StatObject
         [(''slot'', StatNumber (unat (bs_slot batch))),
          (''fec_set_index'', StatNumber (unat (bs_fec_set_index batch))),
          (''data_shreds'', StatNumber (bs_data_shreds batch)),
          (''code_shreds'', StatNumber (bs_code_shreds batch)),
          (''num_data'', StatNumber (bs_num_data batch)),
          (''num_code'', StatNumber (bs_num_code batch))]),
       (''total_blocks_recovered'', StatNumber (unat (ps_total_blocks_recovered stats))),
       (''blocks_in_ring_buffer'', StatNumber (ps_blocks_in_ring_buffer stats)),
       (''files_on_disk'', StatNumber (ps_files_on_disk stats)),
       (''latest_block_txs'', StatNumber (ps_latest_block_txs stats)),
       (''latest_block_root'', StatText (x_hex X (ps_latest_block_root stats)))])"

definition param_at :: "('v, 'tx) externals \<Rightarrow> 'v option \<Rightarrow> nat \<Rightarrow> 'v option" where
  "param_at X params i =
     (case params of None \<Rightarrow> None | Some p \<Rightarrow>
     (case x_as_array X p of None \<Rightarrow> None | Some a \<Rightarrow> get_at a i))"

definition param_str :: "('v, 'tx) externals \<Rightarrow> 'v option \<Rightarrow> nat \<Rightarrow> string option" where
  "param_str X params i = (case param_at X params i of None \<Rightarrow> None | Some v \<Rightarrow> x_as_str X v)"

definition param_u64 :: "('v, 'tx) externals \<Rightarrow> 'v option \<Rightarrow> nat \<Rightarrow> u64 option" where
  "param_u64 X params i = (case param_at X params i of None \<Rightarrow> None | Some v \<Rightarrow> x_as_u64 X v)"

definition param_bool :: "('v, 'tx) externals \<Rightarrow> 'v option \<Rightarrow> nat \<Rightarrow> bool option" where
  "param_bool X params i = (case param_at X params i of None \<Rightarrow> None | Some v \<Rightarrow> x_as_bool X v)"

definition or_else :: "'a option \<Rightarrow> 'a \<Rightarrow> 'a" where
  "or_else x d = (case x of None \<Rightarrow> d | Some y \<Rightarrow> y)"

definition parse_transactions :: "('v, 'tx) externals \<Rightarrow> bytes list \<Rightarrow> 'tx list" where
  "parse_transactions X raw = List.map_filter (x_de_tx X) raw"

definition load_slot_data :: "('v, 'tx) externals \<Rightarrow> (nat \<Rightarrow> app_state) \<Rightarrow> u64 \<Rightarrow>
    panic + ('tx list \<times> merkle_tree) option" where
  "load_slot_data X view slot =
     run_bind (get (as_ring_buffer (view 0)) slot) (\<lambda>found.
     case found of
       Some data \<Rightarrow>
         (case sd_merkle_tree data of None \<Rightarrow> Inr None | Some tree \<Rightarrow>
          if sd_num_transactions data = 0 then Inr None
          else (case x_de_entries X (sd_entries data) of None \<Rightarrow> Inr None | Some entries \<Rightarrow>
                Inr (Some (parse_transactions X (concat (map en_transactions entries)), tree))))
     | None \<Rightarrow>
         (case load_slot (as_files (view 1)) (as_file_store (view 1)) slot of None \<Rightarrow> Inr None | Some raw \<Rightarrow>
         (case deshred_into_txs [raw] of None \<Rightarrow> Inr None | Some result \<Rightarrow>
          Inr (Some (parse_transactions X (dr_transactions result),
                     merkle_new (x_sha256 X) (dr_transactions result))))))"

definition encode_transaction_base64 :: "('v, 'tx) externals \<Rightarrow> 'tx \<Rightarrow> string" where
  "encode_transaction_base64 X tx = x_base64 X (or_else (x_ser_tx X tx) [])"

definition transaction_json :: "('v, 'tx) externals \<Rightarrow> 'tx \<Rightarrow> tx_field" where
  "transaction_json X tx = TxJson (map (x_bs58 X) (x_tx_signatures X tx))"

text \<open>The slot reported as the latest: the live one, or the newest file when there is no live one.\<close>

definition reported_slot :: "(nat \<Rightarrow> app_state) \<Rightarrow> u64" where
  "reported_slot view =
     (let live = ps_latest_slot (as_stats (view 0))
      in if 0 < live then live else or_else (store_latest_slot (as_file_store (view 1))) 0)"

definition handle_get_slot :: "(nat \<Rightarrow> app_state) \<Rightarrow> u64 \<Rightarrow> rpc_result json_rpc_response" where
  "handle_get_slot view rid =
     (let slot = reported_slot view
      in if slot = 0 then respond_error rid ''no slots available'' else respond rid (SlotNumber slot))"

definition handle_get_latest_slot :: "(nat \<Rightarrow> app_state) \<Rightarrow> u64 \<Rightarrow> rpc_result json_rpc_response" where
  "handle_get_latest_slot view rid =
     (let slot = reported_slot view
      in if slot = 0 then respond_error rid ''no slots available'' else respond rid (SlotObject slot))"

definition not_found :: "u64 \<Rightarrow> string" where
  "not_found slot = ''slot '' @ decimal (unat slot) @ '' not found''"

text \<open>The parent that a block reports, from a second look at the ring buffer.\<close>

definition parent_of :: "ring_buffer \<Rightarrow> u64 \<Rightarrow> panic + u64" where
  "parent_of b slot =
     run_bind (get b slot) (\<lambda>found. Inr (case found of Some d \<Rightarrow> sd_parent_slot d | None \<Rightarrow> saturating_sub slot 1))"

definition handle_get_block :: "('v, 'tx) externals \<Rightarrow> (nat \<Rightarrow> app_state) \<Rightarrow> 'v option \<Rightarrow> u64 \<Rightarrow>
    panic + rpc_result json_rpc_response" where
  "handle_get_block X view params rid =
     (let slot = or_else (param_u64 X params 0) 0; encoding = or_else (param_str X params 1) ''base64'' in
      run_bind (load_slot_data X view slot) (\<lambda>loaded.
      case loaded of None \<Rightarrow> Inr (respond_error rid (not_found slot))
      | Some (txs, tree) \<Rightarrow>
          let tx_objects = map (\<lambda>tx. if encoding = ''json'' then transaction_json X tx
                                      else TxBase64 (encode_transaction_base64 X tx)) txs
          in run_bind (parent_of (as_ring_buffer (view 2)) slot) (\<lambda>parent.
             Inr (respond rid (Block parent tx_objects (length txs))))))"

text \<open>Leaf, proof and check of one index, as the three proof methods compute them.\<close>

definition leaf_and_proof :: "merkle_tree \<Rightarrow> nat \<Rightarrow> panic + bytes \<times> bytes list" where
  "leaf_and_proof tree i =
     run_bind (prove tree i) (\<lambda>pf.
     Inr (or_else (get_at (mt_leaves tree) i) (replicate 32 0), or_else pf []))"

definition handle_get_proof :: "('v, 'tx) externals \<Rightarrow> (nat \<Rightarrow> app_state) \<Rightarrow> 'v option \<Rightarrow> u64 \<Rightarrow>
    panic + rpc_result json_rpc_response" where
  "handle_get_proof X view params rid =
     (let slot = or_else (param_u64 X params 0) 0; tx_index = unat (or_else (param_u64 X params 1) 0) in
      run_bind (load_slot_data X view slot) (\<lambda>loaded.
      case loaded of None \<Rightarrow> Inr (respond_error rid (not_found slot))
      | Some (txs, tree) \<Rightarrow>
          run_bind (leaf_and_proof tree tx_index) (\<lambda>(leaf, pf).
          Inr (respond rid (Proof
            \<lparr> po_slot = slot, po_tx_index = tx_index, po_transaction = None, po_leaf = x_hex X leaf,
              po_proof = map (x_hex X) pf, po_root = x_hex X (mt_root tree),
              po_verified = verify (x_sha256 X) (mt_root tree) leaf pf tx_index \<rparr>)))))"

definition out_of_range :: "nat \<Rightarrow> nat \<Rightarrow> string" where
  "out_of_range i n = ''tx_index '' @ decimal i @ '' out of range (max '' @ decimal (n - 1) @ '')''"

definition handle_get_transaction_by_index :: "('v, 'tx) externals \<Rightarrow> (nat \<Rightarrow> app_state) \<Rightarrow> 'v option \<Rightarrow> u64 \<Rightarrow>
    panic + rpc_result json_rpc_response" where
  "handle_get_transaction_by_index X view params rid =
     (let slot = or_else (param_u64 X params 0) 0; tx_index = unat (or_else (param_u64 X params 1) 0) in
      run_bind (load_slot_data X view slot) (\<lambda>loaded.
      case loaded of None \<Rightarrow> Inr (respond_error rid (not_found slot))
      | Some (txs, tree) \<Rightarrow>
         (case get_at txs tx_index of
            None \<Rightarrow> Inr (respond_error rid (out_of_range tx_index (length txs)))
          | Some tx \<Rightarrow>
              run_bind (leaf_and_proof tree tx_index) (\<lambda>(leaf, pf).
              Inr (respond rid (Proof
                \<lparr> po_slot = slot, po_tx_index = tx_index,
                  po_transaction = Some (x_hex X (or_else (x_ser_tx X tx) [])), po_leaf = x_hex X leaf,
                  po_proof = map (x_hex X) pf, po_root = x_hex X (mt_root tree),
                  po_verified = verify (x_sha256 X) (mt_root tree) leaf pf tx_index \<rparr>))))))"

definition tx_with_proof :: "('v, 'tx) externals \<Rightarrow> merkle_tree \<Rightarrow> bool \<Rightarrow> nat \<times> 'tx \<Rightarrow> panic + tx_proof_object" where
  "tx_with_proof X tree with_tx_data = (\<lambda>(i, tx).
     run_bind (leaf_and_proof tree i) (\<lambda>(leaf, pf).
     Inr \<lparr> to_index = i, to_signatures = map (x_bs58 X) (x_tx_signatures X tx), to_leaf = x_hex X leaf,
           to_proof = map (x_hex X) pf,
           to_transaction = (if with_tx_data then Some (x_hex X (or_else (x_ser_tx X tx) [])) else None) \<rparr>))"

definition handle_get_block_with_proofs :: "('v, 'tx) externals \<Rightarrow> (nat \<Rightarrow> app_state) \<Rightarrow> 'v option \<Rightarrow> u64 \<Rightarrow>
    panic + rpc_result json_rpc_response" where
  "handle_get_block_with_proofs X view params rid =
     (let slot = or_else (param_u64 X params 0) 0; with_tx_data = or_else (param_bool X params 1) True in
      run_bind (load_slot_data X view slot) (\<lambda>loaded.
      case loaded of None \<Rightarrow> Inr (respond_error rid (not_found slot))
      | Some (txs, tree) \<Rightarrow>
          run_bind (run_map (tx_with_proof X tree with_tx_data) (zip [0..<length txs] txs)) (\<lambda>tx_objects.
          run_bind (parent_of (as_ring_buffer (view 2)) slot) (\<lambda>parent.
          Inr (respond rid (BlockWithProofs slot parent (length txs) (x_hex X (mt_root tree)) tx_objects))))))"

definition jsonrpc_handler :: "('v, 'tx) externals \<Rightarrow> (nat \<Rightarrow> app_state) \<Rightarrow> 'v json_rpc_request \<Rightarrow>
    panic + rpc_result json_rpc_response" where
  "jsonrpc_handler X view req =
     (let m = rq_method req; params = rq_params req; rid = rq_id req in
      if m = ''getSlot'' then Inr (handle_get_slot view rid)
      else if m = ''getBlock'' then handle_get_block X view params rid
      else if m = ''getLatestSlot'' then Inr (handle_get_latest_slot view rid)
      else if m = ''getProof'' then handle_get_proof X view params rid
      else if m = ''getTransactionByIndex'' then handle_get_transaction_by_index X view params rid
      else if m = ''getBlockWithProofs'' then handle_get_block_with_proofs X view params rid
      else Inr (respond_error rid (''unknown method: '' @ m)))"

section \<open>Where a served block comes from\<close>

lemma leaf_and_proof_new:
  "leaf_and_proof (merkle_new H raw) i =
     Inr (if i < length raw then H (raw ! i) else replicate 32 0, if i < length raw then path H (map H raw) i else [])"
  by (simp add: leaf_and_proof_def prove_new get_at_def or_else_def) (simp add: merkle_new_eq)

text \<open>A block of the ring buffer, and a block of a file that holds a serialised entry stream.\<close>

lemma load_from_ring:
  assumes "get (as_ring_buffer (view 0)) slot = Inr (Some d)" "sd_merkle_tree d = Some tree"
    and "sd_num_transactions d \<noteq> 0" "x_de_entries X (sd_entries d) = Some entries"
  shows "load_slot_data X view slot = Inr (Some (parse_transactions X (concat (map en_transactions entries)), tree))"
  using assms by (simp add: load_slot_data_def)

lemma load_from_file:
  assumes "get (as_ring_buffer (view 0)) slot = Inr None"
    and "load_slot (as_files (view 1)) (as_file_store (view 1)) slot = Some raw" "deshred_into_txs [raw] = Some result"
  shows "load_slot_data X view slot = Inr (Some (parse_transactions X (dr_transactions result),
           merkle_new (x_sha256 X) (dr_transactions result)))"
  using assms by (simp add: load_slot_data_def)

text \<open>The RPC server always answers a request with its id, and with a result or an error, not both.\<close>

definition response_ok :: "u64 \<Rightarrow> 'r json_rpc_response \<Rightarrow> bool" where
  "response_ok rid r \<longleftrightarrow> rs_id r = rid \<and> rs_jsonrpc r = ''2.0'' \<and> (rs_result r = None) = (rs_error r \<noteq> None)"

lemma response_ok_respond: "response_ok rid (respond rid x)" "response_ok rid (respond_error rid msg)"
  by (simp_all add: response_ok_def respond_def respond_error_def)

lemma handlers_respond:
  "response_ok rid (handle_get_slot view rid)"
  "response_ok rid (handle_get_latest_slot view rid)"
  "handle_get_block X view params rid = Inr r \<Longrightarrow> response_ok rid r"
  "handle_get_proof X view params rid = Inr r \<Longrightarrow> response_ok rid r"
  "handle_get_transaction_by_index X view params rid = Inr r \<Longrightarrow> response_ok rid r"
  "handle_get_block_with_proofs X view params rid = Inr r \<Longrightarrow> response_ok rid r"
  by (auto simp: handle_get_slot_def handle_get_latest_slot_def handle_get_block_def handle_get_proof_def
      handle_get_transaction_by_index_def handle_get_block_with_proofs_def Let_def response_ok_respond
      elim!: run_bind_InrE split: option.splits prod.splits)

lemma jsonrpc_responds: "jsonrpc_handler X view req = Inr r \<Longrightarrow> response_ok (rq_id req) r"
  by (auto simp: jsonrpc_handler_def Let_def handlers_respond response_ok_respond split: if_splits)

end
