(* ===== verification/ShredHeader.thy ===== *)
theory ShredHeader
  imports Prelude
begin

text \<open>
  \<^verbatim>\<open>crates/dc-tvu/src/shred_header.rs\<close>: sizes, the variant byte, the flags byte, the common
  header, the field readers and the identifiers. Fixed-size arrays \<open>[u8; N]\<close> are byte lists of
  that length, which \<open>read_arr\<close> guarantees.
\<close>

section \<open>Constants\<close>

definition SIZE_OF_SIGNATURE :: nat where "SIZE_OF_SIGNATURE = 64"
definition SIZE_OF_COMMON_HEADER :: nat where "SIZE_OF_COMMON_HEADER = 83"
definition SIZE_OF_DATA_HEADER :: nat where "SIZE_OF_DATA_HEADER = 5"
definition SIZE_OF_CODING_HEADER :: nat where "SIZE_OF_CODING_HEADER = 6"
definition SIZE_OF_DATA_SHRED :: nat where "SIZE_OF_DATA_SHRED = 1203"
definition SIZE_OF_CODING_SHRED :: nat where "SIZE_OF_CODING_SHRED = 1228"
definition SIZE_OF_MERKLE_ROOT :: nat where "SIZE_OF_MERKLE_ROOT = 32"
definition SIZE_OF_MERKLE_PROOF_ENTRY :: nat where "SIZE_OF_MERKLE_PROOF_ENTRY = 20"

lemmas shred_sizes = SIZE_OF_SIGNATURE_def SIZE_OF_COMMON_HEADER_def SIZE_OF_DATA_HEADER_def
  SIZE_OF_CODING_HEADER_def SIZE_OF_DATA_SHRED_def SIZE_OF_CODING_SHRED_def SIZE_OF_MERKLE_ROOT_def
  SIZE_OF_MERKLE_PROOF_ENTRY_def

section \<open>Shred type and variant\<close>

datatype shred_type = Data | Code

datatype shred_variant =
    MerkleDataVariant (variant_proof_size: u8) (variant_resigned: bool)
  | MerkleCodeVariant (variant_proof_size: u8) (variant_resigned: bool)

definition variant_from_u8 :: "u8 \<Rightarrow> shred_variant option" where
  "variant_from_u8 byte =
     (let proof_size = byte AND 0x0F; tag = byte AND 0xF0
      in if tag = 0x90 then Some (MerkleDataVariant proof_size False)
         else if tag = 0xB0 then Some (MerkleDataVariant proof_size True)
         else if tag = 0x60 then Some (MerkleCodeVariant proof_size False)
         else if tag = 0x70 then Some (MerkleCodeVariant proof_size True)
         else None)"

fun variant_to_u8 :: "shred_variant \<Rightarrow> u8" where
  "variant_to_u8 (MerkleDataVariant proof_size False) = 0x90 OR proof_size"
| "variant_to_u8 (MerkleDataVariant proof_size True) = 0xB0 OR proof_size"
| "variant_to_u8 (MerkleCodeVariant proof_size False) = 0x60 OR proof_size"
| "variant_to_u8 (MerkleCodeVariant proof_size True) = 0x70 OR proof_size"

fun variant_shred_type :: "shred_variant \<Rightarrow> shred_type" where
  "variant_shred_type (MerkleDataVariant _ _) = Data"
| "variant_shred_type (MerkleCodeVariant _ _) = Code"

section \<open>Flags\<close>

datatype shred_flags = ShredFlags (bits: u8)

definition TICK_MASK :: u8 where "TICK_MASK = 0x3F"
definition DATA_COMPLETE :: u8 where "DATA_COMPLETE = 0x40"
definition LAST_SHRED :: u8 where "LAST_SHRED = 0xC0"

definition contains :: "shred_flags \<Rightarrow> u8 \<Rightarrow> bool" where
  "contains f flag \<longleftrightarrow> bits f AND flag = flag"

definition reference_tick :: "shred_flags \<Rightarrow> u8" where
  "reference_tick f = bits f AND TICK_MASK"

definition is_data_complete :: "shred_flags \<Rightarrow> bool" where
  "is_data_complete f = contains f DATA_COMPLETE"

definition is_last_in_slot :: "shred_flags \<Rightarrow> bool" where
  "is_last_in_slot f = contains f LAST_SHRED"

section \<open>Headers and readers\<close>

definition read_arr :: "nat \<Rightarrow> bytes \<Rightarrow> nat \<Rightarrow> bytes option" where
  "read_arr N bytes offset = get_range bytes offset (offset + N)"

record shred_common_header =
  ch_signature :: bytes
  ch_shred_variant :: u8
  ch_slot :: u64
  ch_index :: u32
  ch_version :: u16
  ch_fec_set_index :: u32

definition common_header_from_bytes :: "bytes \<Rightarrow> shred_common_header option" where
  "common_header_from_bytes bytes =
     (case read_arr 64 bytes 0 of None \<Rightarrow> None | Some signature \<Rightarrow>
      case get_at bytes 64 of None \<Rightarrow> None | Some variant \<Rightarrow>
      case get_range bytes 65 73 of None \<Rightarrow> None | Some slot \<Rightarrow>
      case get_range bytes 73 77 of None \<Rightarrow> None | Some index \<Rightarrow>
      case get_range bytes 77 79 of None \<Rightarrow> None | Some version \<Rightarrow>
      case get_range bytes 79 83 of None \<Rightarrow> None | Some fec \<Rightarrow>
        Some \<lparr> ch_signature = signature, ch_shred_variant = variant, ch_slot = u64_from_le slot,
               ch_index = u32_from_le index, ch_version = u16_from_le version,
               ch_fec_set_index = u32_from_le fec \<rparr>)"

record data_shred_header =
  dh_parent_offset :: u16
  dh_flags :: u8
  dh_size :: u16

record coding_shred_header =
  cdh_num_data_shreds :: u16
  cdh_num_coding_shreds :: u16
  cdh_position :: u16

definition get_signature :: "bytes \<Rightarrow> bytes option" where
  "get_signature bytes = get_range bytes 0 64"

definition get_shred_variant :: "bytes \<Rightarrow> shred_variant option" where
  "get_shred_variant bytes = (case get_at bytes 64 of None \<Rightarrow> None | Some byte \<Rightarrow> variant_from_u8 byte)"

definition get_shred_type :: "bytes \<Rightarrow> shred_type option" where
  "get_shred_type bytes = map_option variant_shred_type (get_shred_variant bytes)"

definition is_data :: "bytes \<Rightarrow> bool option" where
  "is_data bytes = map_option (\<lambda>t. t = Data) (get_shred_type bytes)"

definition is_code :: "bytes \<Rightarrow> bool option" where
  "is_code bytes = map_option (\<lambda>t. t = Code) (get_shred_type bytes)"

definition get_slot :: "bytes \<Rightarrow> u64 option" where
  "get_slot bytes = map_option u64_from_le (get_range bytes 65 73)"

definition get_index :: "bytes \<Rightarrow> u32 option" where
  "get_index bytes = map_option u32_from_le (get_range bytes 73 77)"

definition get_version :: "bytes \<Rightarrow> u16 option" where
  "get_version bytes = map_option u16_from_le (get_range bytes 77 79)"

definition get_fec_set_index :: "bytes \<Rightarrow> u32 option" where
  "get_fec_set_index bytes = map_option u32_from_le (get_range bytes 79 83)"

definition get_parent_offset :: "bytes \<Rightarrow> u16 option" where
  "get_parent_offset bytes = map_option u16_from_le (get_range bytes 83 85)"

definition get_flags :: "bytes \<Rightarrow> shred_flags option" where
  "get_flags bytes = map_option ShredFlags (get_at bytes 85)"

definition get_data_size :: "bytes \<Rightarrow> u16 option" where
  "get_data_size bytes = map_option u16_from_le (get_range bytes 86 88)"

definition get_num_data_shreds :: "bytes \<Rightarrow> u16 option" where
  "get_num_data_shreds bytes = map_option u16_from_le (get_range bytes 83 85)"

definition get_num_coding_shreds :: "bytes \<Rightarrow> u16 option" where
  "get_num_coding_shreds bytes = map_option u16_from_le (get_range bytes 85 87)"

definition get_coding_position :: "bytes \<Rightarrow> u16 option" where
  "get_coding_position bytes = map_option u16_from_le (get_range bytes 87 89)"

record shred_id =
  sid_slot :: u64
  sid_index :: u32
  sid_shred_type :: shred_type

record erasure_set_id =
  es_slot :: u64
  es_fec_set_index :: u32

section \<open>The variant byte\<close>

lemma nibbles: "(b AND 0x0F) OR (b AND 0xF0) = b" for b :: u8
proof -
  have "(0x0F :: u8) OR 0xF0 = - 1" by simp
  then have "b AND (0x0F OR 0xF0) = b" by (simp only: and.right_neutral)
  then show ?thesis by (simp only: bit.conj_disj_distrib)
qed

lemma low_nibble_less: "unat (b AND 0x0F :: u8) < 16"
  using word_and_le1 [of b "0x0F :: u8"] by (simp add: word_le_nat_alt)

lemma low_nibble_id: "unat (p :: u8) < 16 \<Longrightarrow> p AND 0x0F = p"
  by (rule less_mask_eq [of p 4, unfolded mask_eq_exp_minus_1, simplified]) (simp add: word_less_nat_alt)

lemma variant_to_from: "variant_from_u8 b = Some v \<Longrightarrow> variant_to_u8 v = b"
  using nibbles [of b] by (auto simp: variant_from_u8_def Let_def or.commute split: if_splits)

lemma variant_proof_size_less: "variant_from_u8 b = Some v \<Longrightarrow> unat (variant_proof_size v) < 16"
  by (auto simp: variant_from_u8_def Let_def low_nibble_less split: if_splits)

lemma high_nibble_or:
  "p AND 0x0F = p \<Longrightarrow> (t OR p) AND 0x0F = (t AND 0x0F) OR p"
  "p AND 0x0F = p \<Longrightarrow> (t OR p) AND 0xF0 = (t AND 0xF0)" for p t :: u8
proof -
  assume p: "p AND 0x0F = p"
  show "(t OR p) AND 0x0F = (t AND 0x0F) OR p" using p by (simp add: bit.conj_disj_distrib2)
  have "p AND 0xF0 = (p AND 0x0F) AND 0xF0" using p by simp
  also have "\<dots> = 0" by (simp add: and.assoc)
  finally show "(t OR p) AND 0xF0 = t AND 0xF0" by (simp add: bit.conj_disj_distrib2)
qed

lemma variant_from_to: "unat (variant_proof_size v) < 16 \<Longrightarrow> variant_from_u8 (variant_to_u8 v) = Some v"
  by (cases v rule: variant_to_u8.cases)
    (simp_all add: variant_from_u8_def Let_def high_nibble_or low_nibble_id)

section \<open>The common header\<close>

definition common_header_bytes :: "shred_common_header \<Rightarrow> bytes" where
  "common_header_bytes h =
     ch_signature h @ [ch_shred_variant h] @ u64_le (ch_slot h) @ u32_le (ch_index h)
     @ u16_le (ch_version h) @ u32_le (ch_fec_set_index h)"

lemma length_common_header_bytes: "length (ch_signature h) = 64 \<Longrightarrow> length (common_header_bytes h) = 83"
  by (simp add: common_header_bytes_def)

lemma common_header_roundtrip:
  "length (ch_signature h) = 64 \<Longrightarrow> common_header_from_bytes (common_header_bytes h @ rest) = Some h"
  by (simp add: common_header_from_bytes_def common_header_bytes_def read_arr_def field_read)

lemma common_header_None: "common_header_from_bytes bs = None \<longleftrightarrow> length bs < 83"
  by (auto simp: common_header_from_bytes_def read_arr_def get_range_def get_at_def)

lemma common_header_getters:
  assumes "common_header_from_bytes bs = Some h"
  shows "get_signature bs = Some (ch_signature h)" "get_slot bs = Some (ch_slot h)"
    "get_index bs = Some (ch_index h)" "get_version bs = Some (ch_version h)"
    "get_fec_set_index bs = Some (ch_fec_set_index h)" "get_at bs 64 = Some (ch_shred_variant h)"
  using assms
  by (auto simp: common_header_from_bytes_def read_arr_def get_signature_def get_slot_def get_index_def
      get_version_def get_fec_set_index_def split: option.splits)

section \<open>Properties\<close>

text \<open>The variant byte and the variant are in bijection: a byte parses as a variant exactly when it is
  that variant's byte and the proof size fits its four bits.\<close>

theorem variant_byte_bijection:
  "variant_from_u8 byte = Some v \<longleftrightarrow> variant_to_u8 v = byte \<and> unat (variant_proof_size v) < 16"
  using variant_to_from variant_proof_size_less variant_from_to by blast

text \<open>Parsing the common header: it fails exactly on fewer than 83 bytes, gives back a header that was
  written, and agrees with the single-field readers.\<close>

theorem common_header_read:
  assumes "length (ch_signature h) = 64" "bs = common_header_bytes h @ rest"
  shows "common_header_from_bytes bs = Some h \<and> get_signature bs = Some (ch_signature h) \<and>
    get_slot bs = Some (ch_slot h) \<and> get_index bs = Some (ch_index h) \<and> get_version bs = Some (ch_version h) \<and>
    get_fec_set_index bs = Some (ch_fec_set_index h) \<and> get_shred_variant bs = variant_from_u8 (ch_shred_variant h) \<and>
    (common_header_from_bytes (take k bs) = None) = (k < 83)"
  using common_header_getters [OF common_header_roundtrip [OF assms(1), of rest]]
  by (simp add: assms(2) common_header_roundtrip assms(1) get_shred_variant_def common_header_None
      length_common_header_bytes) linarith

theorem common_header_read_witness:
  "get_slot (common_header_bytes \<lparr> ch_signature = replicate 64 1, ch_shred_variant = 0x64, ch_slot = 9,
      ch_index = 3, ch_version = 7, ch_fec_set_index = 2 \<rparr> @ [5]) = Some 9"
  using common_header_read [of "\<lparr> ch_signature = replicate 64 1, ch_shred_variant = 0x64, ch_slot = 9,
      ch_index = 3, ch_version = 7, ch_fec_set_index = 2 \<rparr>", OF _ refl, of "[5]" 0] by simp

end
