(* ===== verification/Shred.thy ===== *)
theory Shred
  imports ShredHeader
begin

text \<open>
  \<^verbatim>\<open>crates/dc-tvu/src/shred.rs\<close>: parsing a shred from a packet. The two type-specific headers are
  read by the \<^verbatim>\<open>bincode\<close> crate, a parameter here (\<open>de_data\<close>, \<open>de_coding\<close>); what the code relies on is
  bincode's documented fixed-size little-endian layout, stated by \<open>bincode_data_header\<close> and
  \<open>bincode_coding_header\<close>.
\<close>

section \<open>The code\<close>

datatype shred =
    MerkleData (shred_common: shred_common_header) (shred_data_header: data_shred_header)
      (shred_root: bytes) (shred_proof: "bytes list") (shred_data: bytes)
  | MerkleCode (shred_common: shred_common_header) (shred_coding_header: coding_shred_header)
      (shred_root: bytes) (shred_proof: "bytes list") (shred_code: bytes)

definition read_proof :: "bytes \<Rightarrow> nat \<Rightarrow> nat \<Rightarrow> bytes list option" where
  "read_proof bytes proof_off count = opt_map (\<lambda>i. read_arr 20 bytes (proof_off + i * 20)) [0..<count]"

definition parse_data ::
  "(bytes \<Rightarrow> data_shred_header option) \<Rightarrow> bytes \<Rightarrow> shred_common_header \<Rightarrow> nat \<Rightarrow> bool \<Rightarrow> shred option" where
  "parse_data de_data bytes header proof_size resigned =
     (case get_range bytes SIZE_OF_COMMON_HEADER (SIZE_OF_COMMON_HEADER + SIZE_OF_DATA_HEADER) of
        None \<Rightarrow> None
      | Some hdr \<Rightarrow>
     (case de_data hdr of None \<Rightarrow> None | Some data_header \<Rightarrow>
      let data_off = SIZE_OF_COMMON_HEADER + SIZE_OF_DATA_HEADER;
          data_end = unat (dh_size data_header)
      in (case (if data_off < data_end then get_range bytes data_off data_end else Some []) of
            None \<Rightarrow> None
          | Some data \<Rightarrow>
          let after_data = data_end + (if resigned then SIZE_OF_SIGNATURE else 0)
          in (case read_arr 32 bytes after_data of None \<Rightarrow> None | Some root \<Rightarrow>
             (case read_proof bytes (after_data + 32) proof_size of None \<Rightarrow> None | Some proof \<Rightarrow>
                Some (MerkleData header data_header root proof data))))))"

definition code_length :: "nat \<Rightarrow> bool \<Rightarrow> nat" where
  "code_length proof_size resigned =
     SIZE_OF_CODING_SHRED - (SIZE_OF_COMMON_HEADER + SIZE_OF_CODING_HEADER) - SIZE_OF_MERKLE_ROOT
       - proof_size * SIZE_OF_MERKLE_PROOF_ENTRY - (if resigned then SIZE_OF_SIGNATURE else 0)"

definition parse_code ::
  "(bytes \<Rightarrow> coding_shred_header option) \<Rightarrow> bytes \<Rightarrow> shred_common_header \<Rightarrow> nat \<Rightarrow> bool \<Rightarrow> shred option" where
  "parse_code de_coding bytes header proof_size resigned =
     (case get_range bytes SIZE_OF_COMMON_HEADER (SIZE_OF_COMMON_HEADER + SIZE_OF_CODING_HEADER) of
        None \<Rightarrow> None
      | Some hdr \<Rightarrow>
     (case de_coding hdr of None \<Rightarrow> None | Some coding_header \<Rightarrow>
      let code_off = SIZE_OF_COMMON_HEADER + SIZE_OF_CODING_HEADER;
          code_len = code_length proof_size resigned
      in (case get_range bytes code_off (code_off + code_len) of
            None \<Rightarrow> None
          | Some code \<Rightarrow>
          let after_code = code_off + code_len;
              merkle_off = after_code + (if resigned then SIZE_OF_SIGNATURE else 0)
          in (case read_arr 32 bytes merkle_off of None \<Rightarrow> None | Some root \<Rightarrow>
             (case read_proof bytes (merkle_off + 32) proof_size of None \<Rightarrow> None | Some proof \<Rightarrow>
                Some (MerkleCode header coding_header root proof code))))))"

definition parse_from_bytes ::
  "(bytes \<Rightarrow> data_shred_header option) \<Rightarrow> (bytes \<Rightarrow> coding_shred_header option) \<Rightarrow> bytes \<Rightarrow> shred option" where
  "parse_from_bytes de_data de_coding bytes =
     (case get_shred_variant bytes of None \<Rightarrow> None | Some variant \<Rightarrow>
     (case common_header_from_bytes bytes of None \<Rightarrow> None | Some header \<Rightarrow>
     (case variant of
        MerkleDataVariant proof_size resigned \<Rightarrow> parse_data de_data bytes header (unat proof_size) resigned
      | MerkleCodeVariant proof_size resigned \<Rightarrow> parse_code de_coding bytes header (unat proof_size) resigned)))"

definition shred_slot :: "shred \<Rightarrow> u64" where
  "shred_slot s = ch_slot (shred_common s)"

definition shred_index :: "shred \<Rightarrow> u32" where
  "shred_index s = ch_index (shred_common s)"

fun shred_type_of :: "shred \<Rightarrow> shred_type" where
  "shred_type_of (MerkleData _ _ _ _ _) = Data"
| "shred_type_of (MerkleCode _ _ _ _ _) = Code"

definition shred_erasure_set_id :: "shred \<Rightarrow> erasure_set_id" where
  "shred_erasure_set_id s = \<lparr> es_slot = ch_slot (shred_common s), es_fec_set_index = ch_fec_set_index (shred_common s) \<rparr>"

section \<open>The documented layout of bincode for the two headers\<close>

definition data_header_bytes :: "data_shred_header \<Rightarrow> bytes" where
  "data_header_bytes h = u16_le (dh_parent_offset h) @ [dh_flags h] @ u16_le (dh_size h)"

definition coding_header_bytes :: "coding_shred_header \<Rightarrow> bytes" where
  "coding_header_bytes h =
     u16_le (cdh_num_data_shreds h) @ u16_le (cdh_num_coding_shreds h) @ u16_le (cdh_position h)"

definition bincode_data_header :: "(bytes \<Rightarrow> data_shred_header option) \<Rightarrow> bool" where
  "bincode_data_header de \<longleftrightarrow> (\<forall>h. de (data_header_bytes h) = Some h)"

definition bincode_coding_header :: "(bytes \<Rightarrow> coding_shred_header option) \<Rightarrow> bool" where
  "bincode_coding_header de \<longleftrightarrow> (\<forall>h. de (coding_header_bytes h) = Some h)"

text \<open>Concrete functions with that layout, for the witnesses.\<close>

definition le_data_header :: "bytes \<Rightarrow> data_shred_header option" where
  "le_data_header bs = (if length bs < 5 then None
     else Some \<lparr> dh_parent_offset = u16_from_le (take 2 bs), dh_flags = bs ! 2,
                 dh_size = u16_from_le (take 2 (drop 3 bs)) \<rparr>)"

definition le_coding_header :: "bytes \<Rightarrow> coding_shred_header option" where
  "le_coding_header bs = (if length bs < 6 then None
     else Some \<lparr> cdh_num_data_shreds = u16_from_le (take 2 bs),
                 cdh_num_coding_shreds = u16_from_le (take 2 (drop 2 bs)),
                 cdh_position = u16_from_le (take 2 (drop 4 bs)) \<rparr>)"

lemma le_data_header_ok: "bincode_data_header le_data_header"
  by (simp add: bincode_data_header_def le_data_header_def data_header_bytes_def nth_append)

lemma le_coding_header_ok: "bincode_coding_header le_coding_header"
  by (simp add: bincode_coding_header_def le_coding_header_def coding_header_bytes_def)

lemma length_type_headers [simp]:
  "length (data_header_bytes h) = 5" "length (coding_header_bytes c) = 6"
  by (simp_all add: data_header_bytes_def coding_header_bytes_def)

section \<open>The wire layout of a whole shred\<close>

lemma concat_chunks:
  assumes "\<forall>p \<in> set ps. length p = w" "i < length ps"
  shows "get_range (concat ps @ rest) (i * w) (i * w + w) = Some (ps ! i)"
  using assms
proof (induction ps arbitrary: i)
  case (Cons p ps)
  then have p: "length p = w" by simp
  show ?case
  proof (cases i)
    case 0
    then show ?thesis using p by (simp add: get_range_here)
  next
    case (Suc j)
    then have "get_range (concat ps @ rest) (j * w) (j * w + w) = Some (ps ! j)"
      using Cons by simp
    then show ?thesis using Suc p by (simp add: get_range_after add.commute)
  qed
qed simp

lemma read_proof_ok:
  assumes "length pre = off" "\<forall>p \<in> set ps. length p = 20"
  shows "read_proof (pre @ concat ps @ rest) off (length ps) = Some ps"
proof -
  have "read_arr 20 (pre @ concat ps @ rest) (off + i * 20) = Some (ps ! i)" if "i < length ps" for i
    using concat_chunks [OF assms(2) that, of rest] assms(1)
    by (simp add: read_arr_def get_range_after)
  then show ?thesis
    unfolding read_proof_def by (subst opt_map_Some [of _ _ "(!) ps"]) (simp_all add: map_nth)
qed

lemma code_length_eq:
  assumes "ps < 16"
  shows "code_length ps r + 89 + 32 + ps * 20 + (if r then 64 else 0) = 1228"
proof -
  have "ps * 20 \<le> 300" using assms by simp
  then show ?thesis by (cases r) (simp_all add: code_length_def shred_sizes)
qed

lemma parse_data_ok:
  assumes "bincode_data_header de" "length hdr = 83" "unat (dh_size h) = 88 + length data"
    and "length sig = (if r then 64 else 0)" "length root = 32" "\<forall>p \<in> set ps. length p = 20"
  shows "parse_data de (hdr @ data_header_bytes h @ data @ sig @ root @ concat ps @ rest) ch (length ps) r
    = Some (MerkleData ch h root ps data)"
proof -
  let ?bs = "hdr @ data_header_bytes h @ data @ sig @ root @ concat ps @ rest"
  let ?after = "88 + length data + (if r then 64 else 0)"
  have dh: "get_range ?bs 83 88 = Some (data_header_bytes h)"
    using assms(2) by (simp add: field_read)
  have dat: "(if 88 < 88 + length data then get_range ?bs 88 (88 + length data) else Some []) = Some data"
    using assms(2) by (simp add: field_read)
  have root: "read_arr 32 ?bs ?after = Some root"
    using assms(2,4,5) by (simp add: read_arr_def field_read)
  have proof': "read_proof ?bs (?after + 32) (length ps) = Some ps"
    using read_proof_ok [of "hdr @ data_header_bytes h @ data @ sig @ root" "?after + 32" ps rest]
      assms(2,4,5,6) by simp
  have de: "de (data_header_bytes h) = Some h" using assms(1) by (simp add: bincode_data_header_def)
  show ?thesis
    using dat root proof' by (cases r) (simp_all add: parse_data_def shred_sizes dh de assms(3) Let_def)
qed

lemma parse_code_ok:
  assumes "bincode_coding_header de" "length hdr = 83" "length code = code_length (length ps) r"
    and "length sig = (if r then 64 else 0)" "length root = 32" "\<forall>p \<in> set ps. length p = 20"
  shows "parse_code de (hdr @ coding_header_bytes h @ code @ sig @ root @ concat ps @ rest) ch (length ps) r
    = Some (MerkleCode ch h root ps code)"
proof -
  let ?bs = "hdr @ coding_header_bytes h @ code @ sig @ root @ concat ps @ rest"
  let ?after = "89 + length code + (if r then 64 else 0)"
  have dh: "get_range ?bs 83 89 = Some (coding_header_bytes h)"
    using assms(2) by (simp add: field_read)
  have dat: "get_range ?bs 89 (89 + length code) = Some code"
    using assms(2) by (simp add: field_read)
  have root: "read_arr 32 ?bs ?after = Some root"
    using assms(2,4,5) by (simp add: read_arr_def field_read)
  have proof': "read_proof ?bs (?after + 32) (length ps) = Some ps"
    using read_proof_ok [of "hdr @ coding_header_bytes h @ code @ sig @ root" "?after + 32" ps rest]
      assms(2,4,5,6) by simp
  have de: "de (coding_header_bytes h) = Some h" using assms(1) by (simp add: bincode_coding_header_def)
  show ?thesis
    using assms(3) [symmetric] dat root proof' by (cases r) (simp_all add: parse_code_def shred_sizes dh de Let_def)
qed

text \<open>Whatever follows the payload, as long as it is long enough: the parser takes the root and the proof out of it, after the
  place where it expects the retransmitter's signature.\<close>

definition entries_of :: "nat \<Rightarrow> bytes \<Rightarrow> bytes list" where
  "entries_of n bs = map (\<lambda>i. take 20 (drop (i * 20) bs)) [0..<n]"

lemma read_arr_after: "off + n \<le> length tail \<Longrightarrow> read_arr n (pre @ tail) (length pre + off) = Some (take n (drop off tail))"
  by (auto simp: read_arr_def get_range_Some)

lemma read_proof_after:
  assumes "off + n * 20 \<le> length tail"
  shows "read_proof (pre @ tail) (length pre + off) n = Some (entries_of n (drop off tail))"
proof -
  have "read_arr 20 (pre @ tail) (length pre + off + i * 20) = Some (take 20 (drop (i * 20) (drop off tail)))" if "i < n" for i
    using read_arr_after [of "off + i * 20" 20 tail pre] assms that by (simp add: add.assoc add.commute [of "i * 20" off])
  then show ?thesis unfolding read_proof_def entries_of_def by (intro opt_map_Some) simp
qed

lemma parse_data_tail:
  assumes "bincode_data_header de" "length hdr = 83" "unat (dh_size h) = 88 + length data"
    and "(if r then 64 else 0) + 32 + n * 20 \<le> length tail"
  shows "parse_data de (hdr @ data_header_bytes h @ data @ tail) ch n r =
    (let t = drop (if r then 64 else 0) tail in Some (MerkleData ch h (take 32 t) (entries_of n (drop 32 t)) data))"
proof -
  let ?k = "if r then 64 else 0"
  let ?pre = "hdr @ data_header_bytes h @ data"
  have pre: "length ?pre = 88 + length data" using assms(2) by simp
  have dh: "get_range (?pre @ tail) 83 88 = Some (data_header_bytes h)" using assms(2) by (simp add: field_read)
  have dat: "(if 88 < 88 + length data then get_range (hdr @ data_header_bytes h @ data @ tail) 88 (88 + length data) else Some []) = Some data"
    using assms(2) by (simp add: field_read)
  have root: "read_arr 32 (?pre @ tail) (88 + length data + ?k) = Some (take 32 (drop ?k tail))"
    using read_arr_after [of ?k 32 tail ?pre] assms(4) unfolding pre by simp
  have proof': "read_proof (?pre @ tail) (88 + length data + ?k + 32) n = Some (entries_of n (drop 32 (drop ?k tail)))"
    using read_proof_after [of "?k + 32" n tail ?pre] assms(4) unfolding pre by (simp add: add.assoc add.commute [of 32 ?k])
  have de: "de (data_header_bytes h) = Some h" using assms(1) by (simp add: bincode_data_header_def)
  show ?thesis
    using dh dat root proof' by (cases r) (simp_all add: parse_data_def shred_sizes de assms(3) Let_def)
qed

lemma parse_code_tail:
  assumes "bincode_coding_header de" "length hdr = 83" "length code = code_length n r"
    and "(if r then 64 else 0) + 32 + n * 20 \<le> length tail"
  shows "parse_code de (hdr @ coding_header_bytes h @ code @ tail) ch n r =
    (let t = drop (if r then 64 else 0) tail in Some (MerkleCode ch h (take 32 t) (entries_of n (drop 32 t)) code))"
proof -
  let ?k = "if r then 64 else 0"
  let ?pre = "hdr @ coding_header_bytes h @ code"
  have pre: "length ?pre = 89 + length code" using assms(2) by simp
  have dh: "get_range (?pre @ tail) 83 89 = Some (coding_header_bytes h)" using assms(2) by (simp add: field_read)
  have dat: "get_range (?pre @ tail) 89 (89 + length code) = Some code" using assms(2) by (simp add: field_read)
  have root: "read_arr 32 (?pre @ tail) (89 + length code + ?k) = Some (take 32 (drop ?k tail))"
    using read_arr_after [of ?k 32 tail ?pre] assms(4) unfolding pre by simp
  have proof': "read_proof (?pre @ tail) (89 + length code + ?k + 32) n = Some (entries_of n (drop 32 (drop ?k tail)))"
    using read_proof_after [of "?k + 32" n tail ?pre] assms(4) unfolding pre by (simp add: add.assoc add.commute [of 32 ?k])
  have de: "de (coding_header_bytes h) = Some h" using assms(1) by (simp add: bincode_coding_header_def)
  show ?thesis
    using assms(3) [symmetric] dh dat root proof' by (cases r) (simp_all add: parse_code_def shred_sizes de Let_def)
qed

text \<open>The packet of a shred as \<^verbatim>\<open>shred_header.rs\<close> and \<^verbatim>\<open>TVU_DESIGN.md\<close> (4.4) lay it out: a data shred's payload is filled up
  to its capacity, then come the root, the proof and, of a resigned shred, the retransmitter's signature at the end. And what
  the parser makes of the bytes after the payload.\<close>

fun documented_tail :: "shred \<Rightarrow> bytes \<Rightarrow> bytes \<Rightarrow> bytes" where
  "documented_tail (MerkleData ch h root ps data) filler sig = filler @ root @ concat ps @ sig"
| "documented_tail (MerkleCode ch h root ps code) filler sig = root @ concat ps @ sig"

fun documented_bytes :: "shred \<Rightarrow> bytes \<Rightarrow> bytes \<Rightarrow> bytes" where
  "documented_bytes (MerkleData ch h root ps data) filler sig =
     common_header_bytes ch @ data_header_bytes h @ data @ documented_tail (MerkleData ch h root ps data) filler sig"
| "documented_bytes (MerkleCode ch h root ps code) filler sig =
     common_header_bytes ch @ coding_header_bytes h @ code @ documented_tail (MerkleCode ch h root ps code) filler sig"

fun with_merkle_part :: "shred \<Rightarrow> bytes \<Rightarrow> shred" where
  "with_merkle_part (MerkleData ch h root ps data) t = MerkleData ch h (take 32 t) (entries_of (length ps) (drop 32 t)) data"
| "with_merkle_part (MerkleCode ch h root ps code) t = MerkleCode ch h (take 32 t) (entries_of (length ps) (drop 32 t)) code"

lemma length_concat_proof: "\<forall>p \<in> set ps. length p = 20 \<Longrightarrow> length (concat ps) = length ps * 20"
  by (induction ps) auto

text \<open>A well-formed shred and the packet that carries it.\<close>

definition shred_ok :: "shred \<Rightarrow> bool \<Rightarrow> bool" where
  "shred_ok s r \<longleftrightarrow>
     length (ch_signature (shred_common s)) = 64 \<and> length (shred_root s) = 32 \<and>
     (\<forall>p \<in> set (shred_proof s). length p = 20) \<and> length (shred_proof s) < 16 \<and>
     (case s of
        MerkleData ch h root ps data \<Rightarrow>
          ch_shred_variant ch = variant_to_u8 (MerkleDataVariant (word_of_nat (length ps)) r) \<and>
          unat (dh_size h) = 88 + length data
      | MerkleCode ch h root ps code \<Rightarrow>
          ch_shred_variant ch = variant_to_u8 (MerkleCodeVariant (word_of_nat (length ps)) r) \<and>
          length code = code_length (length ps) r)"

definition shred_bytes :: "shred \<Rightarrow> bytes \<Rightarrow> bytes" where
  "shred_bytes s retransmitter_sig =
     common_header_bytes (shred_common s)
     @ (case s of
          MerkleData ch h root ps data \<Rightarrow> data_header_bytes h @ data
        | MerkleCode ch h root ps code \<Rightarrow> coding_header_bytes h @ code)
     @ retransmitter_sig @ shred_root s @ concat (shred_proof s)"

lemma get_shred_variant_header:
  "length (ch_signature ch) = 64 \<Longrightarrow>
   get_shred_variant (common_header_bytes ch @ rest) = variant_from_u8 (ch_shred_variant ch)"
  by (simp add: get_shred_variant_def common_header_bytes_def field_read)

lemma unat_proof_size: "n < 16 \<Longrightarrow> unat (word_of_nat n :: u8) = n"
  by (simp add: unat_of_nat)

lemma shred_roundtrip:
  assumes "bincode_data_header de_data" "bincode_coding_header de_coding"
    and "shred_ok s r" "length sig = (if r then 64 else 0)"
  shows "parse_from_bytes de_data de_coding (shred_bytes s sig @ rest) = Some s"
proof (cases s)
  case (MerkleData ch h root ps data)
  then have ok: "length (ch_signature ch) = 64" "length root = 32" "\<forall>p \<in> set ps. length p = 20" "length ps < 16"
      "ch_shred_variant ch = variant_to_u8 (MerkleDataVariant (word_of_nat (length ps)) r)"
      "unat (dh_size h) = 88 + length data"
    using assms(3) by (simp_all add: shred_ok_def)
  have v: "variant_from_u8 (ch_shred_variant ch) = Some (MerkleDataVariant (word_of_nat (length ps)) r)"
    unfolding ok(5) by (rule variant_from_to) (simp add: unat_proof_size ok(4))
  have "parse_data de_data (common_header_bytes ch @ data_header_bytes h @ data @ sig @ root @ concat ps @ rest)
      ch (length ps) r = Some (MerkleData ch h root ps data)"
    by (rule parse_data_ok) (use assms(1,4) ok in \<open>simp_all add: length_common_header_bytes\<close>)
  then show ?thesis
    using v ok(1,4) by (simp add: MerkleData parse_from_bytes_def shred_bytes_def get_shred_variant_header
        common_header_roundtrip unat_proof_size)
next
  case (MerkleCode ch h root ps code)
  then have ok: "length (ch_signature ch) = 64" "length root = 32" "\<forall>p \<in> set ps. length p = 20" "length ps < 16"
      "ch_shred_variant ch = variant_to_u8 (MerkleCodeVariant (word_of_nat (length ps)) r)"
      "length code = code_length (length ps) r"
    using assms(3) by (simp_all add: shred_ok_def)
  have v: "variant_from_u8 (ch_shred_variant ch) = Some (MerkleCodeVariant (word_of_nat (length ps)) r)"
    unfolding ok(5) by (rule variant_from_to) (simp add: unat_proof_size ok(4))
  have "parse_code de_coding (common_header_bytes ch @ coding_header_bytes h @ code @ sig @ root @ concat ps @ rest)
      ch (length ps) r = Some (MerkleCode ch h root ps code)"
    by (rule parse_code_ok) (use assms(2,4) ok in \<open>simp_all add: length_common_header_bytes\<close>)
  then show ?thesis
    using v ok(1,4) by (simp add: MerkleCode parse_from_bytes_def shred_bytes_def get_shred_variant_header
        common_header_roundtrip unat_proof_size)
qed

lemma documented_parse:
  assumes "bincode_data_header de_data" "bincode_coding_header de_coding"
    and "shred_ok s r" "length sig = (if r then 64 else 0)"
  shows "parse_from_bytes de_data de_coding (documented_bytes s filler sig @ rest) =
    Some (with_merkle_part s (drop (if r then 64 else 0) (documented_tail s filler sig @ rest)))"
proof (cases s)
  case (MerkleData ch h root ps data)
  then have ok: "length (ch_signature ch) = 64" "length root = 32" "\<forall>p \<in> set ps. length p = 20" "length ps < 16"
      "ch_shred_variant ch = variant_to_u8 (MerkleDataVariant (word_of_nat (length ps)) r)"
      "unat (dh_size h) = 88 + length data"
    using assms(3) by (simp_all add: shred_ok_def)
  have v: "variant_from_u8 (ch_shred_variant ch) = Some (MerkleDataVariant (word_of_nat (length ps)) r)"
    unfolding ok(5) by (rule variant_from_to) (simp add: unat_proof_size ok(4))
  have "(if r then 64 else 0) + 32 + length ps * 20 \<le> length (documented_tail s filler sig @ rest)"
    using ok(2) length_concat_proof [OF ok(3)] assms(4) MerkleData by simp
  from parse_data_tail [OF assms(1) _ ok(6) this, of "common_header_bytes ch" ch]
  show ?thesis
    using v ok(1,4) by (simp add: MerkleData parse_from_bytes_def get_shred_variant_header length_common_header_bytes
        common_header_roundtrip unat_proof_size Let_def)
next
  case (MerkleCode ch h root ps code)
  then have ok: "length (ch_signature ch) = 64" "length root = 32" "\<forall>p \<in> set ps. length p = 20" "length ps < 16"
      "ch_shred_variant ch = variant_to_u8 (MerkleCodeVariant (word_of_nat (length ps)) r)"
      "length code = code_length (length ps) r"
    using assms(3) by (simp_all add: shred_ok_def)
  have v: "variant_from_u8 (ch_shred_variant ch) = Some (MerkleCodeVariant (word_of_nat (length ps)) r)"
    unfolding ok(5) by (rule variant_from_to) (simp add: unat_proof_size ok(4))
  have "(if r then 64 else 0) + 32 + length ps * 20 \<le> length (documented_tail s filler sig @ rest)"
    using ok(2) length_concat_proof [OF ok(3)] assms(4) MerkleCode by simp
  from parse_code_tail [OF assms(2) _ ok(6) this, of "common_header_bytes ch" h ch]
  show ?thesis
    using v ok(1,4) by (simp add: MerkleCode parse_from_bytes_def get_shred_variant_header length_common_header_bytes
        common_header_roundtrip unat_proof_size Let_def)
qed

section \<open>What a successful parse says\<close>

lemma parse_short: "length bs < 83 \<Longrightarrow> parse_from_bytes de_data de_coding bs = None"
  by (simp add: parse_from_bytes_def common_header_None [THEN iffD2] split: option.split)

lemma parse_common:
  "parse_from_bytes de_data de_coding bs = Some s \<Longrightarrow> common_header_from_bytes bs = Some (shred_common s)"
  by (auto simp: parse_from_bytes_def parse_data_def parse_code_def Let_def
      split: option.splits shred_variant.splits)

lemma read_arr_length: "read_arr N bs off = Some x \<Longrightarrow> length x = N \<and> off + N \<le> length bs"
  by (auto simp: read_arr_def get_range_Some)

lemma read_proof_length:
  "read_proof bs off n = Some ps \<Longrightarrow> length ps = n \<and> (\<forall>p \<in> set ps. length p = 20)"
proof -
  assume "read_proof bs off n = Some ps"
  then have m: "map (\<lambda>i. read_arr 20 bs (off + i * 20)) [0..<n] = map Some ps"
    unfolding read_proof_def by (rule opt_map_SomeD)
  then have "length ps = n" by (metis length_map length_upt minus_nat.diff_0)
  moreover have "length p = 20" if "p \<in> set ps" for p
  proof -
    have "Some p \<in> set (map (\<lambda>i. read_arr 20 bs (off + i * 20)) [0..<n])" using that m by simp
    then show ?thesis by (auto dest!: sym [of "Some p"] read_arr_length)
  qed
  ultimately show ?thesis by simp
qed

text \<open>
  A code shred always has the payload length its variant byte fixes, so all code shreds of one
  variant have one size; a data shred's payload is the range its \<open>size\<close> field names.
\<close>

lemma parse_code_length:
  assumes "parse_from_bytes de_data de_coding bs = Some (MerkleCode ch h root ps code)"
  shows "\<exists>r. get_shred_variant bs = Some (MerkleCodeVariant (word_of_nat (length ps)) r) \<and>
    length code = code_length (length ps) r \<and> length bs \<ge> 1228"
proof -
  obtain p r where v: "get_shred_variant bs = Some (MerkleCodeVariant p r)"
    and P: "parse_code de_coding bs ch (unat p) r = Some (MerkleCode ch h root ps code)"
    using assms by (auto simp: parse_from_bytes_def parse_data_def parse_code_def Let_def
      split: option.splits shred_variant.splits)
  have p16: "unat p < 16" using v variant_proof_size_less
    by (fastforce simp: get_shred_variant_def split: option.splits)
  have ps: "length ps = unat p" and code: "length code = code_length (unat p) r"
    using P by (auto simp: parse_code_def Let_def get_range_length dest!: read_proof_length split: option.splits)
  have "length bs \<ge> 1228"
  proof (cases "unat p")
    case 0
    then show ?thesis using P code_length_eq [OF p16, of r]
      by (auto simp: parse_code_def Let_def shred_sizes dest!: read_arr_length split: option.splits if_splits)
  next
    case (Suc k)
    have "read_proof bs (89 + code_length (unat p) r + (if r then 64 else 0) + 32) (unat p) = Some ps"
      using P by (auto simp: parse_code_def Let_def shred_sizes split: option.splits if_splits)
    then have "read_arr 20 bs (89 + code_length (unat p) r + (if r then 64 else 0) + 32 + k * 20) \<noteq> None"
      using Suc unfolding read_proof_def by (metis atLeastLessThan_iff lessI opt_map_None option.distinct(1) set_upt zero_le)
    then show ?thesis using code_length_eq [OF p16, of r] Suc
      by (auto dest!: read_arr_length)
  qed
  then show ?thesis using v ps code by auto
qed

lemma parse_data_layout:
  assumes "parse_from_bytes de_data de_coding bs = Some (MerkleData ch h root ps data)"
  shows "\<exists>r. data = take (unat (dh_size h) - 88) (drop 88 bs) \<and>
    root = take 32 (drop (unat (dh_size h) + (if r then 64 else 0)) bs) \<and> length data = unat (dh_size h) - 88"
  using assms
  by (auto simp: parse_from_bytes_def parse_data_def parse_code_def read_arr_def get_range_Some Let_def shred_sizes
      split: option.splits shred_variant.splits if_splits)

section \<open>Properties\<close>

text \<open>C15. The parser reads its own layout. Take a well-formed shred, data or code, resigned or not, and the packet that puts
  its parts where \<^verbatim>\<open>parse_from_bytes\<close> looks for them: the headers, the payload (of a data shred just as long as the size
  field says, with no filler after it), the retransmitter's signature if the shred is resigned, the root, the proof. That packet,
  followed by any bytes, parses to the shred, for any \<open>bincode\<close> with the documented layout of the two small headers. It is not the
  layout of the comments and of the design notes, which put the root and the proof behind the filler of the payload and
  the signature at the end of the packet; \<open>documented_layout_read\<close> says what the parser makes of that one.\<close>

theorem shred_parse_roundtrip:
  assumes "bincode_data_header de_data" "bincode_coding_header de_coding"
    and "shred_ok s r" "length sig = (if r then 64 else 0)"
  shows "parse_from_bytes de_data de_coding (shred_bytes s sig @ rest) = Some s"
  using assms by (rule shred_roundtrip)

definition example_code_shred :: shred where
  "example_code_shred = MerkleCode
     \<lparr> ch_signature = replicate 64 1, ch_shred_variant = 0x62, ch_slot = 9, ch_index = 3, ch_version = 7, ch_fec_set_index = 2 \<rparr>
     \<lparr> cdh_num_data_shreds = 32, cdh_num_coding_shreds = 32, cdh_position = 1 \<rparr>
     (replicate 32 4) [replicate 20 5, replicate 20 6] (replicate 1067 8)"

definition example_data_shred :: shred where
  "example_data_shred = MerkleData
     \<lparr> ch_signature = replicate 64 1, ch_shred_variant = 0xB1, ch_slot = 9, ch_index = 3, ch_version = 7, ch_fec_set_index = 2 \<rparr>
     \<lparr> dh_parent_offset = 1, dh_flags = 0xC0, dh_size = 91 \<rparr> (replicate 32 4) [replicate 20 5] [10, 11, 12]"

lemma examples_ok: "shred_ok example_code_shred False" "shred_ok example_data_shred True"
  by (simp_all add: shred_ok_def example_code_shred_def example_data_shred_def code_length_def shred_sizes)

theorem shred_parse_roundtrip_witness:
  "parse_from_bytes le_data_header le_coding_header (shred_bytes example_data_shred (replicate 64 2) @ [1])
     = Some example_data_shred"
  using shred_parse_roundtrip [OF le_data_header_ok le_coding_header_ok examples_ok(2), of "replicate 64 2" "[1]"] by simp

text \<open>C21. The documented layout is not the one the parser reads. Take the packet of a well-formed shred as \<^verbatim>\<open>shred_header.rs\<close>
  and \<^verbatim>\<open>TVU_DESIGN.md\<close> 4.4 describe it: after the payload come the filler up to the capacity (of a data shred, of any length), the
  root, the proof, and last the retransmitter's signature if the shred is resigned. It parses, with the same headers and the same
  payload, but the root is the 32 bytes right after the payload (of a resigned shred: 64 bytes further on) and the proof
  entries are the next 20-byte pieces, whatever stands there: filler, or pieces of the root, the proof and the
  signature. Recovery uses the payload only.\<close>

theorem documented_layout_read:
  assumes "bincode_data_header de_data" "bincode_coding_header de_coding"
    and "shred_ok s r" "length sig = (if r then 64 else 0)"
  shows "parse_from_bytes de_data de_coding (documented_bytes s filler sig @ rest) =
    Some (with_merkle_part s (drop (if r then 64 else 0) (documented_tail s filler sig @ rest)))"
  using assms by (rule documented_parse)

text \<open>A resigned data shred with four bytes of filler: the root that comes out is the last 8 bytes of the proof's entry and 24 bytes
  of the signature.\<close>

theorem documented_layout_read_witness:
  "parse_from_bytes le_data_header le_coding_header (documented_bytes example_data_shred (replicate 4 0) (replicate 64 2))
     = Some (with_merkle_part example_data_shred (replicate 56 2)) \<and>
   shred_root (with_merkle_part example_data_shred (replicate 56 2)) \<noteq> shred_root example_data_shred"
  using documented_layout_read [OF le_data_header_ok le_coding_header_ok examples_ok(2), of "replicate 64 2" "replicate 4 0" "[]"]
  by (simp add: example_data_shred_def entries_of_def)

text \<open>A packet that parses as a code shred is at least 1228 bytes long, and its payload has the length
  that its variant byte fixes: code shreds of one variant all have one size.\<close>

theorem code_shred_size:
  assumes "parse_from_bytes de_data de_coding bs = Some (MerkleCode ch h root ps code)"
  shows "\<exists>r. get_shred_variant bs = Some (MerkleCodeVariant (word_of_nat (length ps)) r) \<and>
    length code = code_length (length ps) r \<and> length bs \<ge> 1228"
  using assms by (rule parse_code_length)

theorem code_shred_size_witness:
  "\<exists>r. get_shred_variant (shred_bytes example_code_shred []) = Some (MerkleCodeVariant 2 r) \<and> code_length 2 r = 1067"
proof -
  obtain ch h root ps code where e: "example_code_shred = MerkleCode ch h root ps code" "length ps = 2" "length code = 1067"
    by (simp add: example_code_shred_def)
  have "parse_from_bytes le_data_header le_coding_header (shred_bytes example_code_shred [])
      = Some (MerkleCode ch h root ps code)"
    using shred_roundtrip [OF le_data_header_ok le_coding_header_ok examples_ok(1), of "[]" "[]"]
    by (simp only: append_Nil2 if_False list.size e(1) [symmetric] simp_thms)
  from code_shred_size [OF this] show ?thesis using e(2,3) by auto
qed

text \<open>A packet that parses as a data shred: the payload is the range that the header's size field names,
  the root and the proof entries follow it, after the retransmitter's signature of a resigned variant.\<close>

theorem data_shred_layout:
  assumes "parse_from_bytes de_data de_coding bs = Some (MerkleData ch h root ps data)"
  shows "\<exists>r. get_shred_variant bs = Some (MerkleDataVariant (word_of_nat (length ps)) r) \<and>
    data = take (unat (dh_size h) - 88) (drop 88 bs) \<and> length data = unat (dh_size h) - 88 \<and>
    root = take 32 (drop (unat (dh_size h) + (if r then 64 else 0)) bs) \<and> length root = 32 \<and>
    (\<forall>p \<in> set ps. length p = 20)"
proof -
  obtain p r where v: "get_shred_variant bs = Some (MerkleDataVariant p r)"
    and P: "parse_data de_data bs ch (unat p) r = Some (MerkleData ch h root ps data)"
    using assms by (auto simp: parse_from_bytes_def parse_data_def parse_code_def Let_def
      split: option.splits shred_variant.splits)
  have "length ps = unat p \<and> (\<forall>p \<in> set ps. length p = 20)"
    using P by (auto simp: parse_data_def Let_def dest!: read_proof_length split: option.splits if_splits)
  moreover from P have "data = take (unat (dh_size h) - 88) (drop 88 bs)" "length data = unat (dh_size h) - 88"
    "root = take 32 (drop (unat (dh_size h) + (if r then 64 else 0)) bs)" "length root = 32"
    by (auto simp: parse_data_def read_arr_def get_range_Some Let_def shred_sizes split: option.splits if_splits)
  ultimately show ?thesis using v by (intro exI [of _ r]) simp
qed

theorem data_shred_layout_witness:
  "\<exists>r. get_shred_variant (shred_bytes example_data_shred (replicate 64 2)) = Some (MerkleDataVariant 1 r)"
  using data_shred_layout [of le_data_header le_coding_header "shred_bytes example_data_shred (replicate 64 2)"]
    shred_roundtrip [OF le_data_header_ok le_coding_header_ok examples_ok(2), of "replicate 64 2" "[]"]
  by (auto simp: example_data_shred_def)

end
