(* ===== verification/Gf256.thy ===== *)
theory Gf256
  imports Prelude
begin

text \<open>
  \<^verbatim>\<open>crates/dc-tvu/src/gf256.rs\<close>: byte arithmetic in GF(2^8) with the primitive polynomial 0x11D,
  by logarithm tables. The tables are the source's, entry by entry. The theory proves them
  consistent, the table multiplication equal to shift-and-reduce multiplication, and the field
  laws; the type \<open>gf\<close> then instantiates the class \<open>field\<close>, so that the Reed-Solomon proofs use the
  library's algebra.
\<close>

section \<open>The tables\<close>

definition LOG :: "u8 list" where
  "LOG = [
     0, 0, 1, 25, 2, 50, 26, 198, 3, 223, 51, 238, 27, 104, 199, 75,
     4, 100, 224, 14, 52, 141, 239, 129, 28, 193, 105, 248, 200, 8, 76, 113,
     5, 138, 101, 47, 225, 36, 15, 33, 53, 147, 142, 218, 240, 18, 130, 69,
     29, 181, 194, 125, 106, 39, 249, 185, 201, 154, 9, 120, 77, 228, 114, 166,
     6, 191, 139, 98, 102, 221, 48, 253, 226, 152, 37, 179, 16, 145, 34, 136,
     54, 208, 148, 206, 143, 150, 219, 189, 241, 210, 19, 92, 131, 56, 70, 64,
     30, 66, 182, 163, 195, 72, 126, 110, 107, 58, 40, 84, 250, 133, 186, 61,
     202, 94, 155, 159, 10, 21, 121, 43, 78, 212, 229, 172, 115, 243, 167, 87,
     7, 112, 192, 247, 140, 128, 99, 13, 103, 74, 222, 237, 49, 197, 254, 24,
     227, 165, 153, 119, 38, 184, 180, 124, 17, 68, 146, 217, 35, 32, 137, 46,
     55, 63, 209, 91, 149, 188, 207, 205, 144, 135, 151, 178, 220, 252, 190, 97,
     242, 86, 211, 171, 20, 42, 93, 158, 132, 60, 57, 83, 71, 109, 65, 162,
     31, 45, 67, 216, 183, 123, 164, 118, 196, 23, 73, 236, 127, 12, 111, 246,
     108, 161, 59, 82, 41, 157, 85, 170, 251, 96, 134, 177, 187, 204, 62, 90,
     203, 89, 95, 176, 156, 169, 160, 81, 11, 245, 22, 235, 122, 117, 44, 215,
     79, 174, 213, 233, 230, 231, 173, 232, 116, 214, 244, 234, 168, 80, 88, 175]"

definition ALOG :: "u8 list" where
  "ALOG = [
     1, 2, 4, 8, 16, 32, 64, 128, 29, 58, 116, 232, 205, 135, 19, 38,
     76, 152, 45, 90, 180, 117, 234, 201, 143, 3, 6, 12, 24, 48, 96, 192,
     157, 39, 78, 156, 37, 74, 148, 53, 106, 212, 181, 119, 238, 193, 159, 35,
     70, 140, 5, 10, 20, 40, 80, 160, 93, 186, 105, 210, 185, 111, 222, 161,
     95, 190, 97, 194, 153, 47, 94, 188, 101, 202, 137, 15, 30, 60, 120, 240,
     253, 231, 211, 187, 107, 214, 177, 127, 254, 225, 223, 163, 91, 182, 113, 226,
     217, 175, 67, 134, 17, 34, 68, 136, 13, 26, 52, 104, 208, 189, 103, 206,
     129, 31, 62, 124, 248, 237, 199, 147, 59, 118, 236, 197, 151, 51, 102, 204,
     133, 23, 46, 92, 184, 109, 218, 169, 79, 158, 33, 66, 132, 21, 42, 84,
     168, 77, 154, 41, 82, 164, 85, 170, 73, 146, 57, 114, 228, 213, 183, 115,
     230, 209, 191, 99, 198, 145, 63, 126, 252, 229, 215, 179, 123, 246, 241, 255,
     227, 219, 171, 75, 150, 49, 98, 196, 149, 55, 110, 220, 165, 87, 174, 65,
     130, 25, 50, 100, 200, 141, 7, 14, 28, 56, 112, 224, 221, 167, 83, 166,
     81, 162, 89, 178, 121, 242, 249, 239, 195, 155, 43, 86, 172, 69, 138, 9,
     18, 36, 72, 144, 61, 122, 244, 245, 247, 243, 251, 235, 203, 139, 11, 22,
     44, 88, 176, 125, 250, 233, 207, 131, 27, 54, 108, 216, 173, 71, 142, 1]"

section \<open>The operations\<close>

definition gf_add :: "u8 \<Rightarrow> u8 \<Rightarrow> u8" where
  "gf_add a b = a XOR b"

definition gf_sub :: "u8 \<Rightarrow> u8 \<Rightarrow> u8" where
  "gf_sub a b = a XOR b"

definition gf_mul :: "u8 \<Rightarrow> u8 \<Rightarrow> u8" where
  "gf_mul a b =
     (if a = 0 \<or> b = 0 then 0
      else let log_sum = (ucast (LOG ! unat a) :: u16) + ucast (LOG ! unat b)
           in ALOG ! unat (log_sum mod 255))"

definition gf_inv :: "u8 \<Rightarrow> u8" where
  "gf_inv a = (if a = 0 then 0 else ALOG ! (255 - unat (LOG ! unat a)))"

section \<open>The tables are consistent\<close>

text \<open>Doubling in the field: shift left, and reduce by 0x1D when bit 7 was set.\<close>

definition xtime :: "u8 \<Rightarrow> u8" where
  "xtime a = push_bit 1 a XOR (if bit a 7 then 29 else 0)"

lemma length_LOG [simp]: "length LOG = 256"
  by (simp add: LOG_def)

lemma length_ALOG [simp]: "length ALOG = 256"
  by (simp add: ALOG_def)

lemma ALOG_doubles: "map xtime (butlast ALOG) = tl ALOG"
  by (simp add: ALOG_def xtime_def)

lemma ALOG_0: "ALOG ! 0 = 1"
  by (simp add: ALOG_def)

lemma ALOG_255: "ALOG ! 255 = 1"
  by (simp add: ALOG_def)

lemma ALOG_nonzero: "0 \<notin> set ALOG"
  by (simp add: ALOG_def)

lemma LOG_bound: "\<forall>l \<in> set LOG. l \<le> 254"
  by (simp add: LOG_def)

lemma LOG_ALOG_list: "map (\<lambda>l. ALOG ! unat l) (tl LOG) = map word_of_nat [1..<256]"
  by code_simp

lemma nth_LOG_bound: "a < 256 \<Longrightarrow> unat (LOG ! a) \<le> 254"
  using LOG_bound nth_mem [of a LOG] by (fastforce simp: word_le_nat_alt)

lemma ALOG_LOG: "a \<noteq> 0 \<Longrightarrow> ALOG ! unat (LOG ! unat a) = a"
proof -
  assume "a \<noteq> 0"
  then have pos: "0 < unat a" by (simp add: unat_gt_0)
  let ?k = "unat a - 1"
  have k: "?k < 255" using pos unat_u8_less [of a] by linarith
  have "map (\<lambda>l. ALOG ! unat l) (tl LOG) ! ?k = (map word_of_nat [1..<256] :: u8 list) ! ?k"
    by (simp only: LOG_ALOG_list)
  then have "ALOG ! unat (tl LOG ! ?k) = word_of_nat (1 + ?k)"
    using k by (simp add: nth_tl)
  then show ?thesis using k pos by (simp add: nth_tl)
qed

lemma ALOG_Suc: "k < 255 \<Longrightarrow> ALOG ! Suc k = xtime (ALOG ! k)"
proof -
  assume k: "k < 255"
  have "tl ALOG ! k = map xtime (butlast ALOG) ! k" by (simp only: ALOG_doubles)
  then show ?thesis using k by (simp add: nth_tl nth_butlast)
qed

lemma ALOG_power: "k \<le> 255 \<Longrightarrow> ALOG ! k = (xtime ^^ k) 1"
  by (induction k) (simp_all add: ALOG_0 ALOG_Suc)

lemma xtime_period: "(xtime ^^ 255) 1 = 1"
  using ALOG_power [of 255] ALOG_255 by simp

lemma ALOG_mod: "ALOG ! (k mod 255) = (xtime ^^ k) 1"
proof -
  have "ALOG ! (k mod 255) = (xtime ^^ (k mod 255)) 1"
    by (rule ALOG_power) (simp add: less_imp_le)
  then show ?thesis using funpow_mod_eq [OF xtime_period] by simp
qed

lemma LOG_power: "a \<noteq> 0 \<Longrightarrow> (xtime ^^ unat (LOG ! unat a)) 1 = a"
  using ALOG_power [of "unat (LOG ! unat a)"] ALOG_LOG [of a] nth_LOG_bound [of "unat a"] unat_u8_less [of a]
  by simp

section \<open>Multiplication by the tables is shift-and-reduce multiplication\<close>

text \<open>The reference: for every set bit \<open>i\<close> of \<open>b\<close>, add \<open>a\<close> doubled \<open>i\<close> times.\<close>

definition gf_ref_mul :: "u8 \<Rightarrow> u8 \<Rightarrow> u8" where
  "gf_ref_mul a b = foldr (\<lambda>i acc. (if bit b i then (xtime ^^ i) a else 0) XOR acc) [0..<8] 0"

lemma xtime_xor: "xtime (a XOR b) = xtime a XOR xtime b"
  by (simp add: xtime_def bit_xor_iff xor.assoc xor.left_commute)

lemma xtime_0 [simp]: "xtime 0 = 0"
  by (simp add: xtime_def)

lemma xtime_pow_0 [simp]: "(xtime ^^ k) 0 = 0"
  by (induction k) simp_all

lemma xtime_pow_xor: "(xtime ^^ k) (a XOR b) = (xtime ^^ k) a XOR (xtime ^^ k) b"
  by (induction k) (simp_all add: xtime_xor)

lemma foldr_xor_xtime:
  "xtime (foldr (\<lambda>i acc. (if bit b i then (xtime ^^ i) a else 0) XOR acc) is 0)
   = foldr (\<lambda>i acc. (if bit b i then (xtime ^^ i) (xtime a) else 0) XOR acc) is 0"
  for b :: u8
  by (induction "is") (simp_all add: xtime_xor funpow_swap1)

lemma gf_ref_mul_xtime: "gf_ref_mul (xtime a) b = xtime (gf_ref_mul a b)"
  by (simp only: gf_ref_mul_def foldr_xor_xtime)

lemma foldr_xor_add:
  "foldr (\<lambda>i acc. (if bit (b XOR c) i then f i else 0) XOR acc) is 0
   = foldr (\<lambda>i acc. (if bit b i then f i else 0) XOR acc) is 0
     XOR foldr (\<lambda>i acc. (if bit c i then f i else 0) XOR acc) is 0"
  for b c :: u8 and f :: "nat \<Rightarrow> u8"
  by (induction "is") (simp_all add: bit_xor_iff xor.assoc xor.left_commute)

lemma gf_ref_mul_xor: "gf_ref_mul a (b XOR c) = gf_ref_mul a b XOR gf_ref_mul a c"
  by (simp only: gf_ref_mul_def foldr_xor_add)

lemma gf_ref_mul_0 [simp]: "gf_ref_mul 0 b = 0" "gf_ref_mul a 0 = 0"
  by (simp_all add: gf_ref_mul_def upt_rec)

lemma xtime_pow_1: "i < 8 \<Longrightarrow> (xtime ^^ i) 1 = push_bit i 1"
proof -
  assume "i < 8"
  then have "i \<in> {0, 1, 2, 3, 4, 5, 6, 7}" by auto
  then show ?thesis by (auto simp: xtime_def eval_nat_numeral)
qed

lemma bit_foldr_push_bit:
  "n < 8 \<Longrightarrow> distinct is \<Longrightarrow>
   bit (foldr (\<lambda>i acc. (if bit b i then push_bit i (1::u8) else 0) XOR acc) is 0) n \<longleftrightarrow> n \<in> set is \<and> bit b n"
  for b :: u8
  by (induction "is") (auto simp: bit_xor_iff bit_exp_iff)

lemma gf_ref_mul_1: "gf_ref_mul 1 b = b"
proof (rule bit_word_eqI)
  fix n assume "n < LENGTH(8)"
  moreover have "gf_ref_mul 1 b = foldr (\<lambda>i acc. (if bit b i then push_bit i 1 else 0) XOR acc) [0..<8] 0"
    unfolding gf_ref_mul_def by (rule foldr_cong) (auto simp: xtime_pow_1)
  ultimately show "bit (gf_ref_mul 1 b) n = bit b n"
    by (simp add: bit_foldr_push_bit del: upt_conv_Cons)
qed

lemma unat_ucast_u16: "unat (ucast (a :: u8) :: u16) = unat a"
  by (simp add: unsigned_ucast_eq take_bit_nat_eq_self_iff less_trans [OF unat_u8_less])

lemma gf_mul_power: "a \<noteq> 0 \<Longrightarrow> gf_mul a b = (xtime ^^ unat (LOG ! unat a)) b"
proof (cases "b = 0")
  case False
  assume a: "a \<noteq> 0"
  let ?la = "LOG ! unat a" and ?lb = "LOG ! unat b"
  have bounds: "unat ?la \<le> 254" "unat ?lb \<le> 254"
    by (simp_all add: nth_LOG_bound)
  then have "unat ((ucast ?la :: u16) + ucast ?lb) = unat ?la + unat ?lb"
    by (simp add: unat_word_ariths unat_ucast_u16)
  then have "gf_mul a b = ALOG ! ((unat ?la + unat ?lb) mod 255)"
    using a False by (simp add: gf_mul_def unat_mod_distrib)
  also have "\<dots> = (xtime ^^ unat ?la) ((xtime ^^ unat ?lb) 1)"
    by (simp add: ALOG_mod funpow_add)
  finally show ?thesis using False by (simp add: LOG_power)
qed (simp add: gf_mul_def)

lemma gf_ref_mul_power: "gf_ref_mul ((xtime ^^ k) 1) b = (xtime ^^ k) b"
  by (induction k) (simp_all add: gf_ref_mul_1 gf_ref_mul_xtime)

section \<open>The field laws\<close>

lemma gf_mul_ref: "gf_mul a b = gf_ref_mul a b"
proof (cases "a = 0")
  case False
  then show ?thesis
    using gf_ref_mul_power [of "unat (LOG ! unat a)" b] by (simp add: gf_mul_power LOG_power)
qed (simp add: gf_mul_def)

lemma gf_mul_comm: "gf_mul a b = gf_mul b a"
  by (simp add: gf_mul_def Let_def add.commute)

lemma gf_mul_nonzero: "a \<noteq> 0 \<Longrightarrow> b \<noteq> 0 \<Longrightarrow> gf_mul a b \<noteq> 0"
proof -
  assume "a \<noteq> 0" "b \<noteq> 0"
  then have "gf_mul a b = (xtime ^^ (unat (LOG ! unat a) + unat (LOG ! unat b))) 1"
    by (simp add: gf_mul_power funpow_add LOG_power)
  then have "gf_mul a b = ALOG ! ((unat (LOG ! unat a) + unat (LOG ! unat b)) mod 255)"
    by (simp only: ALOG_mod)
  then have "gf_mul a b \<in> set ALOG" by simp
  then show ?thesis using ALOG_nonzero by metis
qed

lemma gf_mul_0 [simp]: "gf_mul 0 a = 0" "gf_mul a 0 = 0"
  by (simp_all add: gf_mul_def)

lemma gf_mul_1 [simp]: "gf_mul a 1 = a" "gf_mul 1 a = a"
  by (simp_all add: gf_mul_ref gf_ref_mul_1) (metis gf_mul_comm gf_mul_ref gf_ref_mul_1)

lemma gf_mul_power_left: "gf_mul ((xtime ^^ k) a) b = (xtime ^^ k) (gf_mul a b)"
proof (induction k)
  case (Suc k)
  then show ?case by (simp add: gf_mul_ref gf_ref_mul_xtime)
qed simp

lemma gf_mul_assoc: "gf_mul (gf_mul a b) c = gf_mul a (gf_mul b c)"
proof (cases "a = 0")
  case False
  then show ?thesis by (simp add: gf_mul_power gf_mul_power_left)
qed simp

lemma gf_mul_add: "gf_mul a (gf_add b c) = gf_add (gf_mul a b) (gf_mul a c)"
  by (simp add: gf_mul_ref gf_add_def gf_ref_mul_xor)

lemma gf_inv_nonzero: "a \<noteq> 0 \<Longrightarrow> gf_inv a \<noteq> 0"
proof -
  assume "a \<noteq> 0"
  then have "gf_inv a \<in> set ALOG" by (simp add: gf_inv_def)
  then show ?thesis using ALOG_nonzero by metis
qed

lemma gf_mul_inv: "a \<noteq> 0 \<Longrightarrow> gf_mul a (gf_inv a) = 1"
proof -
  assume a: "a \<noteq> 0"
  let ?l = "unat (LOG ! unat a)"
  have l: "?l \<le> 254" by (simp add: nth_LOG_bound)
  have "gf_mul a (gf_inv a) = (xtime ^^ ?l) ((xtime ^^ (255 - ?l)) 1)"
    using a by (simp add: gf_mul_power gf_inv_def ALOG_power)
  also have "\<dots> = (xtime ^^ (?l + (255 - ?l))) 1" by (simp only: funpow_add comp_def)
  also have "\<dots> = 1" using l xtime_period by simp
  finally show ?thesis .
qed

section \<open>The field of bytes as an instance of the class \<open>field\<close>\<close>

datatype gf = GF (byte: u8)

instantiation gf :: field
begin

definition zero_gf :: gf where "0 = GF 0"
definition one_gf :: gf where "1 = GF 1"
definition plus_gf :: "gf \<Rightarrow> gf \<Rightarrow> gf" where "a + b = GF (gf_add (byte a) (byte b))"
definition minus_gf :: "gf \<Rightarrow> gf \<Rightarrow> gf" where "a - b = GF (gf_sub (byte a) (byte b))"
definition uminus_gf :: "gf \<Rightarrow> gf" where "- a = (a :: gf)"
definition times_gf :: "gf \<Rightarrow> gf \<Rightarrow> gf" where "a * b = GF (gf_mul (byte a) (byte b))"
definition inverse_gf :: "gf \<Rightarrow> gf" where "inverse a = GF (gf_inv (byte a))"
definition divide_gf :: "gf \<Rightarrow> gf \<Rightarrow> gf" where "a div b = a * inverse (b :: gf)"

instance
proof
  fix a b c :: gf
  show "a + b + c = a + (b + c)" by (simp add: plus_gf_def gf_add_def xor.assoc)
  show "a + b = b + a" by (simp add: plus_gf_def gf_add_def xor.commute)
  show "0 + a = a" by (simp add: plus_gf_def zero_gf_def gf_add_def)
  show "- a + a = 0" by (simp add: plus_gf_def zero_gf_def uminus_gf_def gf_add_def)
  show "a - b = a + - b" by (simp add: plus_gf_def minus_gf_def uminus_gf_def gf_add_def gf_sub_def)
  show "a * b * c = a * (b * c)" by (simp add: times_gf_def gf_mul_assoc)
  show "a * b = b * a" by (simp add: times_gf_def gf_mul_comm)
  show "1 * a = a" by (simp add: times_gf_def one_gf_def)
  show "(a + b) * c = a * c + b * c"
    by (simp add: times_gf_def plus_gf_def gf_mul_add gf_mul_comm [of _ "byte c"])
  show "(0 :: gf) \<noteq> 1" by (simp add: zero_gf_def one_gf_def)
  show "a \<noteq> 0 \<Longrightarrow> inverse a * a = 1"
    by (cases a) (simp add: inverse_gf_def times_gf_def one_gf_def zero_gf_def gf_mul_comm [of "gf_inv _"] gf_mul_inv)
  show "a div b = a * inverse b" by (rule divide_gf_def)
  show "inverse (0 :: gf) = 0" by (simp add: inverse_gf_def zero_gf_def gf_inv_def)
qed

end

text \<open>The byte operations of the code are the field operations.\<close>

lemma GF_add: "GF (gf_add a b) = GF a + GF b"
  by (simp add: plus_gf_def)

lemma GF_sub: "GF (gf_sub a b) = GF a - GF b"
  by (simp add: minus_gf_def)

lemma GF_mul: "GF (gf_mul a b) = GF a * GF b"
  by (simp add: times_gf_def)

lemma GF_inv: "GF (gf_inv a) = inverse (GF a)"
  by (simp add: inverse_gf_def)

lemma GF_0 [simp]: "GF 0 = 0"
  by (rule zero_gf_def [symmetric])

lemma GF_1 [simp]: "GF 1 = 1"
  by (rule one_gf_def [symmetric])

lemma GF_eq_0 [simp]: "GF a = 0 \<longleftrightarrow> a = 0"
  by (metis GF_0 gf.inject)

lemmas GF_hom = GF_add GF_sub GF_mul GF_inv

section \<open>Properties\<close>

text \<open>C24. Table multiplication is multiplication in GF(2^8): it equals shift-and-reduce multiplication by
  the polynomial 0x11D on all pairs of bytes.\<close>

theorem gf_mul_is_polynomial_mul: "gf_mul a b = gf_ref_mul a b"
  by (rule gf_mul_ref)

text \<open>Multiplying by \<open>gf_inv b\<close> undoes a multiplication by a nonzero \<open>b\<close>, and is never a
  multiplication by zero.\<close>

theorem gf_inv_divides: "b \<noteq> 0 \<Longrightarrow> gf_mul (gf_mul a b) (gf_inv b) = a \<and> gf_inv b \<noteq> 0"
  by (simp add: gf_mul_assoc gf_mul_inv gf_inv_nonzero)

theorem gf_inv_divides_witness: "gf_mul (gf_mul 87 25) (gf_inv 25) = 87 \<and> gf_inv 25 \<noteq> 0"
  using gf_inv_divides [of 25 87] by simp

end
