(* ===== verification/Linear.thy ===== *)
theory Linear
  imports Main
begin

text \<open>
  The linear algebra behind erasure decoding, over any field: a Cauchy system has only the zero
  solution, and Gauss-Jordan elimination on \<open>[A | I]\<close> finds a pivot in every column of an
  injective \<open>A\<close> and ends with \<open>[I | B]\<close> where \<open>B * A = I\<close>. Matrices are functions of row and
  column here; \<^verbatim>\<open>ReedSolomon\<close> connects them to the byte matrices of the code.
\<close>

section \<open>Cauchy systems\<close>

lemma cauchy_term_step:
  fixes a b c v :: "'a::field"
  assumes "a \<noteq> b" "c \<noteq> b"
  shows "v / (a - b) * (a - d) - v / (c - b) * (c - d) = (a - c) * (v * (d - b) / (c - b) / (a - b))"
proof -
  have nz: "a - b \<noteq> 0" "c - b \<noteq> 0" using assms by auto
  have "v / (a - b) * (a - d) - v / (c - b) * (c - d)
      = (v * (a - d) * (c - b) - v * (c - d) * (a - b)) / ((a - b) * (c - b))"
    using nz by (simp add: diff_frac_eq)
  also have "v * (a - d) * (c - b) - v * (c - d) * (a - b) = (a - c) * (v * (d - b))"
    by (simp add: algebra_simps)
  finally show ?thesis by (simp add: mult.commute)
qed

text \<open>
  If \<open>\<Sum>j\<in>J. v j / (x - y j) = 0\<close> at as many points \<open>x\<close> as there are terms, every \<open>v j\<close> is zero:
  eliminate one term with one point and repeat.
\<close>

lemma cauchy_kernel:
  fixes y :: "'i \<Rightarrow> 'a::field"
  assumes "finite J" "inj_on y J" "finite X" "card X = card J" "X \<inter> y ` J = {}"
    and "\<forall>x \<in> X. (\<Sum>j\<in>J. v j / (x - y j)) = 0"
  shows "\<forall>j \<in> J. v j = 0"
  using assms
proof (induction "card J" arbitrary: J X v)
  case 0
  then show ?case by simp
next
  case (Suc n)
  obtain j0 J' where J: "J = insert j0 J'" "j0 \<notin> J'" "card J' = n"
    using Suc.hyps(2) by (metis card_eq_SucD)
  obtain x0 X' where X: "X = insert x0 X'" "x0 \<notin> X'" "card X' = n"
    using Suc.hyps(2) Suc.prems(4) by (metis card_eq_SucD)
  have fin: "finite J'" "finite X'" using Suc.prems(1,3) J(1) X(1) by auto
  have off: "x \<noteq> y j" if "x \<in> X" "j \<in> J" for x j using Suc.prems(5) that by auto
  let ?w = "\<lambda>j. v j * (y j0 - y j) / (x0 - y j)"
  have "(\<Sum>j\<in>J'. ?w j / (x - y j)) = 0" if x: "x \<in> X'" for x
  proof -
    have xX: "x \<in> X" "x0 \<in> X" using x X(1) by auto
    have eq: "(\<Sum>j\<in>J. v j / (z - y j) * (z - y j0)) = 0" if "z \<in> X" for z
    proof -
      have "(\<Sum>j\<in>J. v j / (z - y j)) * (z - y j0) = 0" using Suc.prems(6) that by simp
      then show ?thesis by (simp only: sum_distrib_right)
    qed
    have "0 = (\<Sum>j\<in>J. v j / (x - y j) * (x - y j0) - v j / (x0 - y j) * (x0 - y j0))"
      by (simp only: sum_subtractf eq [OF xX(1)] eq [OF xX(2)] diff_self)
    also have "\<dots> = (\<Sum>j\<in>J. (x - x0) * (?w j / (x - y j)))"
      by (rule sum.cong) (simp_all only: cauchy_term_step off xX not_False_eq_True refl)
    also have "\<dots> = (x - x0) * (\<Sum>j\<in>J'. ?w j / (x - y j))"
      using J fin by (simp add: sum_distrib_left)
    finally show ?thesis using x X(2) by auto
  qed
  then have "\<forall>j \<in> J'. ?w j = 0"
    using Suc.prems(2,5) J X fin by (intro Suc.hyps(1) [of J' X' ?w]) (auto simp: inj_on_def)
  then have rest: "\<forall>j \<in> J'. v j = 0"
    using Suc.prems(2) J off X(1) by (auto simp: inj_on_def)
  have "(\<Sum>j\<in>J. v j / (x0 - y j)) = v j0 / (x0 - y j0)"
    using J fin rest by simp
  then have "v j0 = 0" using Suc.prems(6) X(1) J(1) off [of x0 j0] by auto
  with rest show ?case using J(1) by simp
qed

section \<open>One step of Gauss-Jordan elimination\<close>

definition swap_rows :: "(nat \<Rightarrow> nat \<Rightarrow> 'a) \<Rightarrow> nat \<Rightarrow> nat \<Rightarrow> nat \<Rightarrow> nat \<Rightarrow> 'a" where
  "swap_rows m c p r = (if r = c then m p else if r = p then m c else m r)"

definition pivot_row :: "(nat \<Rightarrow> nat \<Rightarrow> 'a::field) \<Rightarrow> nat \<Rightarrow> nat \<Rightarrow> nat \<Rightarrow> 'a" where
  "pivot_row m c p j = m p j * inverse (m p c)"

definition pivot_step :: "(nat \<Rightarrow> nat \<Rightarrow> 'a::field) \<Rightarrow> nat \<Rightarrow> nat \<Rightarrow> nat \<Rightarrow> nat \<Rightarrow> 'a" where
  "pivot_step m c p r j =
     (if r = c then pivot_row m c p j
      else swap_rows m c p r j - swap_rows m c p r c * pivot_row m c p j)"

text \<open>Every row \<open>[u | w]\<close> of the augmented matrix satisfies \<open>u = w * A\<close>.\<close>

definition row_rel :: "nat \<Rightarrow> (nat \<Rightarrow> nat \<Rightarrow> 'a::field) \<Rightarrow> (nat \<Rightarrow> 'a) \<Rightarrow> bool" where
  "row_rel n A row \<longleftrightarrow> (\<forall>j<n. row j = (\<Sum>k<n. row (n + k) * A k j))"

text \<open>The left half has no larger kernel than \<open>A\<close>.\<close>

definition kernel_le :: "nat \<Rightarrow> (nat \<Rightarrow> nat \<Rightarrow> 'a::field) \<Rightarrow> (nat \<Rightarrow> nat \<Rightarrow> 'a) \<Rightarrow> bool" where
  "kernel_le n m A \<longleftrightarrow>
     (\<forall>v. (\<forall>r<n. (\<Sum>j<n. m r j * v j) = 0) \<longrightarrow> (\<forall>r<n. (\<Sum>j<n. A r j * v j) = 0))"

definition injective :: "nat \<Rightarrow> (nat \<Rightarrow> nat \<Rightarrow> 'a::field) \<Rightarrow> bool" where
  "injective n A \<longleftrightarrow> (\<forall>v. (\<forall>r<n. (\<Sum>j<n. A r j * v j) = 0) \<longrightarrow> (\<forall>j<n. v j = 0))"

definition unit_cols :: "nat \<Rightarrow> nat \<Rightarrow> (nat \<Rightarrow> nat \<Rightarrow> 'a::field) \<Rightarrow> bool" where
  "unit_cols n k m \<longleftrightarrow> (\<forall>c<k. \<forall>r<n. m r c = (if r = c then 1 else 0))"

definition gj_inv :: "nat \<Rightarrow> (nat \<Rightarrow> nat \<Rightarrow> 'a::field) \<Rightarrow> nat \<Rightarrow> (nat \<Rightarrow> nat \<Rightarrow> 'a) \<Rightarrow> bool" where
  "gj_inv n A k m \<longleftrightarrow> (\<forall>r<n. row_rel n A (m r)) \<and> kernel_le n m A \<and> unit_cols n k m"

lemma kernel_leD:
  "kernel_le n m A \<Longrightarrow> (\<And>r. r < n \<Longrightarrow> (\<Sum>j<n. m r j * v j) = 0) \<Longrightarrow> r < n \<Longrightarrow> (\<Sum>j<n. A r j * v j) = 0"
  by (simp add: kernel_le_def)

lemma injectiveD:
  "injective n A \<Longrightarrow> (\<And>r. r < n \<Longrightarrow> (\<Sum>j<n. A r j * v j) = 0) \<Longrightarrow> j < n \<Longrightarrow> v j = 0"
  by (simp add: injective_def)

lemma row_rel_scale: "row_rel n A row \<Longrightarrow> row_rel n A (\<lambda>j. row j * c)"
  by (simp add: row_rel_def sum_distrib_right mult.assoc mult.commute [of c] mult.left_commute [of _ c])

lemma row_rel_diff: "row_rel n A row \<Longrightarrow> row_rel n A row' \<Longrightarrow> row_rel n A (\<lambda>j. row j - c * row' j)"
  by (simp add: row_rel_def sum_subtractf left_diff_distrib sum_distrib_left mult.assoc)

lemma pivot_step_row_rel:
  assumes "\<forall>r<n. row_rel n A (m r)" "c < n" "p < n" "r < n"
  shows "row_rel n A (pivot_step m c p r)"
proof -
  have p: "row_rel n A (pivot_row m c p)"
    unfolding pivot_row_def using assms by (intro row_rel_scale) simp
  have "row_rel n A (swap_rows m c p r)" using assms by (simp add: swap_rows_def)
  then have "row_rel n A (\<lambda>j. swap_rows m c p r j - swap_rows m c p r c * pivot_row m c p j)"
    using p by (rule row_rel_diff)
  with p show ?thesis by (cases "r = c") (simp_all add: pivot_step_def [abs_def])
qed

lemma pivot_step_kernel:
  assumes K: "kernel_le n m A" and cp: "c < n" "p < n" "m p c \<noteq> 0"
  shows "kernel_le n (pivot_step m c p) A"
  unfolding kernel_le_def
proof (rule allI, rule impI)
  fix v assume v: "\<forall>r<n. (\<Sum>j<n. pivot_step m c p r j * v j) = 0"
  have P: "(\<Sum>j<n. pivot_row m c p j * v j) = 0"
    using v cp(1) by (force simp: pivot_step_def)
  have "(\<Sum>j<n. m p j * v j) * inverse (m p c) = 0"
    using P by (simp add: pivot_row_def sum_distrib_right mult.assoc mult.commute [of "inverse _"])
  then have mp: "(\<Sum>j<n. m p j * v j) = 0" using cp(3) by simp
  have S: "(\<Sum>j<n. swap_rows m c p r j * v j) = 0" if "r < n" for r
  proof (cases "r = c")
    case True
    then show ?thesis using mp by (simp add: swap_rows_def)
  next
    case False
    have "pivot_step m c p r = (\<lambda>j. swap_rows m c p r j - swap_rows m c p r c * pivot_row m c p j)"
      by (rule ext) (simp add: pivot_step_def False)
    then have "0 = (\<Sum>j<n. (swap_rows m c p r j - swap_rows m c p r c * pivot_row m c p j) * v j)"
      using v that by metis
    also have "\<dots> = (\<Sum>j<n. swap_rows m c p r j * v j) - swap_rows m c p r c * (\<Sum>j<n. pivot_row m c p j * v j)"
      by (simp add: left_diff_distrib sum_subtractf sum_distrib_left mult.assoc)
    finally show ?thesis using P by simp
  qed
  have "(\<Sum>j<n. m r j * v j) = 0" if "r < n" for r
  proof (cases "r = p")
    case False
    then show ?thesis using S [OF that] S [OF cp(2)] mp
      by (cases "r = c") (auto simp: swap_rows_def split: if_splits)
  qed (simp add: mp)
  then show "\<forall>r<n. (\<Sum>j<n. A r j * v j) = 0" using K by (auto simp: kernel_le_def)
qed

lemma pivot_step_unit_cols:
  assumes U: "unit_cols n c m" and cp: "c \<le> p" "p < n" "m p c \<noteq> 0"
  shows "unit_cols n (Suc c) (pivot_step m c p)"
  unfolding unit_cols_def
proof (intro allI impI)
  fix k r assume k: "k < Suc c" and r: "r < n"
  have low: "m i k = (if i = k then 1 else 0)" if "k < c" "i < n" for i
    using U that by (simp add: unit_cols_def)
  show "pivot_step m c p r k = (if r = k then 1 else 0)"
  proof (cases "k = c")
    case True
    then show ?thesis using cp by (auto simp: pivot_step_def pivot_row_def)
  next
    case False
    then have "k < c" using k by simp
    then show ?thesis using low [of p] low [of c] low [of r] cp r
      by (auto simp: pivot_step_def pivot_row_def swap_rows_def)
  qed
qed

lemma pivot_exists:
  assumes A: "injective n A" and I: "gj_inv n A c m" and c: "c < n"
  shows "\<exists>p. c \<le> p \<and> p < n \<and> m p c \<noteq> 0"
proof (rule ccontr)
  assume "\<not> ?thesis"
  then have zero: "m r c = 0" if "c \<le> r" "r < n" for r using that by blast
  let ?v = "\<lambda>j. if j = c then 1 else if j < c then - m j c else 0"
  have "(\<Sum>j<n. m r j * ?v j) = 0" if r: "r < n" for r
  proof -
    have split: "{..<n} = {..<c} \<union> insert c {c<..<n}" using c by auto
    have low: "m r j = (if r = j then 1 else 0)" if "j < c" for j
      using I r that by (simp add: gj_inv_def unit_cols_def)
    have "(\<Sum>j<c. m r j * ?v j) = (\<Sum>j<c. (if r = j then - m j c else 0))"
      by (rule sum.cong) (auto simp: low)
    moreover have "(\<Sum>j\<in>insert c {c<..<n}. m r j * ?v j) = m r c" by simp
    moreover have "(\<Sum>j<n. m r j * ?v j) = (\<Sum>j<c. m r j * ?v j) + (\<Sum>j\<in>insert c {c<..<n}. m r j * ?v j)"
      unfolding split by (rule sum.union_disjoint) auto
    ultimately have "(\<Sum>j<n. m r j * ?v j) = (\<Sum>j<c. (if r = j then - m j c else 0)) + m r c"
      by simp
    then show ?thesis using zero [of r] r by (cases "r < c") (auto simp: sum.delta)
  qed
  then have "(\<Sum>j<n. A r j * ?v j) = 0" if "r < n" for r
    using I that kernel_leD [of n m A ?v r] by (simp add: gj_inv_def)
  then have "?v c = 0" using A c injectiveD [of n A ?v c] by simp
  then show False by simp
qed

lemma gj_inv_step:
  "gj_inv n A c m \<Longrightarrow> c < n \<Longrightarrow> c \<le> p \<Longrightarrow> p < n \<Longrightarrow> m p c \<noteq> 0 \<Longrightarrow> gj_inv n A (Suc c) (pivot_step m c p)"
  by (simp add: gj_inv_def pivot_step_row_rel pivot_step_kernel pivot_step_unit_cols)

lemma gj_inv_cong:
  assumes E: "\<And>r j. r < n \<Longrightarrow> j < 2 * n \<Longrightarrow> m r j = m' r j" and k: "k \<le> n" and I: "gj_inv n A k m"
  shows "gj_inv n A k m'"
proof -
  have "\<forall>r<n. row_rel n A (m' r)" using I by (simp add: gj_inv_def row_rel_def flip: E)
  moreover have "kernel_le n m' A" using I by (simp add: gj_inv_def kernel_le_def flip: E)
  moreover have "unit_cols n k m'" using I k by (simp add: gj_inv_def unit_cols_def flip: E)
  ultimately show ?thesis by (simp add: gj_inv_def)
qed

lemma gj_inv_start:
  assumes "\<And>r j. r < n \<Longrightarrow> j < n \<Longrightarrow> m r j = A r j"
    and "\<And>r j. r < n \<Longrightarrow> j < n \<Longrightarrow> m r (n + j) = (if r = j then 1 else 0)"
  shows "gj_inv n A 0 m"
proof -
  have "row_rel n A (m r)" if "r < n" for r
  proof -
    have "(\<Sum>k<n. m r (n + k) * A k j) = A r j" for j
      using assms(2) that by (simp add: if_distribR sum.delta if_distrib [of "\<lambda>x. x * _"] cong: if_cong)
    then show ?thesis using assms(1) that by (simp add: row_rel_def)
  qed
  then show ?thesis using assms(1) by (simp add: gj_inv_def kernel_le_def unit_cols_def)
qed

text \<open>At the end the right half is a left inverse, and it solves the system.\<close>

lemma gj_inv_solves:
  assumes I: "gj_inv n A n m" and i: "i < n"
    and rec: "\<And>k. k < n \<Longrightarrow> b k = (\<Sum>j<n. A k j * d j)"
  shows "(\<Sum>k<n. m i (n + k) * b k) = d i"
proof -
  have inv: "(\<Sum>k<n. m i (n + k) * A k j) = (if i = j then 1 else 0)" if "j < n" for j
    using I i that by (auto simp: gj_inv_def row_rel_def unit_cols_def)
  have "(\<Sum>k<n. m i (n + k) * b k) = (\<Sum>k<n. \<Sum>j<n. m i (n + k) * A k j * d j)"
    by (simp add: rec sum_distrib_left mult.assoc)
  also have "\<dots> = (\<Sum>j<n. (\<Sum>k<n. m i (n + k) * A k j) * d j)"
    by (subst sum.swap) (simp add: sum_distrib_right)
  also have "\<dots> = (\<Sum>j<n. (if i = j then 1 else 0) * d j)"
    using inv by simp
  also have "\<dots> = d i" using i by (simp add: if_distribR if_distrib [of "\<lambda>x. x * _"] cong: if_cong)
  finally show ?thesis .
qed

section \<open>Generator rows of a systematic Cauchy code\<close>

text \<open>
  Row \<open>idx\<close> of the generator matrix \<open>[I ; C]\<close>: a unit vector for a data row, a Cauchy row
  otherwise. Any \<open>n\<close> distinct rows form an injective matrix.
\<close>

definition gen_row :: "nat \<Rightarrow> (nat \<Rightarrow> nat \<Rightarrow> 'a::field) \<Rightarrow> nat \<Rightarrow> nat \<Rightarrow> 'a" where
  "gen_row n C idx j = (if idx < n then (if j = idx then 1 else 0) else C (idx - n) j)"

lemma missing_cols_card:
  assumes "distinct rows" "length rows = n"
  shows "card {i. n + i \<in> set rows} = card ({..<n} - set rows)"
proof -
  let ?lo = "set rows \<inter> {..<n}" and ?hi = "{i. n + i \<in> set rows}"
  have "set rows = ?lo \<union> (+) n ` ?hi"
    by (auto simp: image_iff) (metis le_add_diff_inverse not_less)
  moreover have "?lo \<inter> (+) n ` ?hi = {}" by auto
  moreover have fin: "finite ((+) n ` ?hi)"
    by (rule finite_subset [of _ "set rows"]) auto
  ultimately have "card (set rows) = card ?lo + card ((+) n ` ?hi)"
    by (metis card_Un_disjoint finite_Int List.finite_set)
  moreover have "card ((+) n ` ?hi) = card ?hi" by (simp add: card_image)
  moreover have "card (set rows) = n" using assms by (simp add: distinct_card)
  moreover have "card ({..<n} - set rows) = n - card ?lo"
    by (metis Diff_Int2 Int_commute card_Diff_subset_Int card_lessThan finite_lessThan finite_Int inf.idem)
  ultimately show ?thesis by simp
qed

lemma gen_rows_injective:
  fixes x y :: "nat \<Rightarrow> 'a::field"
  assumes x: "inj_on x {..<m}" and y: "inj_on y {..<n}"
    and xy: "\<And>i j. i < m \<Longrightarrow> j < n \<Longrightarrow> x i \<noteq> y j"
    and C: "\<And>i j. i < m \<Longrightarrow> j < n \<Longrightarrow> C i j = inverse (x i - y j)"
    and rows: "distinct rows" "length rows = n" "set rows \<subseteq> {..<n + m}"
  shows "injective n (\<lambda>r. gen_row n C (rows ! r))"
  unfolding injective_def
proof (intro allI impI)
  fix v j assume v: "\<forall>r<n. (\<Sum>j<n. gen_row n C (rows ! r) j * v j) = 0" and j: "j < n"
  let ?J = "{..<n} - set rows" and ?K = "{i. n + i \<in> set rows}"
  have eq: "(\<Sum>j<n. gen_row n C idx j * v j) = 0" if "idx \<in> set rows" for idx
    using v that rows(2) by (metis in_set_conv_nth)
  have known: "v k = 0" if "k \<in> set rows" "k < n" for k
    using eq [OF that(1)] that(2) by (simp add: gen_row_def if_distribR if_distrib [of "\<lambda>x. x * _"] cong: if_cong)
  have K: "?K \<subseteq> {..<m}" using rows(3) by auto
  have pt: "(\<Sum>j\<in>?J. v j / (x i - y j)) = 0" if i: "i \<in> ?K" for i
  proof -
    have "(\<Sum>j\<in>?J. v j / (x i - y j)) = (\<Sum>j\<in>?J. gen_row n C (n + i) j * v j)"
      using i K by (intro sum.cong) (auto simp: gen_row_def C divide_inverse mult.commute)
    also have "\<dots> = (\<Sum>j<n. gen_row n C (n + i) j * v j)"
      by (rule sum.mono_neutral_left) (auto simp: known)
    finally show ?thesis using eq i by simp
  qed
  have "\<forall>j \<in> ?J. v j = 0"
  proof (rule cauchy_kernel [where X = "x ` ?K" and y = y])
    have "inj_on x ?K" using x K by (rule inj_on_subset)
    then show "card (x ` ?K) = card ?J"
      by (simp add: card_image missing_cols_card [OF rows(1,2)])
    show "inj_on y ?J" using y by (rule inj_on_subset) auto
    show "finite (x ` ?K)" using K by (auto intro: finite_subset)
    show "x ` ?K \<inter> y ` ?J = {}" using xy K by fastforce
    show "\<forall>z \<in> x ` ?K. (\<Sum>j\<in>?J. v j / (z - y j)) = 0" using pt by auto
  qed simp
  then show "v j = 0" using known j by blast
qed

end
