(* ===== verification/ErasureCode.thy ===== *)
theory ErasureCode
  imports Prelude
begin

text \<open>
  The interface between the FEC batch (\<^verbatim>\<open>fec_batch.rs\<close>) and the erasure code it calls
  (\<^verbatim>\<open>reed_solomon.rs\<close>): a matrix for the batch dimensions, an encoder and a decoder, and the one
  law the batch relies on: any \<open>n\<close> distinct shreds of a batch of \<open>n + m\<close> give the data back.
\<close>

text \<open>A shred list of a batch: \<open>n\<close> data shreds of one common size.\<close>

definition shreds_of_size :: "nat \<Rightarrow> nat \<Rightarrow> bytes list \<Rightarrow> bool" where
  "shreds_of_size n sz data \<longleftrightarrow> length data = n \<and> (\<forall>d \<in> set data. length d = sz)"

lemma shreds_of_size_nth: "shreds_of_size n sz data \<Longrightarrow> i < n \<Longrightarrow> length (data ! i) = sz"
  by (simp add: shreds_of_size_def)

locale erasure_code =
  fixes gen :: "nat \<Rightarrow> nat \<Rightarrow> bytes list"
    and enc :: "bytes list \<Rightarrow> bytes list \<Rightarrow> nat \<Rightarrow> panic + bytes list"
    and dec :: "bytes list \<Rightarrow> nat list \<Rightarrow> bytes list \<Rightarrow> nat \<Rightarrow> panic + bytes list option"
    and supported :: "nat \<Rightarrow> nat \<Rightarrow> bool"
  assumes enc_total:
      "supported n m \<Longrightarrow> shreds_of_size n sz data \<Longrightarrow>
       \<exists>code. enc data (gen n m) m = Inr code \<and> shreds_of_size m sz code"
    and dec_any:
      "supported n m \<Longrightarrow> shreds_of_size n sz data \<Longrightarrow> enc data (gen n m) m = Inr code \<Longrightarrow>
       distinct rows \<Longrightarrow> length rows = n \<Longrightarrow> set rows \<subseteq> {..<n + m} \<Longrightarrow>
       dec (map ((!) (data @ code)) rows) rows (gen n m) n = Inr (Some data)"
begin

text \<open>The encoding is determined by any \<open>n\<close> of its shreds: two batches that agree there agree everywhere.\<close>

lemma determined_by_any:
  assumes "supported n m" "shreds_of_size n sz data" "shreds_of_size n sz' data'"
    and "enc data (gen n m) m = Inr code" "enc data' (gen n m) m = Inr code'"
    and "distinct rows" "length rows = n" "set rows \<subseteq> {..<n + m}"
    and agree: "\<forall>r \<in> set rows. (data @ code) ! r = (data' @ code') ! r"
  shows "data = data'"
proof -
  have "map ((!) (data @ code)) rows = map ((!) (data' @ code')) rows" using agree by simp
  then show ?thesis
    using dec_any [OF assms(1,2,4,6-8)] dec_any [OF assms(1,3,5,6-8)]
    by (metis Inr_inject option.inject)
qed

end

end
