(* ===== verification/ReedSolomon.thy ===== *)
theory ReedSolomon
  imports Gf256 Linear ErasureCode
begin

text \<open>
  \<^verbatim>\<open>crates/dc-tvu/src/reed_solomon.rs\<close>: the Cauchy matrix, the encoder, the decoder and
  Gauss-Jordan inversion on byte matrices. Every slice access that can leave its slice is a
  checked \<open>index_at\<close>. The theory proves that decoding any \<open>n\<close> of \<open>n + m\<close> shreds returns the data,
  for the dimensions at which the matrix really is a Cauchy matrix, and interprets
  \<open>erasure_code\<close> with these functions.
\<close>

section \<open>The code\<close>

definition NUM_DATA_SHREDS :: nat where "NUM_DATA_SHREDS = 32"
definition NUM_CODE_SHREDS :: nat where "NUM_CODE_SHREDS = 32"

text \<open>\<open>i as u8\<close> truncates, as \<open>word_of_nat\<close> does.\<close>

definition generate_cauchy_matrix :: "nat \<Rightarrow> nat \<Rightarrow> bytes list" where
  "generate_cauchy_matrix num_data num_code =
     map (\<lambda>i. map (\<lambda>j. let x_i = word_of_nat i; y_j = word_of_nat (num_data + j)
                        in gf_inv (gf_add x_i y_j)) [0..<num_data]) [0..<num_code]"

definition encode :: "bytes list \<Rightarrow> bytes list \<Rightarrow> nat \<Rightarrow> panic + bytes list" where
  "encode data_shreds cauchy num_code =
     run_bind (index_at data_shreds 0) (\<lambda>d0.
       let shred_size = length d0 in
       run_map (\<lambda>i. run_map (\<lambda>col.
           run_fold (\<lambda>sum j.
               run_bind (index_at data_shreds j) (\<lambda>d.
               run_bind (index_at d col) (\<lambda>x.
               run_bind (index_at cauchy i) (\<lambda>c.
               run_bind (index_at c j) (\<lambda>w. Inr (gf_add sum (gf_mul x w)))))))
             0 [0..<length data_shreds])
         [0..<shred_size]) [0..<num_code])"

text \<open>Gaussian elimination: the pivot search, the swap, the scaling and the clearing of the column.\<close>

definition clear_row :: "nat \<Rightarrow> bytes list \<Rightarrow> nat \<Rightarrow> bytes list" where
  "clear_row col aug row =
     (if row \<noteq> col \<and> aug ! row ! col \<noteq> 0
      then let factor = aug ! row ! col
           in aug[row := map2 (\<lambda>a p. gf_sub a (gf_mul factor p)) (aug ! row) (aug ! col)]
      else aug)"

definition pivot_col :: "nat \<Rightarrow> bytes list \<Rightarrow> nat \<Rightarrow> bytes list option" where
  "pivot_col n aug col =
     (case find (\<lambda>row. aug ! row ! col \<noteq> 0) [col..<n] of
        None \<Rightarrow> None
      | Some pivot \<Rightarrow>
          let aug1 = aug[col := aug ! pivot, pivot := aug ! col];
              inv = gf_inv (aug1 ! col ! col);
              aug2 = aug1[col := map (\<lambda>a. gf_mul a inv) (aug1 ! col)]
          in Some (foldl (clear_row col) aug2 [0..<n]))"

fun eliminate :: "nat \<Rightarrow> nat list \<Rightarrow> bytes list \<Rightarrow> bytes list option" where
  "eliminate n [] aug = Some aug"
| "eliminate n (col # cols) aug =
     (case pivot_col n aug col of None \<Rightarrow> None | Some aug' \<Rightarrow> eliminate n cols aug')"

definition gf_matrix_invert :: "bytes list \<Rightarrow> panic + bytes list option" where
  "gf_matrix_invert matrix =
     (let n = length matrix in
      run_bind (run_map (\<lambda>i. run_bind (run_map (\<lambda>j. run_bind (index_at matrix i) (\<lambda>row. index_at row j)) [0..<n])
                                (\<lambda>left. Inr (left @ (replicate n 0)[i := 1]))) [0..<n])
        (\<lambda>aug. case eliminate n [0..<n] aug of
                  None \<Rightarrow> Inr None
                | Some aug' \<Rightarrow> Inr (Some (map (\<lambda>i. map (\<lambda>j. aug' ! i ! (n + j)) [0..<n]) [0..<n]))))"

text \<open>The matrix of the received rows; \<open>copy_from_slice\<close> panics on a length mismatch.\<close>

definition decode_row :: "bytes list \<Rightarrow> nat \<Rightarrow> nat \<Rightarrow> panic + bytes" where
  "decode_row cauchy num_data idx =
     (if idx < num_data then Inr ((replicate num_data 0)[idx := 1])
      else run_bind (index_at cauchy (idx - num_data))
             (\<lambda>row. if length row = num_data then Inr row else Inl AssertFailed))"

definition decode :: "bytes list \<Rightarrow> nat list \<Rightarrow> bytes list \<Rightarrow> nat \<Rightarrow> panic + bytes list option" where
  "decode received row_indices cauchy num_data =
     (if length received \<noteq> num_data then Inl AssertFailed
      else if length row_indices \<noteq> num_data then Inl AssertFailed
      else run_bind (index_at received 0) (\<lambda>r0.
        let shred_size = length r0 in
        run_bind (run_map (decode_row cauchy num_data) row_indices) (\<lambda>matrix.
        run_bind (gf_matrix_invert matrix) (\<lambda>inverse.
        case inverse of
          None \<Rightarrow> Inr None
        | Some inverted \<Rightarrow>
            run_bind (run_map (\<lambda>i. run_map (\<lambda>col.
                run_fold (\<lambda>sum k.
                    run_bind (index_at inverted i) (\<lambda>row.
                    run_bind (index_at row k) (\<lambda>a.
                    run_bind (index_at received k) (\<lambda>s.
                    run_bind (index_at s col) (\<lambda>x. Inr (gf_add sum (gf_mul a x)))))))
                  0 [0..<num_data])
              [0..<shred_size]) [0..<num_data])
              (\<lambda>recovered. Inr (Some recovered))))))"

section \<open>Matrices of bytes as matrices over the field\<close>

abbreviation entry :: "bytes list \<Rightarrow> nat \<Rightarrow> nat \<Rightarrow> gf" where
  "entry m r j \<equiv> GF (m ! r ! j)"

definition shape :: "nat \<Rightarrow> nat \<Rightarrow> bytes list \<Rightarrow> bool" where
  "shape n w m \<longleftrightarrow> length m = n \<and> (\<forall>r<n. length (m ! r) = w)"

lemma GF_foldl_sum:
  "GF (foldl (\<lambda>s j. gf_add s (gf_mul (f j) (g j))) z [0..<n]) = GF z + (\<Sum>j<n. GF (f j) * GF (g j))"
  by (induction n) (simp_all add: GF_hom add.assoc)

lemma length_cauchy [simp]:
  "length (generate_cauchy_matrix n m) = m"
  "i < m \<Longrightarrow> length (generate_cauchy_matrix n m ! i) = n"
  by (simp_all add: generate_cauchy_matrix_def)

lemma cauchy_entry:
  "i < m \<Longrightarrow> j < n \<Longrightarrow>
   entry (generate_cauchy_matrix n m) i j = inverse (GF (word_of_nat i) - GF (word_of_nat (n + j)))"
  by (simp add: generate_cauchy_matrix_def Let_def GF_inv plus_gf_def minus_gf_def gf_add_def gf_sub_def)

lemma word_of_nat_u8_inj:
  assumes "a < 256" "b < 256" "(word_of_nat a :: u8) = word_of_nat b"
  shows "a = b"
proof -
  have "unat (word_of_nat a :: u8) = a" "unat (word_of_nat b :: u8) = b"
    using assms(1,2) by (simp_all add: unat_of_nat)
  then show ?thesis using assms(3) by metis
qed

section \<open>Elimination on bytes is elimination over the field\<close>

lemma clear_row_shape: "shape n w aug \<Longrightarrow> col < n \<Longrightarrow> shape n w (clear_row col aug row)"
  by (cases "row < n") (auto simp: clear_row_def shape_def Let_def nth_list_update list_update_beyond)

lemma clear_row_entry:
  assumes "shape n w aug" "col < n" "row < n" "j < w" "col < w" "r < n"
  shows "entry (clear_row col aug row) r j =
    (if r = row \<and> r \<noteq> col then entry aug r j - entry aug r col * entry aug col j else entry aug r j)"
  using assms by (auto simp: clear_row_def shape_def Let_def nth_list_update GF_hom)

lemma clear_rows:
  assumes "shape n w aug" "col < n" "col < w" "k \<le> n"
  shows "shape n w (foldl (clear_row col) aug [0..<k]) \<and>
    (\<forall>r<n. \<forall>j<w. entry (foldl (clear_row col) aug [0..<k]) r j =
      (if r < k \<and> r \<noteq> col then entry aug r j - entry aug r col * entry aug col j else entry aug r j))"
  using assms(4)
proof (induction k)
  case 0
  then show ?case using assms(1) by simp
next
  case (Suc k)
  let ?a = "foldl (clear_row col) aug [0..<k]"
  have IH: "shape n w ?a" and E: "\<And>r j. r < n \<Longrightarrow> j < w \<Longrightarrow> entry ?a r j =
      (if r < k \<and> r \<noteq> col then entry aug r j - entry aug r col * entry aug col j else entry aug r j)"
    using Suc by simp_all
  have fold: "foldl (clear_row col) aug [0..<Suc k] = clear_row col ?a k" by simp
  have "entry (clear_row col ?a k) r j =
      (if r < Suc k \<and> r \<noteq> col then entry aug r j - entry aug r col * entry aug col j else entry aug r j)"
    if "r < n" "j < w" for r j
    using that Suc.prems assms(2,3)
    by (subst clear_row_entry [OF IH assms(2)]) (auto simp: E less_Suc_eq)
  then show ?case unfolding fold using clear_row_shape [OF IH assms(2)] by blast
qed

lemma find_upt_Some:
  "find P [a..<b] = Some p \<Longrightarrow> a \<le> p \<and> p < b \<and> P p"
  by (auto simp: find_Some_iff)

text \<open>The swap and the scaling of the pivot row.\<close>

definition prepared :: "bytes list \<Rightarrow> nat \<Rightarrow> nat \<Rightarrow> bytes list" where
  "prepared aug col pivot =
     (let aug1 = aug[col := aug ! pivot, pivot := aug ! col];
          inv = gf_inv (aug1 ! col ! col)
      in aug1[col := map (\<lambda>a. gf_mul a inv) (aug1 ! col)])"

lemma pivot_col_prepared:
  "pivot_col n aug col =
     (case find (\<lambda>row. aug ! row ! col \<noteq> 0) [col..<n] of None \<Rightarrow> None
      | Some p \<Rightarrow> Some (foldl (clear_row col) (prepared aug col p) [0..<n]))"
  by (simp add: pivot_col_def prepared_def Let_def split: option.split)

lemma prepared_spec:
  assumes "shape n w aug" "col < n" "col < w" "p < n"
  shows "shape n w (prepared aug col p)"
    and "r < n \<Longrightarrow> j < w \<Longrightarrow> entry (prepared aug col p) r j =
      (if r = col then pivot_row (entry aug) col p j else swap_rows (entry aug) col p r j)"
  using assms
  by (auto simp: prepared_def shape_def Let_def nth_list_update pivot_row_def swap_rows_def GF_hom)

lemma pivot_col_step:
  assumes "shape n w aug" "col < n" "col < w" "pivot_col n aug col = Some aug'"
  shows "\<exists>p. col \<le> p \<and> p < n \<and> entry aug p col \<noteq> 0 \<and> shape n w aug' \<and>
    (\<forall>r<n. \<forall>j<w. entry aug' r j = pivot_step (entry aug) col p r j)"
proof -
  obtain p where p: "find (\<lambda>row. aug ! row ! col \<noteq> 0) [col..<n] = Some p"
    and aug': "aug' = foldl (clear_row col) (prepared aug col p) [0..<n]"
    using assms(4) by (auto simp: pivot_col_prepared split: option.splits)
  have cp: "col \<le> p" "p < n" "entry aug p col \<noteq> 0" using find_upt_Some [OF p] by auto
  note prep = prepared_spec [OF assms(1,2,3) cp(2)]
  note clr = clear_rows [OF prep(1) assms(2,3) order_refl]
  have "entry aug' r j = pivot_step (entry aug) col p r j" if "r < n" "j < w" for r j
    unfolding aug' using clr that assms(2,3) by (simp add: prep(2) pivot_step_def)
  then show ?thesis using cp clr aug' by auto
qed

lemma eliminate_range:
  assumes "injective n A" "k \<le> n" "shape n (2 * n) aug" "gj_inv n A k (entry aug)"
  shows "\<exists>aug'. eliminate n [k..<n] aug = Some aug' \<and> shape n (2 * n) aug' \<and> gj_inv n A n (entry aug')"
  using assms(2-)
proof (induction "n - k" arbitrary: k aug)
  case 0
  then show ?case by simp
next
  case (Suc d)
  then have k: "k < n" by simp
  obtain p where p: "k \<le> p" "p < n" "entry aug p k \<noteq> 0"
    using pivot_exists [OF assms(1) Suc.prems(3) k] by blast
  then have "find (\<lambda>row. aug ! row ! k \<noteq> 0) [k..<n] \<noteq> None" by (auto simp: find_None_iff)
  then obtain aug1 where aug1: "pivot_col n aug k = Some aug1" by (auto simp: pivot_col_prepared)
  obtain q where q: "k \<le> q" "q < n" "entry aug q k \<noteq> 0" "shape n (2 * n) aug1"
    and E: "\<forall>r<n. \<forall>j<2 * n. entry aug1 r j = pivot_step (entry aug) k q r j"
    using pivot_col_step [OF Suc.prems(2) k _ aug1] k by auto
  have "gj_inv n A (Suc k) (pivot_step (entry aug) k q)"
    using Suc.prems(3) k q by (intro gj_inv_step) simp_all
  then have "gj_inv n A (Suc k) (entry aug1)"
    using E k by (intro gj_inv_cong [of n "pivot_step (entry aug) k q" "entry aug1"]) simp_all
  moreover have "d = n - Suc k" using Suc.hyps(2) by arith
  ultimately obtain aug2 where
    "eliminate n [Suc k..<n] aug1 = Some aug2" "shape n (2 * n) aug2" "gj_inv n A n (entry aug2)"
    using Suc.hyps(1) [of "Suc k" aug1] k q(4) by auto
  then show ?case using aug1 k by (simp add: upt_conv_Cons)
qed

text \<open>Inverting an injective byte matrix succeeds, and the result is a left inverse.\<close>

lemma gf_matrix_invert_ok:
  assumes "shape n n matrix" "injective n (entry matrix)"
  shows "\<exists>inv. gf_matrix_invert matrix = Inr (Some inv) \<and> shape n n inv \<and>
    (\<forall>b d i. (\<forall>k<n. b k = (\<Sum>j<n. entry matrix k j * d j)) \<longrightarrow> i < n \<longrightarrow>
       (\<Sum>k<n. entry inv i k * b k) = d i)"
proof -
  define aug where "aug = map (\<lambda>i. map (\<lambda>j. matrix ! i ! j) [0..<n] @ (replicate n 0)[i := 1 :: u8]) [0..<n]"
  have len: "length matrix = n" using assms(1) by (simp add: shape_def)
  have "run_map (\<lambda>i. run_bind (run_map (\<lambda>j. run_bind (index_at matrix i) (\<lambda>row. index_at row j)) [0..<n])
          (\<lambda>left. Inr (left @ (replicate n 0)[i := 1]))) [0..<n] = (Inr aug :: panic + bytes list)"
    unfolding aug_def
  proof (rule run_map_ok)
    fix i assume "i \<in> set [0..<n]"
    then have "run_map (\<lambda>j. run_bind (index_at matrix i) (\<lambda>row. index_at row j)) [0..<n]
        = Inr (map (\<lambda>j. matrix ! i ! j) [0..<n])"
      using assms(1) by (intro run_map_ok) (simp add: shape_def run_simps)
    then show "run_bind (run_map (\<lambda>j. run_bind (index_at matrix i) (\<lambda>row. index_at row j)) [0..<n])
          (\<lambda>left. Inr (left @ (replicate n 0)[i := 1]))
        = Inr (map (\<lambda>j. matrix ! i ! j) [0..<n] @ (replicate n 0)[i := 1 :: u8])"
      by simp
  qed
  then have run: "gf_matrix_invert matrix = (case eliminate n [0..<n] aug of None \<Rightarrow> Inr None
      | Some aug' \<Rightarrow> Inr (Some (map (\<lambda>i. map (\<lambda>j. aug' ! i ! (n + j)) [0..<n]) [0..<n])))"
    by (simp add: gf_matrix_invert_def len)
  have sh: "shape n (2 * n) aug" by (auto simp: shape_def aug_def)
  have "gj_inv n (entry matrix) 0 (entry aug)"
    by (rule gj_inv_start) (auto simp: aug_def nth_append nth_list_update)
  then obtain aug' where aug': "eliminate n [0..<n] aug = Some aug'" "gj_inv n (entry matrix) n (entry aug')"
    using eliminate_range [OF assms(2) _ sh] by auto
  let ?inv = "map (\<lambda>i. map (\<lambda>j. aug' ! i ! (n + j)) [0..<n]) [0..<n]"
  have "(\<Sum>k<n. entry ?inv i k * b k) = d i"
    if "\<forall>k<n. b k = (\<Sum>j<n. entry matrix k j * d j)" "i < n" for b d i
    using gj_inv_solves [OF aug'(2) that(2), of b d] that by simp
  moreover have "shape n n ?inv" by (simp add: shape_def)
  ultimately show ?thesis using run aug'(1) by auto
qed

section \<open>Encoding and decoding\<close>

text \<open>
  The dimensions for which the matrix is a Cauchy matrix: no more code than data shreds, so that
  \<open>x_i = i\<close> and \<open>y_j = num_data + j\<close> are apart, and all of them below 256, so that \<open>as u8\<close> keeps them.
\<close>

definition cauchy_dims :: "nat \<Rightarrow> nat \<Rightarrow> bool" where
  "cauchy_dims n m \<longleftrightarrow> 0 < n \<and> m \<le> n \<and> 2 * n \<le> 256"

definition code_of :: "bytes list \<Rightarrow> bytes list \<Rightarrow> nat \<Rightarrow> nat \<Rightarrow> bytes list" where
  "code_of data cauchy m sz =
     map (\<lambda>i. map (\<lambda>col. foldl (\<lambda>sum j. gf_add sum (gf_mul (data ! j ! col) (cauchy ! i ! j))) 0
                       [0..<length data]) [0..<sz]) [0..<m]"

lemma encode_ok:
  assumes "shreds_of_size n sz data" "0 < n" "shape m n cauchy"
  shows "encode data cauchy m = Inr (code_of data cauchy m sz)"
proof -
  have d0: "index_at data 0 = Inr (data ! 0)" "length (data ! 0) = sz" and len: "length data = n"
    using assms(1,2) by (simp_all add: shreds_of_size_def index_at_def)
  show ?thesis
    unfolding encode_def d0(1) run_bind_Inr Let_def d0(2) code_of_def len
    by (intro run_map_ok run_fold_ok)
      (use assms in \<open>simp add: run_simps shape_def shreds_of_size_def\<close>)
qed

lemma code_of_size: "shreds_of_size m sz (code_of data cauchy m sz)"
  by (auto simp: shreds_of_size_def code_of_def)

lemma code_of_entry:
  "i < m \<Longrightarrow> col < sz \<Longrightarrow>
   entry (code_of data cauchy m sz) i col = (\<Sum>j<length data. entry data j col * entry cauchy i j)"
  by (simp add: code_of_def GF_foldl_sum)

lemma cauchy_shape: "shape m n (generate_cauchy_matrix n m)"
  by (simp add: shape_def)

lemma decode_row_ok:
  "idx < n + m \<Longrightarrow> shape m n cauchy \<Longrightarrow>
   decode_row cauchy n idx = Inr (if idx < n then (replicate n 0)[idx := 1] else cauchy ! (idx - n))"
  by (auto simp: decode_row_def shape_def run_simps)

lemma decode_rows_injective:
  assumes dims: "cauchy_dims n m" and rows: "distinct rows" "length rows = n" "set rows \<subseteq> {..<n + m}"
  shows "injective n (\<lambda>r. gen_row n (entry (generate_cauchy_matrix n m)) (rows ! r))"
proof (rule gen_rows_injective [OF _ _ _ _ rows, of "\<lambda>i. GF (word_of_nat i)" "\<lambda>j. GF (word_of_nat (n + j))"])
  have inj: "a = b" if "GF (word_of_nat a) = GF (word_of_nat b)" "a < 2 * n" "b < 2 * n" for a b
    using that dims by (intro word_of_nat_u8_inj) (simp_all add: cauchy_dims_def)
  show "inj_on (\<lambda>i. GF (word_of_nat i)) {..<m}"
    using dims by (intro inj_onI inj) (simp_all add: cauchy_dims_def)
  show "inj_on (\<lambda>j. GF (word_of_nat (n + j))) {..<n}"
  proof (rule inj_onI)
    fix a b assume "a \<in> {..<n}" "b \<in> {..<n}" "GF (word_of_nat (n + a)) = GF (word_of_nat (n + b))"
    then show "a = b" using inj [of "n + a" "n + b"] by simp
  qed
  fix i j assume "i < m" "j < n"
  then show "GF (word_of_nat i) \<noteq> GF (word_of_nat (n + j))"
    using inj [of i "n + j"] dims by (auto simp: cauchy_dims_def simp del: of_nat_add)
qed (rule cauchy_entry)

text \<open>Once the matrix of the received rows is inverted, the last loop returns the data.\<close>

lemma decode_inverted:
  assumes "0 < n" "shreds_of_size n sz received" "shreds_of_size n sz data"
    and rows: "length rows = n" "run_map (decode_row cauchy n) rows = Inr matrix"
    and inv: "gf_matrix_invert matrix = Inr (Some inverted)" "shape n n inverted"
    and solves: "\<And>i col. i < n \<Longrightarrow> col < sz \<Longrightarrow> (\<Sum>k<n. entry inverted i k * entry received k col) = entry data i col"
  shows "decode received rows cauchy n = Inr (Some data)"
proof -
  have r0: "index_at received 0 = Inr (received ! 0)" "length (received ! 0) = sz" and len: "length received = n"
    using assms(1,2) by (simp_all add: shreds_of_size_def index_at_def)
  let ?sum = "\<lambda>i col. foldl (\<lambda>sum k. gf_add sum (gf_mul (inverted ! i ! k) (received ! k ! col))) 0 [0..<n]"
  have "run_map (\<lambda>i. run_map (\<lambda>col. run_fold (\<lambda>sum k.
          run_bind (index_at inverted i) (\<lambda>row. run_bind (index_at row k) (\<lambda>a. run_bind (index_at received k) (\<lambda>s.
          run_bind (index_at s col) (\<lambda>x. Inr (gf_add sum (gf_mul a x)))))))
          0 [0..<n]) [0..<sz]) [0..<n] = (Inr (map (\<lambda>i. map (?sum i) [0..<sz]) [0..<n]) :: panic + bytes list)"
    by (intro run_map_ok run_fold_ok)
      (use assms(2) inv(2) in \<open>simp add: run_simps shape_def shreds_of_size_def\<close>)
  moreover have "map (\<lambda>i. map (?sum i) [0..<sz]) [0..<n] = data"
  proof (rule nth_equalityI)
    show "length (map (\<lambda>i. map (?sum i) [0..<sz]) [0..<n]) = length data"
      using assms(3) by (simp add: shreds_of_size_def)
    fix i assume "i < length (map (\<lambda>i. map (?sum i) [0..<sz]) [0..<n])"
    then have i: "i < n" by simp
    have "?sum i col = data ! i ! col" if "col < sz" for col
      using solves [OF i that] by (simp add: GF_foldl_sum flip: gf.inject)
    then show "map (\<lambda>i. map (?sum i) [0..<sz]) [0..<n] ! i = data ! i"
      using i shreds_of_size_nth [OF assms(3) i] by (intro nth_equalityI) simp_all
  qed
  ultimately show ?thesis
    using r0 len rows inv(1) by (simp add: decode_def Let_def)
qed

lemma decode_any:
  assumes dims: "cauchy_dims n m" and data: "shreds_of_size n sz data"
    and enc: "encode data (generate_cauchy_matrix n m) m = Inr code"
    and rows: "distinct rows" "length rows = n" "set rows \<subseteq> {..<n + m}"
  shows "decode (map ((!) (data @ code)) rows) rows (generate_cauchy_matrix n m) n = Inr (Some data)"
proof -
  let ?C = "generate_cauchy_matrix n m"
  have n: "0 < n" using dims by (simp add: cauchy_dims_def)
  have code: "code = code_of data ?C m sz" using enc encode_ok [OF data n cauchy_shape] by simp
  have len: "length data = n" using data by (simp add: shreds_of_size_def)
  define matrix where "matrix = map (\<lambda>idx. if idx < n then (replicate n 0)[idx := 1] else ?C ! (idx - n)) rows"
  have run: "run_map (decode_row ?C n) rows = Inr matrix"
    unfolding matrix_def using rows(3) by (intro run_map_ok) (auto simp: decode_row_ok [OF _ cauchy_shape])
  have E: "entry matrix r j = gen_row n (entry ?C) (rows ! r) j" if "r < n" "j < n" for r j
    using that rows(2) by (auto simp: matrix_def gen_row_def nth_list_update)
  have hi: "rows ! r - n < m" if "r < n" "\<not> rows ! r < n" for r
    using that rows(2,3) by (auto simp: subset_iff dest!: nth_mem)
  then have sh: "shape n n matrix" using rows(2) by (auto simp: shape_def matrix_def)
  have "injective n (entry matrix)"
    using decode_rows_injective [OF dims rows] E by (simp add: injective_def)
  then obtain inv where inv: "gf_matrix_invert matrix = Inr (Some inv)" "shape n n inv"
    and solves: "\<And>b d i. \<forall>k<n. b k = (\<Sum>j<n. entry matrix k j * d j) \<Longrightarrow> i < n \<Longrightarrow> (\<Sum>k<n. entry inv i k * b k) = d i"
    using gf_matrix_invert_ok [OF sh] by blast
  let ?rcv = "map ((!) (data @ code)) rows"
  have rcv: "shreds_of_size n sz ?rcv"
    using data rows(2,3) code_of_size [of m sz data ?C]
    by (auto simp: shreds_of_size_def code nth_append subset_iff)
  have rec: "entry ?rcv k col = (\<Sum>j<n. entry matrix k j * entry data j col)" if "k < n" "col < sz" for k col
  proof (cases "rows ! k < n")
    case True
    then show ?thesis using that rows(2) len
      by (simp add: E gen_row_def nth_append if_distribR if_distrib [of "\<lambda>x. x * _"] cong: if_cong)
  next
    case False
    then have "rows ! k - n < m" using hi that(1) by blast
    then show ?thesis using that False rows(2) len
      by (simp add: E gen_row_def nth_append code code_of_entry mult.commute)
  qed
  show ?thesis
    by (rule decode_inverted [OF n rcv data rows(2) run inv]) (use rec in \<open>auto intro!: solves\<close>)
qed

interpretation rs: erasure_code generate_cauchy_matrix encode decode cauchy_dims
proof
  fix n m sz data assume "cauchy_dims n m" and data: "shreds_of_size n sz data"
  then have "0 < n" by (simp add: cauchy_dims_def)
  from encode_ok [OF data this cauchy_shape] code_of_size
  show "\<exists>code. encode data (generate_cauchy_matrix n m) m = Inr code \<and> shreds_of_size m sz code"
    by blast
qed (rule decode_any)

section \<open>What happens outside the Cauchy dimensions, and with shreds of different sizes\<close>

lemma gf_matrix_invert_zero_col:
  assumes "0 < n" "shape n n matrix" "\<And>r. r < n \<Longrightarrow> matrix ! r ! 0 = 0"
  shows "gf_matrix_invert matrix = Inr None"
proof -
  define aug where "aug = map (\<lambda>i. map (\<lambda>j. matrix ! i ! j) [0..<n] @ (replicate n 0)[i := 1 :: u8]) [0..<n]"
  have len: "length matrix = n" using assms(2) by (simp add: shape_def)
  have left: "run_map (\<lambda>j. run_bind (index_at matrix i) (\<lambda>row. index_at row j)) [0..<n]
      = Inr (map (\<lambda>j. matrix ! i ! j) [0..<n])" if "i < n" for i
    using assms(2) that by (intro run_map_ok) (simp add: shape_def run_simps)
  have run: "run_map (\<lambda>i. run_bind (run_map (\<lambda>j. run_bind (index_at matrix i) (\<lambda>row. index_at row j)) [0..<n])
          (\<lambda>left. Inr (left @ (replicate n 0)[i := 1]))) [0..<n] = (Inr aug :: panic + bytes list)"
    unfolding aug_def by (rule run_map_ok) (simp add: left)
  have "find (\<lambda>row. aug ! row ! 0 \<noteq> 0) [0..<n] = None"
    using assms(1,3) by (auto simp: find_None_iff aug_def nth_append)
  then have "eliminate n [0..<n] aug = None"
    using assms(1) by (simp add: upt_conv_Cons pivot_col_prepared)
  with run show ?thesis by (simp add: gf_matrix_invert_def len)
qed

text \<open>With more code than data shreds \<open>x_n = n = y_0\<close>, and \<open>gf_inv 0 = 0\<close> enters the matrix.\<close>

lemma cauchy_zero_entry: "n < m \<Longrightarrow> 0 < n \<Longrightarrow> generate_cauchy_matrix n m ! n ! 0 = 0"
  by (simp add: generate_cauchy_matrix_def Let_def gf_add_def gf_inv_def)

lemma decode_zero_col:
  assumes "0 < n" "n < m" "length received = n"
  shows "decode received ([1..<n] @ [2 * n]) (generate_cauchy_matrix n m) n = Inr None"
proof -
  let ?C = "generate_cauchy_matrix n m" and ?rows = "[1..<n] @ [2 * n]"
  define matrix where "matrix = map (\<lambda>idx. if idx < n then (replicate n 0)[idx := 1] else ?C ! (idx - n)) ?rows"
  have run: "run_map (decode_row ?C n) ?rows = Inr matrix"
    unfolding matrix_def using assms by (intro run_map_ok) (auto simp: decode_row_ok [OF _ cauchy_shape])
  have "shape n n matrix" "\<And>r. r < n \<Longrightarrow> matrix ! r ! 0 = 0"
    using assms cauchy_zero_entry [OF assms(2,1)]
    by (auto simp: matrix_def shape_def nth_append nth_list_update)
  then have "gf_matrix_invert matrix = Inr None" by (intro gf_matrix_invert_zero_col [OF assms(1)])
  then show ?thesis using assms run by (simp add: decode_def Let_def index_at_def)
qed

text \<open>The decoder sizes every column loop by \<open>received[0]\<close>: a shorter later shred is read past its end.\<close>

lemma index_eq_Inl: "index_at xs i = Inl p \<Longrightarrow> p = IndexOutOfBounds"
  by (auto simp: index_at_def split: if_splits)

lemma decode_short_shred:
  assumes dims: "cauchy_dims n m" and rcv: "length received = n"
    and rows: "distinct rows" "length rows = n" "set rows \<subseteq> {..<n + m}"
    and short: "k < n" "length (received ! k) < length (received ! 0)"
  shows "decode received rows (generate_cauchy_matrix n m) n = Inl IndexOutOfBounds"
proof -
  let ?C = "generate_cauchy_matrix n m"
  have n: "0 < n" using dims by (simp add: cauchy_dims_def)
  define matrix where "matrix = map (\<lambda>idx. if idx < n then (replicate n 0)[idx := 1] else ?C ! (idx - n)) rows"
  have run: "run_map (decode_row ?C n) rows = Inr matrix"
    unfolding matrix_def using rows(3) by (intro run_map_ok) (auto simp: decode_row_ok [OF _ cauchy_shape])
  have hi: "rows ! r - n < m" if "r < n" "\<not> rows ! r < n" for r
    using that rows(2,3) by (auto simp: subset_iff dest!: nth_mem)
  have E: "entry matrix r j = gen_row n (entry ?C) (rows ! r) j" if "r < n" "j < n" for r j
    using that rows(2) by (auto simp: matrix_def gen_row_def nth_list_update)
  have sh: "shape n n matrix" using rows(2) hi by (auto simp: shape_def matrix_def)
  have "injective n (entry matrix)"
    using decode_rows_injective [OF dims rows] E by (simp add: injective_def)
  then obtain inv where inv: "gf_matrix_invert matrix = Inr (Some inv)" "shape n n inv"
    using gf_matrix_invert_ok [OF sh] by blast
  let ?step = "\<lambda>i col sum k. run_bind (index_at inv i) (\<lambda>row. run_bind (index_at row k) (\<lambda>a. run_bind (index_at received k)
      (\<lambda>s. run_bind (index_at s col) (\<lambda>x. Inr (gf_add sum (gf_mul a x))))))"
  have only: "q = IndexOutOfBounds" if "?step i col sum j = Inl q" for i col sum j q
    using that by (auto simp: run_bind_eq_Inl dest: index_eq_Inl)
  have only_fold: "q = IndexOutOfBounds" if "run_fold (?step i col) z js = Inl q" for i col z js q
    using that by (induction js arbitrary: z) (auto simp: run_bind_eq_Inl dest: index_eq_Inl)
  have only_map: "q = IndexOutOfBounds" if "run_map (\<lambda>col. run_fold (?step i col) 0 [0..<n]) cols = Inl q" for i cols q
    using that by (induction cols) (auto simp: run_bind_eq_Inl dest: only_fold)
  let ?c = "length (received ! k)"
  have c1: "?step 0 ?c z k = Inl IndexOutOfBounds" for z
    using n short(1) inv(2) rcv by (simp add: run_simps index_panic shape_def)
  have c2: "run_fold (?step 0 ?c) 0 [0..<n] = Inl IndexOutOfBounds"
    by (rule run_fold_panic [of k]) (use short(1) c1 in \<open>auto dest: only\<close>)
  have c3: "run_map (\<lambda>col. run_fold (?step 0 col) 0 [0..<n]) [0..<length (received ! 0)] = Inl IndexOutOfBounds"
    by (rule run_map_panic [of ?c]) (use short(2) c2 in \<open>auto dest: only_fold\<close>)
  have "run_map (\<lambda>i. run_map (\<lambda>col. run_fold (?step i col) 0 [0..<n]) [0..<length (received ! 0)]) [0..<n]
      = Inl IndexOutOfBounds"
    by (rule run_map_panic [of 0]) (use n c3 in \<open>auto dest: only_map\<close>)
  then show ?thesis using run inv(1) rcv rows(2) n by (simp add: decode_def Let_def index_at_def)
qed

section \<open>Properties\<close>

text \<open>C4. Reed-Solomon recovery: with no more code than data shreds and at most 128 data shreds, \<open>decode\<close>
  given any \<open>n\<close> distinct shreds of the encoded batch, in any order, returns the \<open>n\<close> data shreds.\<close>

theorem any_shreds_decode:
  assumes "cauchy_dims n m" "shreds_of_size n sz data"
    and "encode data (generate_cauchy_matrix n m) m = Inr code"
    and "distinct rows" "length rows = n" "set rows \<subseteq> {..<n + m}"
  shows "decode (map ((!) (data @ code)) rows) rows (generate_cauchy_matrix n m) n = Inr (Some data)"
  using assms by (rule rs.dec_any)

theorem any_shreds_decode_witness:
  "\<exists>code. encode [[7, 8], [9, 10]] (generate_cauchy_matrix 2 2) 2 = Inr code \<and>
     decode (map ((!) ([[7, 8], [9, 10]] @ code)) [3, 0]) [3, 0] (generate_cauchy_matrix 2 2) 2
       = Inr (Some [[7, 8], [9, 10]])"
proof -
  have dims: "cauchy_dims 2 2" and data: "shreds_of_size 2 2 [[7, 8], [9, 10 :: u8]]"
    by (simp_all add: cauchy_dims_def shreds_of_size_def)
  obtain code where "encode [[7, 8], [9, 10]] (generate_cauchy_matrix 2 2) 2 = Inr code"
    using rs.enc_total [OF dims data] by blast
  then show ?thesis using any_shreds_decode [OF dims data, of code "[3, 0]"] by auto
qed

text \<open>The code has the largest possible distance: the encodings of two different data lists agree on
  fewer than \<open>n\<close> of their \<open>n + m\<close> shreds.\<close>

theorem encodings_differ:
  assumes "cauchy_dims n m" "shreds_of_size n sz data" "shreds_of_size n sz' data'" "data \<noteq> data'"
    and "encode data (generate_cauchy_matrix n m) m = Inr code" "encode data' (generate_cauchy_matrix n m) m = Inr code'"
  shows "card {r. r < n + m \<and> (data @ code) ! r = (data' @ code') ! r} < n"
proof (rule ccontr)
  let ?A = "{r. r < n + m \<and> (data @ code) ! r = (data' @ code') ! r}"
  assume "\<not> card ?A < n"
  then have "n \<le> card ?A" by (simp only: not_less)
  then obtain T where T: "T \<subseteq> ?A" "card T = n" "finite T" by (rule obtain_subset_with_card_n)
  let ?rows = "sorted_list_of_set T"
  have rows: "distinct ?rows" "length ?rows = n" "set ?rows = T" using T(2,3) by simp_all
  have "set ?rows \<subseteq> {..<n + m}" using T(1) unfolding rows(3) by blast
  moreover have "\<forall>r \<in> set ?rows. (data @ code) ! r = (data' @ code') ! r" using T(1) unfolding rows(3) by blast
  ultimately have "data = data'" by (rule rs.determined_by_any [OF assms(1-3,5,6) rows(1,2)])
  then show False using assms(4) by simp
qed

theorem encodings_differ_witness:
  "\<exists>code code'. encode [[7], [9]] (generate_cauchy_matrix 2 1) 1 = Inr code \<and>
     encode [[7], [8]] (generate_cauchy_matrix 2 1) 1 = Inr code' \<and>
     card {r. r < 2 + 1 \<and> ([[7], [9]] @ code) ! r = ([[7], [8]] @ code') ! r} < 2"
proof -
  have dims: "cauchy_dims 2 1" and data: "shreds_of_size 2 1 [[7], [b :: u8]]" for b
    by (simp_all add: cauchy_dims_def shreds_of_size_def)
  obtain code code' where "encode [[7], [9]] (generate_cauchy_matrix 2 1) 1 = Inr code"
    "encode [[7], [8]] (generate_cauchy_matrix 2 1) 1 = Inr code'"
    using rs.enc_total [OF dims data] by meson
  then show ?thesis using encodings_differ [OF dims data data] by fastforce
qed

text \<open>With more code than data shreds the matrix has a zero entry, and there are \<open>n\<close> distinct shreds
  that \<open>decode\<close> cannot recover the data from, whatever they contain.\<close>

theorem excess_code_undecodable:
  assumes "0 < n" "n < m" "length received = n"
  shows "\<exists>rows. distinct rows \<and> length rows = n \<and> set rows \<subseteq> {..<n + m} \<and>
    decode received rows (generate_cauchy_matrix n m) n = Inr None"
  using assms decode_zero_col [OF assms] by (intro exI [of _ "[1..<n] @ [2 * n]"]) auto

theorem excess_code_undecodable_witness:
  "\<exists>rows. distinct rows \<and> length rows = 1 \<and> set rows \<subseteq> {..<1 + 2} \<and>
    decode [[5]] rows (generate_cauchy_matrix 1 2) 1 = Inr None"
  using excess_code_undecodable [of 1 2 "[[5]]"] by simp

end
