(* ===== verification/FecBatch.thy ===== *)
theory FecBatch
  imports ReedSolomon
begin

text \<open>
  \<^verbatim>\<open>crates/dc-tvu/src/fec_batch.rs\<close>: one FEC batch, its slots for data and code shreds, and the
  recovery of missing data shreds. \<open>try_recover\<close> is written over the matrix and decoder it calls,
  so that what it promises is proved in the locale \<open>erasure_code\<close> and holds for
  \<^verbatim>\<open>reed_solomon.rs\<close> by its interpretation.
\<close>

section \<open>The code\<close>

record fec_batch =
  fb_slot :: u64
  fb_fec_set_index :: u32
  fb_parent_slot :: u64
  fb_num_data :: nat
  fb_num_code :: nat
  fb_data_shreds :: "bytes option list"
  fb_code_shreds :: "bytes option list"

definition new_batch :: "u64 \<Rightarrow> u32 \<Rightarrow> nat \<Rightarrow> nat \<Rightarrow> fec_batch" where
  "new_batch slot fec_set_index num_data num_code =
     \<lparr> fb_slot = slot, fb_fec_set_index = fec_set_index, fb_parent_slot = 0,
       fb_num_data = num_data, fb_num_code = num_code,
       fb_data_shreds = replicate num_data None, fb_code_shreds = replicate num_code None \<rparr>"

definition add_data_shred :: "fec_batch \<Rightarrow> u32 \<Rightarrow> bytes \<Rightarrow> fec_batch \<times> bool" where
  "add_data_shred b data_index data =
     (if unat data_index < fb_num_data b \<and> fb_data_shreds b ! unat data_index = None
      then (b\<lparr>fb_data_shreds := (fb_data_shreds b)[unat data_index := Some data]\<rparr>, True)
      else (b, False))"

definition add_code_shred :: "fec_batch \<Rightarrow> u32 \<Rightarrow> bytes \<Rightarrow> fec_batch \<times> bool" where
  "add_code_shred b code_position data =
     (if unat code_position < fb_num_code b \<and> fb_code_shreds b ! unat code_position = None
      then (b\<lparr>fb_code_shreds := (fb_code_shreds b)[unat code_position := Some data]\<rparr>, True)
      else (b, False))"

definition received_count :: "fec_batch \<Rightarrow> nat" where
  "received_count b = count_some (fb_data_shreds b) + count_some (fb_code_shreds b)"

text \<open>The two loops that fill \<open>received\<close> and \<open>row_indices\<close>; the second one breaks when full.\<close>

definition push_data :: "fec_batch \<Rightarrow> bytes list \<times> nat list \<Rightarrow> nat \<Rightarrow> bytes list \<times> nat list" where
  "push_data b st i =
     (case fb_data_shreds b ! i of
        Some x \<Rightarrow> (fst st @ [x], snd st @ [i])
      | None \<Rightarrow> st)"

fun push_code :: "fec_batch \<Rightarrow> nat list \<Rightarrow> bytes list \<times> nat list \<Rightarrow> bytes list \<times> nat list" where
  "push_code b [] st = st"
| "push_code b (i # is) st =
     (if fb_num_data b \<le> length (fst st) then st
      else push_code b is
        (case fb_code_shreds b ! i of
           Some x \<Rightarrow> (fst st @ [x], snd st @ [fb_num_data b + i])
         | None \<Rightarrow> st))"

definition selected :: "fec_batch \<Rightarrow> bytes list \<times> nat list" where
  "selected b = push_code b [0..<fb_num_code b] (foldl (push_data b) ([], []) [0..<fb_num_data b])"

definition try_recover_using ::
  "(nat \<Rightarrow> nat \<Rightarrow> bytes list) \<Rightarrow>
   (bytes list \<Rightarrow> nat list \<Rightarrow> bytes list \<Rightarrow> nat \<Rightarrow> panic + bytes list option) \<Rightarrow>
   fec_batch \<Rightarrow> panic + bytes list option" where
  "try_recover_using gen dec b =
     (let present_data = count_some (fb_data_shreds b);
          present_code = count_some (fb_code_shreds b)
      in if present_data + present_code < fb_num_data b then Inr None
         else if present_data = fb_num_data b
         then Inr (Some (map (\<lambda>s. case s of Some x \<Rightarrow> x | None \<Rightarrow> []) (fb_data_shreds b)))
         else let cauchy = gen (fb_num_data b) (fb_num_code b); (received, row_indices) = selected b
              in dec received row_indices cauchy (fb_num_data b))"

definition try_recover :: "fec_batch \<Rightarrow> panic + bytes list option" where
  "try_recover b = try_recover_using generate_cauchy_matrix decode b"

section \<open>The batch invariant\<close>

text \<open>The vectors keep the lengths the batch was made with: no index of the code leaves them.\<close>

definition batch_ok :: "fec_batch \<Rightarrow> bool" where
  "batch_ok b \<longleftrightarrow> length (fb_data_shreds b) = fb_num_data b \<and> length (fb_code_shreds b) = fb_num_code b"

lemma batch_ok_new: "batch_ok (new_batch slot fec n m)"
  by (simp add: batch_ok_def new_batch_def)

lemma batch_ok_add: 
  "batch_ok b \<Longrightarrow> batch_ok (fst (add_data_shred b i x))"
  "batch_ok b \<Longrightarrow> batch_ok (fst (add_code_shred b i x))"
  by (simp_all add: batch_ok_def add_data_shred_def add_code_shred_def)

lemma batch_ok_parent: "batch_ok (b\<lparr>fb_parent_slot := p\<rparr>) = batch_ok b"
  by (simp add: batch_ok_def)

text \<open>The key and the dimensions never change.\<close>

lemma add_frame:
  "fb_slot (fst (add_data_shred b i x)) = fb_slot b"
  "fb_fec_set_index (fst (add_data_shred b i x)) = fb_fec_set_index b"
  "fb_num_data (fst (add_data_shred b i x)) = fb_num_data b"
  "fb_num_code (fst (add_data_shred b i x)) = fb_num_code b"
  "fb_slot (fst (add_code_shred b i x)) = fb_slot b"
  "fb_fec_set_index (fst (add_code_shred b i x)) = fb_fec_set_index b"
  "fb_num_data (fst (add_code_shred b i x)) = fb_num_data b"
  "fb_num_code (fst (add_code_shred b i x)) = fb_num_code b"
  by (simp_all add: add_data_shred_def add_code_shred_def)

lemma add_data_count:
  "batch_ok b \<Longrightarrow> add_data_shred b i x = (b', fresh) \<Longrightarrow>
   received_count b' = received_count b + (if fresh then 1 else 0)"
  by (auto simp: add_data_shred_def received_count_def batch_ok_def count_some_update split: if_splits)

lemma add_code_count:
  "batch_ok b \<Longrightarrow> add_code_shred b i x = (b', fresh) \<Longrightarrow>
   received_count b' = received_count b + (if fresh then 1 else 0)"
  by (auto simp: add_code_shred_def received_count_def batch_ok_def count_some_update split: if_splits)

lemma received_count_le: "batch_ok b \<Longrightarrow> received_count b \<le> fb_num_data b + fb_num_code b"
  using count_some_le [of "fb_data_shreds b"] count_some_le [of "fb_code_shreds b"]
  by (simp add: received_count_def batch_ok_def)

section \<open>The shreds the decoder is given\<close>

text \<open>A batch whose shreds all belong to the encoding \<open>data @ code\<close>.\<close>

definition batch_of :: "bytes list \<Rightarrow> bytes list \<Rightarrow> fec_batch \<Rightarrow> bool" where
  "batch_of data code b \<longleftrightarrow> batch_ok b \<and> length data = fb_num_data b \<and> length code = fb_num_code b \<and>
     (\<forall>i<fb_num_data b. \<forall>x. fb_data_shreds b ! i = Some x \<longrightarrow> x = data ! i) \<and>
     (\<forall>i<fb_num_code b. \<forall>x. fb_code_shreds b ! i = Some x \<longrightarrow> x = code ! i)"

definition data_rows :: "fec_batch \<Rightarrow> nat list" where
  "data_rows b = filter (\<lambda>i. fb_data_shreds b ! i \<noteq> None) [0..<fb_num_data b]"

definition code_rows :: "fec_batch \<Rightarrow> nat list" where
  "code_rows b = filter (\<lambda>i. fb_code_shreds b ! i \<noteq> None) [0..<fb_num_code b]"

definition shred_at :: "fec_batch \<Rightarrow> nat \<Rightarrow> bytes" where
  "shred_at b r = (if r < fb_num_data b then the (fb_data_shreds b ! r)
                   else the (fb_code_shreds b ! (r - fb_num_data b)))"

lemma push_data_fold:
  "set is \<subseteq> {..<fb_num_data b} \<Longrightarrow>
   foldl (push_data b) st is =
     (let rows = filter (\<lambda>i. fb_data_shreds b ! i \<noteq> None) is
      in (fst st @ map (shred_at b) rows, snd st @ rows))"
  by (induction "is" arbitrary: st) (auto simp: push_data_def shred_at_def Let_def split: option.split)

lemma push_code_fold:
  "length (fst st) = length (snd st) \<Longrightarrow> length (fst st) \<le> fb_num_data b \<Longrightarrow>
   push_code b is st =
     (let rows = take (fb_num_data b - length (fst st))
                   (map ((+) (fb_num_data b)) (filter (\<lambda>i. fb_code_shreds b ! i \<noteq> None) is))
      in (fst st @ map (shred_at b) rows, snd st @ rows))"
proof (induction "is" arbitrary: st)
  case (Cons i "is")
  show ?case
  proof (cases "fb_num_data b \<le> length (fst st)")
    case False
    then have "fb_num_data b - length (fst st) = Suc (fb_num_data b - Suc (length (fst st)))" by arith
    then show ?thesis using Cons False
      by (cases "fb_code_shreds b ! i") (simp_all add: Let_def shred_at_def)
  qed (simp add: Let_def)
qed (simp add: Let_def)

lemma length_filter_upt: "length (filter P [0..<n]) = card {i. i < n \<and> P i}"
  by (simp add: length_filter_conv_card cong: conj_cong)

lemma rows_length:
  assumes "batch_ok b"
  shows "length (data_rows b) = count_some (fb_data_shreds b)"
    and "length (code_rows b) = count_some (fb_code_shreds b)"
  using assms by (simp_all add: data_rows_def code_rows_def length_filter_upt count_some_card batch_ok_def)

lemma selected_rows:
  assumes "batch_ok b" "fb_num_data b \<le> received_count b"
  defines "rows \<equiv> data_rows b @ take (fb_num_data b - length (data_rows b)) (map ((+) (fb_num_data b)) (code_rows b))"
  shows "selected b = (map (shred_at b) rows, rows)"
    and "distinct rows" and "length rows = fb_num_data b" and "set rows \<subseteq> {..<fb_num_data b + fb_num_code b}"
proof -
  let ?n = "fb_num_data b"
  have le: "length (data_rows b) \<le> ?n"
    by (metis data_rows_def diff_zero length_filter_le length_upt)
  show "selected b = (map (shred_at b) rows, rows)"
    unfolding selected_def rows_def
    using le push_data_fold [of "[0..<?n]" b "([], [])"]
      push_code_fold [of "(map (shred_at b) (data_rows b), data_rows b)" b "[0..<fb_num_code b]"]
    by (simp add: Let_def subset_iff data_rows_def code_rows_def)
  have "distinct (map ((+) ?n) (code_rows b))" by (simp add: code_rows_def distinct_map)
  moreover have "set (data_rows b) \<inter> set (map ((+) ?n) (code_rows b)) = {}"
    by (auto simp: data_rows_def)
  ultimately show "distinct rows"
    unfolding rows_def using set_take_subset by (fastforce simp: data_rows_def)
  show "length rows = ?n"
    using assms(2) le by (simp add: rows_def rows_length [OF assms(1)] received_count_def)
  have "set (map ((+) ?n) (code_rows b)) \<subseteq> {..<?n + fb_num_code b}" by (auto simp: code_rows_def)
  moreover have "set (data_rows b) \<subseteq> {..<?n + fb_num_code b}" by (auto simp: data_rows_def)
  ultimately show "set rows \<subseteq> {..<?n + fb_num_code b}"
    unfolding rows_def using set_take_subset by fastforce
qed

lemma shred_at_row:
  assumes "batch_of data code b" "r \<in> set (data_rows b) \<or> r \<in> set (map ((+) (fb_num_data b)) (code_rows b))"
  shows "shred_at b r = (data @ code) ! r"
  using assms by (auto simp: batch_of_def data_rows_def code_rows_def shred_at_def nth_append)

lemma selected_encoded:
  assumes "batch_of data code b" "fb_num_data b \<le> received_count b"
  shows "\<exists>rows. selected b = (map ((!) (data @ code)) rows, rows) \<and> distinct rows \<and>
    length rows = fb_num_data b \<and> set rows \<subseteq> {..<fb_num_data b + fb_num_code b}"
proof -
  have ok: "batch_ok b" using assms(1) by (simp add: batch_of_def)
  note sel = selected_rows [OF ok assms(2)]
  have "map (shred_at b) rows = map ((!) (data @ code)) rows"
    if "rows = data_rows b @ take (fb_num_data b - length (data_rows b)) (map ((+) (fb_num_data b)) (code_rows b))" for rows
    using shred_at_row [OF assms(1)] that set_take_subset by (fastforce intro!: map_cong)
  then show ?thesis using sel by metis
qed

lemma complete_data:
  assumes "batch_of data code b" "count_some (fb_data_shreds b) = fb_num_data b"
  shows "map (\<lambda>s. case s of Some x \<Rightarrow> x | None \<Rightarrow> []) (fb_data_shreds b) = data"
proof (rule nth_equalityI)
  have len: "length (fb_data_shreds b) = fb_num_data b" using assms(1) by (simp add: batch_of_def batch_ok_def)
  then show "length (map (\<lambda>s. case s of Some x \<Rightarrow> x | None \<Rightarrow> []) (fb_data_shreds b)) = length data"
    using assms(1) by (simp add: batch_of_def)
  fix i assume "i < length (map (\<lambda>s. case s of Some x \<Rightarrow> x | None \<Rightarrow> []) (fb_data_shreds b))"
  then have i: "i < fb_num_data b" using len by simp
  then have "fb_data_shreds b ! i \<noteq> None"
    using assms(2) len count_some_full [of "fb_data_shreds b"] by (metis nth_mem)
  then show "map (\<lambda>s. case s of Some x \<Rightarrow> x | None \<Rightarrow> []) (fb_data_shreds b) ! i = data ! i"
    using assms(1) i len by (auto simp: batch_of_def)
qed

section \<open>Recovery over any erasure code\<close>

context erasure_code
begin

lemma recovers:
  assumes "supported (fb_num_data b) (fb_num_code b)" "shreds_of_size (fb_num_data b) sz data"
    and "enc data (gen (fb_num_data b) (fb_num_code b)) (fb_num_code b) = Inr code"
    and "batch_of data code b" "fb_num_data b \<le> received_count b"
  shows "try_recover_using gen dec b = Inr (Some data)"
proof (cases "count_some (fb_data_shreds b) = fb_num_data b")
  case True
  then show ?thesis
    using assms(5) complete_data [OF assms(4) True] by (simp add: try_recover_using_def Let_def)
next
  case False
  obtain rows where sel: "selected b = (map ((!) (data @ code)) rows, rows)"
    and rows: "distinct rows" "length rows = fb_num_data b" "set rows \<subseteq> {..<fb_num_data b + fb_num_code b}"
    using selected_encoded [OF assms(4,5)] by blast
  show ?thesis
    using False assms(5) dec_any [OF assms(1-3) rows] sel
    by (simp add: try_recover_using_def received_count_def Let_def)
qed

lemma waits:
  "received_count b < fb_num_data b \<Longrightarrow> try_recover_using gen dec b = Inr None"
  by (simp add: try_recover_using_def received_count_def Let_def)

end

section \<open>Recovery with the Reed-Solomon code\<close>

lemma try_recover_encoded:
  assumes "cauchy_dims (fb_num_data b) (fb_num_code b)" "shreds_of_size (fb_num_data b) sz data"
    and "encode data (generate_cauchy_matrix (fb_num_data b) (fb_num_code b)) (fb_num_code b) = Inr code"
    and "batch_of data code b" "fb_num_data b \<le> received_count b"
  shows "try_recover b = Inr (Some data)"
  unfolding try_recover_def using assms by (rule rs.recovers)

lemma try_recover_waits:
  "received_count b < fb_num_data b \<Longrightarrow> try_recover b = Inr None"
  unfolding try_recover_def by (rule rs.waits)

lemma try_recover_short_shred:
  assumes "batch_ok b" "cauchy_dims (fb_num_data b) (fb_num_code b)"
    and "fb_num_data b \<le> received_count b" "count_some (fb_data_shreds b) < fb_num_data b"
    and "s \<in> set (fst (selected b))" "length s < length (hd (fst (selected b)))"
  shows "try_recover b = Inl IndexOutOfBounds"
proof -
  note sel = selected_rows [OF assms(1,3)]
  let ?rows = "data_rows b @ take (fb_num_data b - length (data_rows b)) (map ((+) (fb_num_data b)) (code_rows b))"
  let ?rcv = "map (shred_at b) ?rows"
  obtain k where k: "k < fb_num_data b" "s = ?rcv ! k"
    using assms(5) sel(1,3) by (metis fst_conv in_set_conv_nth length_map)
  have "hd ?rcv = ?rcv ! 0" using k sel(3) by (metis hd_conv_nth length_map list.size(3) not_less0)
  then have "length (?rcv ! k) < length (?rcv ! 0)" using assms(6) sel(1) k by simp
  then have "decode ?rcv ?rows (generate_cauchy_matrix (fb_num_data b) (fb_num_code b)) (fb_num_data b)
      = Inl IndexOutOfBounds"
    using sel k by (intro decode_short_shred [OF assms(2)]) simp_all
  then show ?thesis
    using assms(3,4) sel(1) by (simp add: try_recover_def try_recover_using_def Let_def received_count_def)
qed

section \<open>Properties\<close>

text \<open>C9. A batch whose received shreds all belong to one encoding is recovered exactly when it has as many
  shreds as data shreds, data or code, and then gives the data shreds.\<close>

theorem recovery_exact:
  assumes "cauchy_dims (fb_num_data b) (fb_num_code b)" "shreds_of_size (fb_num_data b) sz data"
    and "encode data (generate_cauchy_matrix (fb_num_data b) (fb_num_code b)) (fb_num_code b) = Inr code"
    and "batch_of data code b"
  shows "try_recover b = Inr (if fb_num_data b \<le> received_count b then Some data else None)"
  using try_recover_encoded [OF assms] try_recover_waits [of b] by (simp add: not_le)

theorem recovery_exact_witness:
  "\<exists>x. try_recover ((new_batch 5 0 2 1)\<lparr>fb_data_shreds := [None, Some [9]], fb_code_shreds := [Some [x]]\<rparr>)
     = Inr (Some [[7], [9]])"
proof -
  have dims: "cauchy_dims 2 1" and data: "shreds_of_size 2 1 [[7], [9 :: u8]]"
    by (simp_all add: cauchy_dims_def shreds_of_size_def)
  obtain code where code: "encode [[7], [9]] (generate_cauchy_matrix 2 1) 1 = Inr code" "shreds_of_size 1 1 code"
    using rs.enc_total [OF dims data] by blast
  then obtain x where x: "code = [[x]]"
    by (auto simp: shreds_of_size_def length_Suc_conv)
  let ?b = "(new_batch 5 0 2 1)\<lparr>fb_data_shreds := [None, Some [9]], fb_code_shreds := [Some [x]]\<rparr>"
  have "batch_of [[7], [9]] [[x]] ?b"
    by (auto simp: batch_of_def batch_ok_def new_batch_def less_Suc_eq numeral_2_eq_2)
  then have "try_recover ?b = Inr (Some [[7], [9]])"
    using recovery_exact [of ?b 1 "[[7], [9]]" "[[x]]"] dims data code(1) x
    by (simp add: new_batch_def received_count_def count_some_def)
  then show ?thesis by blast
qed

text \<open>A shred is counted once: adding one to a well-formed batch keeps it well-formed, answers true
  exactly when its place is in range and empty, counts it then, and adding to the place again is refused.\<close>

theorem add_data_shred_once:
  assumes "batch_ok b" "add_data_shred b i x = (b', fresh)"
  shows "batch_ok b' \<and> fresh = (unat i < fb_num_data b \<and> fb_data_shreds b ! unat i = None) \<and>
    received_count b' = received_count b + (if fresh then 1 else 0) \<and>
    (unat i < fb_num_data b \<longrightarrow> fb_data_shreds b' ! unat i \<noteq> None) \<and> add_data_shred b' i y = (b', False)"
  using assms add_data_count [OF assms] batch_ok_add(1) [OF assms(1), of i x]
  by (auto simp: add_data_shred_def batch_ok_def split: if_splits)

theorem add_data_shred_once_witness:
  "received_count (fst (add_data_shred (new_batch 5 0 2 1) 1 [9])) = 1"
proof -
  obtain b' fresh where e: "add_data_shred (new_batch 5 0 2 1) 1 [9] = (b', fresh)"
    by (cases "add_data_shred (new_batch 5 0 2 1) 1 [9]") auto
  show ?thesis using add_data_shred_once [OF batch_ok_new e] unfolding e
    by (simp add: new_batch_def received_count_def count_some_Cons)
qed

text \<open>C40. When a selected shred is shorter than the first one, recovery panics with an index out of bounds
  instead of failing: data shreds of different payload sizes do this.\<close>

theorem uneven_shreds_panic:
  assumes "batch_ok b" "cauchy_dims (fb_num_data b) (fb_num_code b)"
    and "fb_num_data b \<le> received_count b" "count_some (fb_data_shreds b) < fb_num_data b"
    and "s \<in> set (fst (selected b))" "length s < length (hd (fst (selected b)))"
  shows "try_recover b = Inl IndexOutOfBounds"
  using assms by (rule try_recover_short_shred)

theorem uneven_shreds_panic_witness:
  "try_recover ((new_batch 5 0 2 1)\<lparr>fb_data_shreds := [Some [1, 2], None], fb_code_shreds := [Some [3]]\<rparr>)
     = Inl IndexOutOfBounds"
proof -
  let ?b = "(new_batch 5 0 2 1)\<lparr>fb_data_shreds := [Some [1, 2], None], fb_code_shreds := [Some [3]]\<rparr>"
  have "fst (selected ?b) = [[1, 2], [3]]"
    by (simp add: selected_def new_batch_def push_data_def upt_rec)
  then show ?thesis
    by (intro uneven_shreds_panic [of _ "[3]"])
      (simp_all add: batch_ok_def new_batch_def cauchy_dims_def received_count_def count_some_def)
qed

end
