(* ===== verification/Repair.thy ===== *)
theory Repair
  imports Prelude
begin

text \<open>
  \<^verbatim>\<open>crates/dc-tvu/src/repair.rs\<close>: the repair request, the pong, and the two response parsers.
  The signing key of \<^verbatim>\<open>ed25519_dalek\<close> is a parameter: its public key and its signing function. The
  clock and the random nonce are arguments.
\<close>

section \<open>The code\<close>

record signing_key =
  sk_verifying_key :: bytes
  sk_sign :: "bytes \<Rightarrow> bytes"

definition ENUM_TAG_WINDOW_INDEX :: u32 where "ENUM_TAG_WINDOW_INDEX = 8"
definition SIG_BYTES :: nat where "SIG_BYTES = 64"
definition PING_BYTES :: nat where "PING_BYTES = 4 + 32 + 32 + 64"

datatype response = ShredResponse bytes u32 | Ping (ping_token: bytes) (ping_pubkey: bytes)

text \<open>\<open>buf[a..b].copy_from_slice(src)\<close> for a source of the slice's length.\<close>

definition overwrite :: "bytes \<Rightarrow> nat \<Rightarrow> bytes \<Rightarrow> bytes" where
  "overwrite buf a src = take a buf @ src @ drop (a + length src) buf"

text \<open>The packet that \<open>send_repair_request\<close> sends; \<open>millis\<close> is the clock's \<open>as_millis\<close>, a \<open>u128\<close> cut to 64 bits.\<close>

definition repair_request :: "signing_key \<Rightarrow> bytes \<Rightarrow> nat \<Rightarrow> u32 \<Rightarrow> u64 \<Rightarrow> u64 \<Rightarrow> bytes" where
  "repair_request our_key validator_pub millis nonce slot shred_idx =
     (let timestamp = (word_of_nat millis :: u64);
          buf = u32_le ENUM_TAG_WINDOW_INDEX @ replicate SIG_BYTES 0 @ sk_verifying_key our_key @ validator_pub
                @ u64_le timestamp @ u32_le nonce @ u64_le slot @ u64_le shred_idx;
          signable = take 4 buf @ drop (4 + SIG_BYTES) buf
      in overwrite buf 4 (sk_sign our_key signable))"

text \<open>The call: \<open>None\<close> when the clock is before the epoch, else the packet for the socket and the nonce.\<close>

definition send_repair_request :: "signing_key \<Rightarrow> bytes \<Rightarrow> nat option \<Rightarrow> u32 \<Rightarrow> u64 \<Rightarrow> u64 \<Rightarrow> (bytes \<times> u32) option" where
  "send_repair_request our_key validator_pub clock nonce slot shred_idx =
     (case clock of None \<Rightarrow> None
      | Some millis \<Rightarrow> Some (repair_request our_key validator_pub millis nonce slot shred_idx, nonce))"

definition parse_repair_response :: "bytes \<Rightarrow> (bytes \<times> u32) option" where
  "parse_repair_response packet =
     (if length packet < 5 then None
      else let k = length packet - 4 in Some (take k packet, u32_from_le (drop k packet)))"

definition parse_response :: "bytes \<Rightarrow> response option" where
  "parse_response packet =
     (if length packet = PING_BYTES \<and> take 4 packet = [0, 0, 0, 0]
      then Some (Ping (take 32 (drop 36 packet)) (take 32 (drop 4 packet)))
      else if length packet < 5 then None
      else let k = length packet - 4 in Some (ShredResponse (take k packet) (u32_from_le (drop k packet))))"

definition pong_prefix :: bytes where
  "pong_prefix = map (\<lambda>c. word_of_nat (of_char c)) ''SOLANA_PING_PONG''"

definition build_pong :: "(bytes \<Rightarrow> bytes) \<Rightarrow> bytes \<Rightarrow> signing_key \<Rightarrow> bytes" where
  "build_pong H token our_key =
     (let hash = H (pong_prefix @ token)
      in u32_le 7 @ sk_verifying_key our_key @ hash @ sk_sign our_key hash)"

section \<open>The request as the receiver reads it\<close>

text \<open>What is relied on of the key: a 32-byte public key and 64-byte signatures.\<close>

definition key_ok :: "signing_key \<Rightarrow> bool" where
  "key_ok k \<longleftrightarrow> length (sk_verifying_key k) = 32 \<and> (\<forall>m. length (sk_sign k m) = 64)"

record window_index =
  wi_tag :: u32
  wi_signature :: bytes
  wi_sender :: bytes
  wi_recipient :: bytes
  wi_timestamp :: u64
  wi_nonce :: u32
  wi_slot :: u64
  wi_shred_index :: u64

text \<open>The receiver: the fields at their offsets, when the packet is exactly 160 bytes.\<close>

definition read_window_index :: "bytes \<Rightarrow> window_index option" where
  "read_window_index p =
     (if length p \<noteq> 160 then None
      else Some \<lparr> wi_tag = u32_from_le (take 4 p), wi_signature = take 64 (drop 4 p),
                  wi_sender = take 32 (drop 68 p), wi_recipient = take 32 (drop 100 p),
                  wi_timestamp = u64_from_le (take 8 (drop 132 p)), wi_nonce = u32_from_le (take 4 (drop 140 p)),
                  wi_slot = u64_from_le (take 8 (drop 144 p)), wi_shred_index = u64_from_le (take 8 (drop 152 p)) \<rparr>)"

text \<open>What the signature covers: everything but itself.\<close>

definition signed_part :: "bytes \<Rightarrow> bytes" where
  "signed_part p = take 4 p @ drop 68 p"

lemma repair_request_eq:
  assumes "key_ok k"
  shows "repair_request k validator millis nonce slot idx =
    u32_le 8 @ sk_sign k (u32_le 8 @ sk_verifying_key k @ validator @ u64_le (word_of_nat millis) @ u32_le nonce
                            @ u64_le slot @ u64_le idx)
    @ sk_verifying_key k @ validator @ u64_le (word_of_nat millis) @ u32_le nonce @ u64_le slot @ u64_le idx"
  using assms by (simp add: repair_request_def overwrite_def key_ok_def SIG_BYTES_def ENUM_TAG_WINDOW_INDEX_def Let_def)

lemma repair_request_read:
  assumes "key_ok k" "length validator = 32" "p = repair_request k validator millis nonce slot idx"
  shows "read_window_index p = Some
      \<lparr> wi_tag = 8, wi_signature = sk_sign k (signed_part p), wi_sender = sk_verifying_key k, wi_recipient = validator,
        wi_timestamp = word_of_nat millis, wi_nonce = nonce, wi_slot = slot, wi_shred_index = idx \<rparr>"
  using assms(1,2) unfolding assms(3) repair_request_eq [OF assms(1)]
  by (simp add: read_window_index_def signed_part_def key_ok_def)

lemma parse_response_shred:
  assumes "shred \<noteq> []" "length shred \<noteq> 128 \<or> take 4 shred \<noteq> [0, 0, 0, 0]"
  shows "parse_response (shred @ u32_le nonce) = Some (ShredResponse shred nonce)"
proof -
  have "\<not> (length (shred @ u32_le nonce) = PING_BYTES \<and> take 4 (shred @ u32_le nonce) = [0, 0, 0, 0])"
  proof
    assume ping: "length (shred @ u32_le nonce) = PING_BYTES \<and> take 4 (shred @ u32_le nonce) = [0, 0, 0, 0]"
    then have "length shred = 128" by (simp add: PING_BYTES_def)
    moreover from this have "take 4 (shred @ u32_le nonce) = take 4 shred" by simp
    ultimately show False using ping assms(2) by simp
  qed
  moreover have "\<not> length (shred @ u32_le nonce) < 5" using assms(1) by (cases shred) simp_all
  ultimately show ?thesis unfolding parse_response_def Let_def by (simp only: if_False length_append length_le add_diff_cancel_right' append_eq_conv_conj) simp
qed

lemma parse_response_ping:
  assumes "length from_key = 32" "length token = 32" "length sig = 64"
  shows "parse_response (u32_le 0 @ from_key @ token @ sig) = Some (Ping token from_key)"
proof -
  have "le_bytes n 0 = replicate n 0" for n by (induction n) simp_all
  then have "u32_le 0 = [0, 0, 0, 0]" by (simp add: u32_le_def) (simp add: eval_nat_numeral)
  then show ?thesis using assms by (simp add: parse_response_def PING_BYTES_def)
qed

lemma build_pong_length: "key_ok k \<Longrightarrow> \<forall>m. length (H m) = 32 \<Longrightarrow> length (build_pong H token k) = PING_BYTES"
  by (simp add: build_pong_def PING_BYTES_def key_ok_def Let_def)

section \<open>Properties\<close>

text \<open>A repair request is a 160-byte packet whose fields, read at the offsets of the WindowIndex message,
  are the tag 8, our key, the validator's key, the clock, the nonce, the slot and the shred index; its
  signature is over all bytes of the packet but the signature itself.\<close>

theorem request_fields:
  assumes "key_ok k" "length validator = 32" "p = repair_request k validator millis nonce slot idx"
  shows "length p = 160 \<and> read_window_index p = Some
      \<lparr> wi_tag = 8, wi_signature = sk_sign k (signed_part p), wi_sender = sk_verifying_key k, wi_recipient = validator,
        wi_timestamp = word_of_nat millis, wi_nonce = nonce, wi_slot = slot, wi_shred_index = idx \<rparr>"
  using repair_request_read [OF assms] by (auto simp: read_window_index_def split: if_splits)

definition example_key :: signing_key where
  "example_key = \<lparr> sk_verifying_key = replicate 32 1, sk_sign = (\<lambda>m. take 64 (m @ replicate 64 0)) \<rparr>"

lemma example_key_ok: "key_ok example_key"
  by (auto simp: key_ok_def example_key_def)

theorem request_fields_witness: "length (repair_request example_key (replicate 32 2) 1700000000000 7 300 5) = 160"
  using request_fields [OF example_key_ok, of "replicate 32 2" _ 1700000000000 7 300 5] by simp

text \<open>The two kinds of response are told apart: a shred followed by the nonce gives the shred and the
  nonce, unless it is a 128-byte string that starts with four zero bytes, and a signed ping gives its
  token and sender; the answer to a ping has a ping's length.\<close>

theorem responses_parsed:
  assumes "bs \<noteq> []" "length bs \<noteq> 128 \<or> take 4 bs \<noteq> [0, 0, 0, 0]"
    and "length sender = 32" "length token = 32" "length sig = 64" "key_ok k" "\<forall>m. length (H m) = 32"
  shows "parse_response (bs @ u32_le nonce) = Some (ShredResponse bs nonce) \<and>
    parse_repair_response (bs @ u32_le nonce) = Some (bs, nonce) \<and>
    parse_response (u32_le 0 @ sender @ token @ sig) = Some (Ping token sender) \<and>
    length (build_pong H token k) = PING_BYTES"
proof -
  have "parse_repair_response (bs @ u32_le nonce) = Some (bs, nonce)"
    using assms(1) by (cases bs) (simp_all add: parse_repair_response_def Let_def)
  then show ?thesis
    using parse_response_shred [OF assms(1,2)] parse_response_ping [OF assms(3-5)] build_pong_length [OF assms(6,7)]
    by simp
qed

theorem responses_parsed_witness:
  "parse_response ([1, 2, 3] @ u32_le 9) = Some (ShredResponse [1, 2, 3] 9) \<and>
   length (build_pong (\<lambda>_. replicate 32 0) (replicate 32 5) example_key) = PING_BYTES"
  using responses_parsed [of "[1, 2, 3]" "replicate 32 4" "replicate 32 5" "replicate 64 6" example_key
      "\<lambda>_. replicate 32 0" 9] example_key_ok by simp

end
