(* ===== verification/Pipeline.thy ===== *)
theory Pipeline
  imports RpcServer Shred FecBatch Repair
begin

text \<open>
  \<^verbatim>\<open>crates/dc-tvu/src/main.rs\<close>: \<open>process_shred\<close>, from one shred to a published block, and the
  event loop. The node's state is the state it shares with the RPC server, the batches being
  filled, and the known validators. What the operating system decides during a call (the outcome
  of the two file writes, the directory listing) is the record \<open>io\<close>.
\<close>

section \<open>process_shred\<close>

record node = app_state +
  nd_batches :: "erasure_set_id \<Rightarrow> fec_batch option"

record io =
  io_write_data :: write_outcome
  io_write_meta :: write_outcome
  io_listing :: "io_error + (io_error + dir_entry) list"

fun shred_num_data :: "shred \<Rightarrow> nat" where
  "shred_num_data (MerkleCode ch coding_header root ps code) = unat (cdh_num_data_shreds coding_header)"
| "shred_num_data (MerkleData ch data_header root ps data) = NUM_DATA_SHREDS"

fun shred_num_code :: "shred \<Rightarrow> nat" where
  "shred_num_code (MerkleCode ch coding_header root ps code) = unat (cdh_num_coding_shreds coding_header)"
| "shred_num_code (MerkleData ch data_header root ps data) = NUM_CODE_SHREDS"

text \<open>\<open>batches.entry(batch_id).or_insert_with(..)\<close>\<close>

definition batch_entry :: "node \<Rightarrow> shred \<Rightarrow> fec_batch" where
  "batch_entry node s =
     (let batch_id = shred_erasure_set_id s in
      case nd_batches node batch_id of Some b \<Rightarrow> b
      | None \<Rightarrow> new_batch (es_slot batch_id) (es_fec_set_index batch_id) (shred_num_data s) (shred_num_code s))"

definition note_batch :: "shred \<Rightarrow> fec_batch \<Rightarrow> pipeline_stats \<Rightarrow> pipeline_stats" where
  "note_batch s b stats = stats\<lparr> ps_current_batch :=
     \<lparr> bs_slot = shred_slot s, bs_fec_set_index = es_fec_set_index (shred_erasure_set_id s),
       bs_data_shreds = count_some (fb_data_shreds b), bs_code_shreds = count_some (fb_code_shreds b),
       bs_num_data = fb_num_data b, bs_num_code = fb_num_code b \<rparr> \<rparr>"

text \<open>The index of a data shred in its set is a 32-bit subtraction, which wraps.\<close>

fun add_to_batch :: "shred \<Rightarrow> fec_batch \<Rightarrow> fec_batch" where
  "add_to_batch (MerkleData ch data_header root ps data) b =
     (let b1 = fst (add_data_shred b (ch_index ch - ch_fec_set_index ch) data)
      in if fb_parent_slot b1 = 0
         then b1\<lparr>fb_parent_slot := saturating_sub (ch_slot ch) (ucast (dh_parent_offset data_header))\<rparr>
         else b1)"
| "add_to_batch (MerkleCode ch coding_header root ps code) b =
     fst (add_code_shred b (ucast (cdh_position coding_header)) code)"

definition count_dat :: "io_error + (io_error + dir_entry) list \<Rightarrow> nat" where
  "count_dat listing =
     (case listing of Inl e \<Rightarrow> 0
      | Inr es \<Rightarrow> length (filter (\<lambda>e. case e of Inl err \<Rightarrow> False
          | Inr de \<Rightarrow> os_extension (de_name de) = Some ''dat'') es))"

definition block_of :: "('v, 'tx) externals \<Rightarrow> fec_batch \<Rightarrow> deshred_result \<Rightarrow> slot_data" where
  "block_of X b result =
     (let tree = merkle_new (x_sha256 X) (dr_transactions result) in
      \<lparr> sd_slot = fb_slot b, sd_parent_slot = fb_parent_slot b,
        sd_entries = or_else (x_ser_entries X (dr_entries result)) [],
        sd_num_transactions = length (dr_transactions result),
        sd_merkle_root = Some (mt_root tree), sd_merkle_tree = Some tree \<rparr>)"

definition publish :: "('v, 'tx) externals \<Rightarrow> io \<Rightarrow> node \<Rightarrow> fec_batch \<Rightarrow> bytes list \<Rightarrow> deshred_result \<Rightarrow> panic + node" where
  "publish X io node b recovered result =
     (let slot_data = block_of X b result in
      run_bind (put (as_ring_buffer node) slot_data) (\<lambda>ring.
      let (fs, store, saved) = save_slot (io_write_data io) (io_write_meta io) (as_files node) (as_file_store node)
            (fb_slot b) (concat recovered);
          stats = as_stats node
      in Inr (node\<lparr> as_ring_buffer := ring, as_files := fs, as_file_store := store,
           as_stats := stats\<lparr> ps_total_blocks_recovered := ps_total_blocks_recovered stats + 1,
             ps_latest_slot := fb_slot b, ps_latest_block_txs := length (dr_transactions result),
             ps_latest_block_root := or_else (sd_merkle_root slot_data) [],
             ps_blocks_in_ring_buffer := ring_len ring, ps_files_on_disk := count_dat (io_listing io) \<rparr> \<rparr>)))"

definition process_shred :: "('v, 'tx) externals \<Rightarrow> io \<Rightarrow> node \<Rightarrow> shred \<Rightarrow> panic + node" where
  "process_shred X io node s =
     (let batch_id = shred_erasure_set_id s;
          found = batch_entry node s;
          batch = add_to_batch s found;
          node1 = node\<lparr> nd_batches := (nd_batches node)(batch_id \<mapsto> batch),
                        as_stats := note_batch s found (as_stats node) \<rparr>
      in run_bind (try_recover batch) (\<lambda>recovery.
         case recovery of
           None \<Rightarrow> Inr node1
         | Some recovered \<Rightarrow>
             run_bind (case deshred_into_txs recovered of
                         None \<Rightarrow> Inr node1
                       | Some result \<Rightarrow> publish X io node1 batch recovered result) (\<lambda>node2.
             Inr (node2\<lparr> nd_batches := (nd_batches node2)(batch_id := None) \<rparr>))))"

section \<open>The event loop\<close>

text \<open>
  One turn of \<open>tokio::select!\<close>: a contact from gossip with its repair address, the one-second
  timer, or a packet; and the slot poller's store of a newer slot. The datagrams that a turn sends
  are returned with the state. A clock is the milliseconds since the node started; the wall clock
  and the random nonce of each request are arguments of the event.
\<close>

record 'a client =
  cl_node :: node
  cl_validators :: "(bytes \<times> 'a) list"
  cl_latest_slot :: u64
  cl_last_repair_poll :: nat

datatype 'a event =
    Contact bytes "'a option"
  | Timer nat "bytes \<Rightarrow> nat \<Rightarrow> nat option \<times> u32"
  | Packet bytes 'a io
  | SlotRpc u64

definition REPAIR_POLL_MILLIS :: nat where "REPAIR_POLL_MILLIS = 5000"

definition repair_poll :: "signing_key \<Rightarrow> (bytes \<Rightarrow> nat \<Rightarrow> nat option \<times> u32) \<Rightarrow> u64 \<Rightarrow> (bytes \<times> 'a) list \<Rightarrow>
    (bytes \<times> 'a) list" where
  "repair_poll our_key env slot validators =
     concat (map (\<lambda>(pk, addr).
       concat (map (\<lambda>idx. case send_repair_request our_key pk (fst (env pk idx)) (snd (env pk idx)) slot (word_of_nat idx) of
                 None \<Rightarrow> [] | Some (packet, nonce) \<Rightarrow> [(packet, addr)]) [0..<NUM_DATA_SHREDS + NUM_CODE_SHREDS])) validators)"

definition take_shred :: "('v, 'tx) externals \<Rightarrow> (bytes \<Rightarrow> data_shred_header option) \<Rightarrow>
    (bytes \<Rightarrow> coding_shred_header option) \<Rightarrow> io \<Rightarrow> node \<Rightarrow> bytes \<Rightarrow> panic + node" where
  "take_shred X de_data de_coding io node bs =
     (case parse_from_bytes de_data de_coding bs of
        Some s \<Rightarrow> process_shred X io node s
      | None \<Rightarrow> Inr node)"

definition handle_packet :: "('v, 'tx) externals \<Rightarrow> (bytes \<Rightarrow> data_shred_header option) \<Rightarrow>
    (bytes \<Rightarrow> coding_shred_header option) \<Rightarrow> signing_key \<Rightarrow> io \<Rightarrow> node \<Rightarrow> bytes \<Rightarrow> 'a \<Rightarrow>
    panic + node \<times> (bytes \<times> 'a) list" where
  "handle_packet X de_data de_coding our_key io node packet peer =
     (case parse_response packet of
        Some (Ping token pubkey) \<Rightarrow> Inr (node, [(build_pong (x_sha256 X) token our_key, peer)])
      | Some (ShredResponse bs nonce) \<Rightarrow>
          run_bind (take_shred X de_data de_coding io node bs) (\<lambda>node'. Inr (node', []))
      | None \<Rightarrow> run_bind (take_shred X de_data de_coding io node packet) (\<lambda>node'. Inr (node', [])))"

fun client_step :: "('v, 'tx) externals \<Rightarrow> (bytes \<Rightarrow> data_shred_header option) \<Rightarrow>
    (bytes \<Rightarrow> coding_shred_header option) \<Rightarrow> signing_key \<Rightarrow> 'a client \<Rightarrow> 'a event \<Rightarrow>
    panic + 'a client \<times> (bytes \<times> 'a) list" where
  "client_step X de_data de_coding our_key c (Contact pk addr) =
     Inr (case addr of None \<Rightarrow> c
          | Some a \<Rightarrow> c\<lparr>cl_validators := hash_insert pk a (cl_validators c)\<rparr>, [])"
| "client_step X de_data de_coding our_key c (Timer now env) =
     Inr (if 0 < cl_latest_slot c \<and> REPAIR_POLL_MILLIS \<le> now - cl_last_repair_poll c
          then (c\<lparr>cl_last_repair_poll := now\<rparr>, repair_poll our_key env (cl_latest_slot c) (cl_validators c))
          else (c, []))"
| "client_step X de_data de_coding our_key c (Packet packet peer io) =
     run_bind (handle_packet X de_data de_coding our_key io (cl_node c) packet peer)
       (\<lambda>(node, sent). Inr (c\<lparr>cl_node := node\<rparr>, sent))"
| "client_step X de_data de_coding our_key c (SlotRpc s) =
     Inr (if cl_latest_slot c < s then c\<lparr>cl_latest_slot := s\<rparr> else c, [])"

definition new_node :: "flat_file_store \<Rightarrow> file_system \<Rightarrow> node" where
  "new_node store fs =
     \<lparr> as_ring_buffer = new_ring_buffer 500, as_files = fs, as_file_store = store,
       as_stats = new_shared_stats, nd_batches = Map.empty \<rparr>"

definition new_client :: "node \<Rightarrow> 'a client" where
  "new_client node = \<lparr> cl_node = node, cl_validators = [], cl_latest_slot = 0, cl_last_repair_poll = 0 \<rparr>"

section \<open>What process_shred does\<close>

definition updated_batch :: "node \<Rightarrow> shred \<Rightarrow> fec_batch" where
  "updated_batch node s = add_to_batch s (batch_entry node s)"

text \<open>The state with the shred in its batch, before recovery is tried.\<close>

definition with_shred :: "node \<Rightarrow> shred \<Rightarrow> node" where
  "with_shred node s =
     node\<lparr> nd_batches := (nd_batches node)(shred_erasure_set_id s \<mapsto> updated_batch node s),
           as_stats := note_batch s (batch_entry node s) (as_stats node) \<rparr>"

lemma process_shred_panic: "try_recover (updated_batch node s) = Inl p \<Longrightarrow> process_shred X io node s = Inl p"
  by (simp add: process_shred_def updated_batch_def Let_def)

lemma process_shred_waits:
  "try_recover (updated_batch node s) = Inr None \<Longrightarrow> process_shred X io node s = Inr (with_shred node s)"
  by (simp add: process_shred_def updated_batch_def with_shred_def Let_def)

lemma process_shred_recovers:
  "try_recover (updated_batch node s) = Inr (Some recovered) \<Longrightarrow>
   process_shred X io node s =
     run_bind (case deshred_into_txs recovered of None \<Rightarrow> Inr (with_shred node s)
       | Some result \<Rightarrow> publish X io (with_shred node s) (updated_batch node s) recovered result)
     (\<lambda>n. Inr (n\<lparr>nd_batches := (nd_batches n)(shred_erasure_set_id s := None)\<rparr>))"
  unfolding process_shred_def updated_batch_def with_shred_def Let_def by simp

lemma with_shred_simps [simp]:
  "as_ring_buffer (with_shred node s) = as_ring_buffer node"
  "as_files (with_shred node s) = as_files node"
  "as_file_store (with_shred node s) = as_file_store node"
  "nd_batches (with_shred node s) = (nd_batches node)(shred_erasure_set_id s \<mapsto> updated_batch node s)"
  by (simp_all add: with_shred_def)

section \<open>The node's invariant\<close>

text \<open>
  Every batch held is well-formed, is under its own key and cannot be recovered yet; the block
  stores are well-formed; and every block in the ring buffer is the one its transactions make.
\<close>

definition batches_ok :: "(erasure_set_id \<Rightarrow> fec_batch option) \<Rightarrow> bool" where
  "batches_ok bs \<longleftrightarrow> (\<forall>i b. bs i = Some b \<longrightarrow>
     batch_ok b \<and> fb_slot b = es_slot i \<and> fb_fec_set_index b = es_fec_set_index i \<and> try_recover b = Inr None)"

definition block_ok :: "('v, 'tx) externals \<Rightarrow> slot_data \<Rightarrow> bool" where
  "block_ok X d \<longleftrightarrow> (\<exists>entries. sd_entries d = or_else (x_ser_entries X entries) [] \<and>
     sd_num_transactions d = length (concat (map en_transactions entries)) \<and>
     sd_merkle_tree d = Some (merkle_new (x_sha256 X) (concat (map en_transactions entries))) \<and>
     sd_merkle_root d = Some (mt_root (merkle_new (x_sha256 X) (concat (map en_transactions entries)))))"

definition blocks_ok :: "('v, 'tx) externals \<Rightarrow> ring_buffer \<Rightarrow> bool" where
  "blocks_ok X ring \<longleftrightarrow> (\<forall>slot d. get ring slot = Inr (Some d) \<longrightarrow> block_ok X d)"

definition node_ok :: "('v, 'tx) externals \<Rightarrow> node \<Rightarrow> bool" where
  "node_ok X node \<longleftrightarrow> ring_ok (as_ring_buffer node) \<and> blocks_ok X (as_ring_buffer node) \<and>
     store_ok (as_file_store node) \<and> batches_ok (nd_batches node)"

text \<open>The slot of a shred leaves room for the ring buffer's window.\<close>

definition slot_near :: "node \<Rightarrow> shred \<Rightarrow> bool" where
  "slot_near node s \<longleftrightarrow> unat (shred_slot s) + rb_capacity (as_ring_buffer node) < usize_max"

lemma node_ok_new: "store_ok store \<Longrightarrow> node_ok X (new_node store fs)"
proof -
  have "get (new_ring_buffer 500) slot = Inr None" for slot by (simp add: get_def new_ring_buffer_def)
  then show "store_ok store \<Longrightarrow> node_ok X (new_node store fs)"
    using ring_ok_new [of 500] by (simp add: node_ok_def new_node_def usize_max_def blocks_ok_def batches_ok_def)
qed

lemma add_to_batch_frame:
  "batch_ok b \<Longrightarrow> batch_ok (add_to_batch s b)"
  "fb_slot (add_to_batch s b) = fb_slot b" "fb_fec_set_index (add_to_batch s b) = fb_fec_set_index b"
  "fb_num_data (add_to_batch s b) = fb_num_data b" "fb_num_code (add_to_batch s b) = fb_num_code b"
  by (cases s; simp add: Let_def add_frame batch_ok_add batch_ok_parent)+

lemma batch_entry_ok:
  assumes "batches_ok (nd_batches node)"
  shows "batch_ok (batch_entry node s) \<and> fb_slot (batch_entry node s) = shred_slot s \<and>
    fb_fec_set_index (batch_entry node s) = ch_fec_set_index (shred_common s)"
proof (cases "nd_batches node (shred_erasure_set_id s)")
  case None
  then show ?thesis using batch_ok_new
    by (simp add: batch_entry_def Let_def) (simp add: new_batch_def shred_erasure_set_id_def shred_slot_def)
next
  case (Some b)
  then show ?thesis using assms
    by (auto simp: batch_entry_def Let_def batches_ok_def shred_erasure_set_id_def shred_slot_def)
qed

lemma updated_batch_ok:
  assumes "batches_ok (nd_batches node)"
  shows "batch_ok (updated_batch node s)" "fb_slot (updated_batch node s) = shred_slot s"
    "fb_fec_set_index (updated_batch node s) = ch_fec_set_index (shred_common s)"
  using batch_entry_ok [OF assms, of s] by (simp_all add: updated_batch_def add_to_batch_frame)

lemma block_of_ok:
  "dr_transactions result = concat (map en_transactions (dr_entries result)) \<Longrightarrow> block_ok X (block_of X b result)"
  by (auto simp: block_ok_def block_of_def Let_def)

lemma blocks_ok_put:
  assumes "ring_ok ring" "slot_fits ring (sd_slot d) d" "put ring d = Inr ring'" "blocks_ok X ring" "block_ok X d"
  shows "blocks_ok X ring'"
  unfolding blocks_ok_def
proof (intro allI impI)
  fix slot e assume e: "get ring' slot = Inr (Some e)"
  show "block_ok X e"
  proof (cases "slot = sd_slot d")
    case True
    have "Some e = Some d"
      by (rule ring.lookup_same [OF assms(1,2,3)]) (use e True in simp_all)
    then show ?thesis using assms(5) by simp
  next
    case False
    have "get ring slot = Inr (Some e)"
      by (rule ring.lookup_other [OF assms(1,2,3) False e]) simp
    then show ?thesis using assms(4) by (simp add: blocks_ok_def)
  qed
qed

text \<open>The write of the block to the ring buffer and to the files, the statistics aside.\<close>

lemma publish_ok:
  assumes "ring_ok (as_ring_buffer node)" "unat (fb_slot b) + rb_capacity (as_ring_buffer node) < usize_max"
  shows "\<exists>ring stats fs store saved. publish X io node b recovered result =
      Inr (node\<lparr>as_ring_buffer := ring, as_files := fs, as_file_store := store, as_stats := stats\<rparr>) \<and>
    put (as_ring_buffer node) (block_of X b result) = Inr ring \<and>
    save_slot (io_write_data io) (io_write_meta io) (as_files node) (as_file_store node) (fb_slot b) (concat recovered)
      = (fs, store, saved) \<and> ps_latest_slot stats = fb_slot b \<and>
    ps_latest_block_txs stats = length (dr_transactions result) \<and>
    ps_latest_block_root stats = mt_root (merkle_new (x_sha256 X) (dr_transactions result)) \<and>
    ps_total_blocks_recovered stats = ps_total_blocks_recovered (as_stats node) + 1"
proof -
  let ?d = "block_of X b result"
  have fit: "slot_fits (as_ring_buffer node) (sd_slot ?d) ?d"
    using assms(2) by (simp add: slot_fits_def block_of_def Let_def)
  obtain ring where ring: "put (as_ring_buffer node) ?d = Inr ring" using put_ok [OF assms(1) fit] by blast
  obtain fs store saved where save: "save_slot (io_write_data io) (io_write_meta io) (as_files node)
      (as_file_store node) (fb_slot b) (concat recovered) = (fs, store, saved)"
    by (cases "save_slot (io_write_data io) (io_write_meta io) (as_files node) (as_file_store node) (fb_slot b)
      (concat recovered)") auto
  have "or_else (sd_merkle_root ?d) [] = mt_root (merkle_new (x_sha256 X) (dr_transactions result))"
    by (simp add: block_of_def or_else_def Let_def)
  then show ?thesis unfolding publish_def Let_def ring run_bind_Inr save prod.case
    by (intro exI conjI) (rule refl ring save | simp)+
qed

lemma process_shred_keeps_ok:
  assumes ok: "node_ok X node" and near: "slot_near node s" and run: "process_shred X io node s = Inr node'"
  shows "node_ok X node' \<and> rb_capacity (as_ring_buffer node') = rb_capacity (as_ring_buffer node)"
proof -
  let ?b = "updated_batch node s" and ?n = "with_shred node s" and ?i = "shred_erasure_set_id s"
  have bs: "batches_ok (nd_batches node)" using ok by (simp add: node_ok_def)
  note ub = updated_batch_ok [OF bs, of s]
  have others: "batches_ok ((nd_batches node)(?i := None))" using bs by (auto simp: batches_ok_def)
  consider "try_recover ?b = Inr None" | recovered where "try_recover ?b = Inr (Some recovered)"
    | p where "try_recover ?b = Inl p"
    by (metis sum.exhaust option.exhaust)
  then show ?thesis
  proof cases
    case 1
    then have "batches_ok ((nd_batches node)(?i \<mapsto> ?b))"
      using bs ub by (auto simp: batches_ok_def shred_erasure_set_id_def shred_slot_def)
    then show ?thesis using ok run process_shred_waits [OF 1, of X io] by (auto simp: node_ok_def)
  next
    case 2
    show ?thesis
    proof (cases "deshred_into_txs recovered")
      case None
      then show ?thesis using ok run others process_shred_recovers [OF 2, of X io] by (auto simp: node_ok_def)
    next
      case (Some result)
      have ring: "ring_ok (as_ring_buffer ?n)" using ok by (simp add: node_ok_def)
      have low: "unat (fb_slot ?b) + rb_capacity (as_ring_buffer ?n) < usize_max"
        using near ub(2) by (simp add: slot_near_def)
      obtain r stats fs store saved where p: "publish X io ?n ?b recovered result =
          Inr (?n\<lparr>as_ring_buffer := r, as_files := fs, as_file_store := store, as_stats := stats\<rparr>)"
        "put (as_ring_buffer ?n) (block_of X ?b result) = Inr r"
        "save_slot (io_write_data io) (io_write_meta io) (as_files ?n) (as_file_store ?n) (fb_slot ?b) (concat recovered)
          = (fs, store, saved)"
        using publish_ok [OF ring low] by blast
      have fit: "slot_fits (as_ring_buffer ?n) (sd_slot (block_of X ?b result)) (block_of X ?b result)"
        using low by (simp add: slot_fits_def block_of_def Let_def)
      have "dr_transactions result = concat (map en_transactions (dr_entries result))"
        using deshred_SomeD [OF Some] by blast
      then have "blocks_ok X r"
        using blocks_ok_put [OF ring fit p(2)] block_of_ok ok by (auto simp: node_ok_def)
      moreover have "store_ok store"
        using save_slot_store_ok [of "as_file_store ?n"] p(3) ok by (metis fst_conv snd_conv node_ok_def with_shred_simps(3))
      moreover have "node' = ?n\<lparr>as_ring_buffer := r, as_files := fs, as_file_store := store, as_stats := stats,
          nd_batches := (nd_batches ?n)(?i := None)\<rparr>"
        using run process_shred_recovers [OF 2, of X io] by (simp add: Some p(1))
      ultimately show ?thesis
        using put_keeps_ok [OF ring fit p(2)] others put_window(3) [OF ring fit p(2)] by (simp add: node_ok_def)
    qed
  next
    case 3
    then show ?thesis using run process_shred_panic [OF 3, of X io] by simp
  qed
qed

section \<open>From the last shred to the stored block\<close>

lemma process_shred_publishes:
  assumes ok: "node_ok X node" and near: "slot_near node s" and window: "rb_head (as_ring_buffer node) \<le> shred_slot s"
    and rec: "try_recover (updated_batch node s) = Inr (Some data)" "deshred_into_txs data = Some result"
    and io: "io_write_data io = None" "io_write_meta io = None"
  shows "\<exists>node'. process_shred X io node s = Inr node' \<and> nd_batches node' (shred_erasure_set_id s) = None \<and>
    get (as_ring_buffer node') (shred_slot s) = Inr (Some (block_of X (updated_batch node s) result)) \<and>
    load_slot (as_files node') (as_file_store node') (shred_slot s) = Some (concat data) \<and>
    ps_latest_slot (as_stats node') = shred_slot s \<and>
    ps_latest_block_txs (as_stats node') = length (dr_transactions result) \<and>
    ps_latest_block_root (as_stats node') = mt_root (merkle_new (x_sha256 X) (dr_transactions result))"
proof -
  let ?b = "updated_batch node s" and ?n = "with_shred node s" and ?i = "shred_erasure_set_id s"
  let ?d = "block_of X ?b result"
  have ring: "ring_ok (as_ring_buffer ?n)" and st: "store_ok (as_file_store ?n)" and bs: "batches_ok (nd_batches node)"
    using ok by (simp_all add: node_ok_def)
  have slot: "fb_slot ?b = shred_slot s" by (rule updated_batch_ok(2) [OF bs])
  then have sd: "sd_slot ?d = shred_slot s" by (simp add: block_of_def Let_def)
  have low: "unat (fb_slot ?b) + rb_capacity (as_ring_buffer ?n) < usize_max"
    using near slot by (simp add: slot_near_def)
  then have fit: "slot_fits (as_ring_buffer ?n) (sd_slot ?d) ?d" by (simp add: slot_fits_def sd slot)
  obtain r stats fs store saved where p: "publish X io ?n ?b data result =
      Inr (?n\<lparr>as_ring_buffer := r, as_files := fs, as_file_store := store, as_stats := stats\<rparr>)"
    "put (as_ring_buffer ?n) ?d = Inr r"
    "save_slot (io_write_data io) (io_write_meta io) (as_files ?n) (as_file_store ?n) (fb_slot ?b) (concat data)
      = (fs, store, saved)" "ps_latest_slot stats = fb_slot ?b"
    "ps_latest_block_txs stats = length (dr_transactions result)"
    "ps_latest_block_root stats = mt_root (merkle_new (x_sha256 X) (dr_transactions result))"
    using publish_ok [OF ring low] by blast
  have saved: "saved = Inr ()" using p(3) by (simp add: io save_slot_ok)
  have "load_slot fs store (shred_slot s) = Some (concat data)"
    using load_after_save [OF st, of "as_files ?n" "fb_slot ?b" "concat data" fs store "shred_slot s"] p(3)
    by (simp add: io saved slot)
  moreover have "get r (shred_slot s) = Inr (Some ?d)"
    using ring_map_put [OF ring fit p(2), of "shred_slot s"] window put_keeps_ok [OF ring fit p(2)]
    by (simp add: get_ring_map sd)
  moreover have "process_shred X io node s = Inr (?n\<lparr>as_ring_buffer := r, as_files := fs, as_file_store := store,
      as_stats := stats, nd_batches := (nd_batches ?n)(?i := None)\<rparr>)"
    using process_shred_recovers [OF rec(1), of X io] by (simp add: rec(2) p(1))
  ultimately show ?thesis using p(4-6) slot by simp
qed

text \<open>What is relied on of bincode for entries: it reads back what it serialised, and nothing from no bytes.\<close>

definition bincode_entries :: "('v, 'tx) externals \<Rightarrow> bool" where
  "bincode_entries X \<longleftrightarrow> x_de_entries X [] = None \<and>
     (\<forall>es bs. x_ser_entries X es = Some bs \<longrightarrow> x_de_entries X bs = Some es)"

text \<open>Every block that the RPC server loads comes with the Merkle tree of its raw transactions.\<close>

lemma loaded_tree:
  assumes "bincode_entries X" "blocks_ok X (as_ring_buffer (view 0))"
    and "load_slot_data X view slot = Inr (Some (txs, tree))"
  shows "\<exists>raw. txs = parse_transactions X raw \<and> tree = merkle_new (x_sha256 X) raw"
proof -
  obtain found where f: "get (as_ring_buffer (view 0)) slot = Inr found"
    using assms(3) by (auto simp: load_slot_data_def run_bind_eq_Inr)
  show ?thesis
  proof (cases found)
    case None
    then show ?thesis using assms(3) f by (auto simp: load_slot_data_def split: option.splits)
  next
    case (Some d)
    then obtain es where es: "sd_entries d = or_else (x_ser_entries X es) []"
      "sd_merkle_tree d = Some (merkle_new (x_sha256 X) (concat (map en_transactions es)))"
      using assms(2) f by (auto simp: blocks_ok_def block_ok_def)
    then show ?thesis using assms(1,3) f Some
      by (cases "x_ser_entries X es") (auto simp: load_slot_data_def or_else_def bincode_entries_def split: if_splits)
  qed
qed

section \<open>Reachable states\<close>

text \<open>The shred that a packet hands to \<open>process_shred\<close>, if any.\<close>

definition packet_shred :: "(bytes \<Rightarrow> data_shred_header option) \<Rightarrow> (bytes \<Rightarrow> coding_shred_header option) \<Rightarrow>
    bytes \<Rightarrow> shred option" where
  "packet_shred de_data de_coding packet =
     (case parse_response packet of
        Some (Ping token pubkey) \<Rightarrow> None
      | Some (ShredResponse bs nonce) \<Rightarrow> parse_from_bytes de_data de_coding bs
      | None \<Rightarrow> parse_from_bytes de_data de_coding packet)"

fun event_near :: "(bytes \<Rightarrow> data_shred_header option) \<Rightarrow> (bytes \<Rightarrow> coding_shred_header option) \<Rightarrow> 'a event \<Rightarrow> bool" where
  "event_near de_data de_coding (Packet packet peer io) =
     (case packet_shred de_data de_coding packet of None \<Rightarrow> True | Some s \<Rightarrow> unat (shred_slot s) + 500 < usize_max)"
| "event_near de_data de_coding e = True"

inductive reachable :: "('v, 'tx) externals \<Rightarrow> (bytes \<Rightarrow> data_shred_header option) \<Rightarrow>
    (bytes \<Rightarrow> coding_shred_header option) \<Rightarrow> signing_key \<Rightarrow> 'a client \<Rightarrow> bool"
  for X de_data de_coding our_key where
  start: "store_ok store \<Longrightarrow> reachable X de_data de_coding our_key (new_client (new_node store fs))"
| turn: "reachable X de_data de_coding our_key c \<Longrightarrow> event_near de_data de_coding e \<Longrightarrow>
    client_step X de_data de_coding our_key c e = Inr (c', sent) \<Longrightarrow> reachable X de_data de_coding our_key c'"

lemma handle_packet_cases:
  assumes "handle_packet X de_data de_coding our_key io node packet peer = Inr (node', sent)"
  shows "node' = node \<or> (\<exists>s. packet_shred de_data de_coding packet = Some s \<and> process_shred X io node s = Inr node')"
  using assms
  by (auto simp: handle_packet_def packet_shred_def take_shred_def run_bind_eq_Inr
      split: option.splits response.splits)

lemma reachable_node_ok:
  "reachable X de_data de_coding our_key c \<Longrightarrow>
   node_ok X (cl_node c) \<and> rb_capacity (as_ring_buffer (cl_node c)) = 500"
proof (induction rule: reachable.induct)
  case (start store fs)
  then show ?case using node_ok_new by (simp add: new_client_def) (simp add: new_node_def new_ring_buffer_def)
next
  case (turn c e c' sent)
  show ?case
  proof (cases e)
    case (Packet packet peer io)
    obtain node' where node': "handle_packet X de_data de_coding our_key io (cl_node c) packet peer = Inr (node', sent)"
      "c' = c\<lparr>cl_node := node'\<rparr>"
      using turn.hyps(3) by (auto simp: Packet run_bind_eq_Inr)
    show ?thesis
    proof (cases "node' = cl_node c")
      case False
      then obtain s where s: "packet_shred de_data de_coding packet = Some s" "process_shred X io (cl_node c) s = Inr node'"
        using handle_packet_cases [OF node'(1)] by blast
      then have "slot_near (cl_node c) s" using turn.hyps(2) turn.IH by (simp add: Packet slot_near_def)
      then show ?thesis using process_shred_keeps_ok [OF _ _ s(2)] turn.IH node'(2) by auto
    qed (use turn.IH node'(2) in simp)
  qed (use turn in \<open>auto split: option.splits if_splits\<close>)
qed

section \<open>What the RPC server answers\<close>

definition views_ok :: "('v, 'tx) externals \<Rightarrow> (nat \<Rightarrow> app_state) \<Rightarrow> bool" where
  "views_ok X view \<longleftrightarrow> (\<forall>k. ring_ok (as_ring_buffer (view k)) \<and> blocks_ok X (as_ring_buffer (view k)))"

lemma load_total: "views_ok X view \<Longrightarrow> \<exists>r. load_slot_data X view slot = Inr r"
  by (auto simp: load_slot_data_def views_ok_def get_ring_map split: option.splits)

lemma parent_total: "views_ok X view \<Longrightarrow> \<exists>r. parent_of (as_ring_buffer (view k)) slot = Inr r"
  by (auto simp: parent_of_def views_ok_def get_ring_map)

lemma objects_total: "\<exists>r. run_map (tx_with_proof X (merkle_new H raw) w) xs = Inr r"
proof -
  have "\<exists>g. \<forall>x. tx_with_proof X (merkle_new H raw) w x = Inr (g x)"
    by (rule choice) (auto simp: tx_with_proof_def leaf_and_proof_new split: prod.split)
  then obtain g where "\<forall>x. tx_with_proof X (merkle_new H raw) w x = Inr (g x)" by blast
  then show ?thesis using run_map_ok [of xs "tx_with_proof X (merkle_new H raw) w" g] by blast
qed

lemma loaded_cases:
  assumes "bincode_entries X" "views_ok X view"
  obtains "load_slot_data X view slot = Inr None"
  | raw where "load_slot_data X view slot = Inr (Some (parse_transactions X raw, merkle_new (x_sha256 X) raw))"
proof -
  obtain r where r: "load_slot_data X view slot = Inr r" using load_total [OF assms(2)] by blast
  show ?thesis
  proof (cases r)
    case (Some tt)
    obtain txs tree where tt: "tt = (txs, tree)" by (cases tt)
    have "blocks_ok X (as_ring_buffer (view 0))" using assms(2) by (simp add: views_ok_def)
    then show ?thesis
      using that(2) loaded_tree [OF assms(1), of view slot txs tree] r Some tt by auto
  qed (use that(1) r in simp)
qed

lemma jsonrpc_total:
  assumes "bincode_entries X" "views_ok X view"
  shows "\<exists>r. jsonrpc_handler X view req = Inr r"
proof -
  note parent = parent_total [OF assms(2)] and loaded = loaded_cases [OF assms]
  have "\<exists>r. handle_get_block X view params rid = Inr r" for params rid
  proof (cases rule: loaded [of "or_else (param_u64 X params 0) 0"])
    case (2 raw)
    then show ?thesis using parent [of 2 "or_else (param_u64 X params 0) 0"]
      by (auto simp: handle_get_block_def Let_def)
  qed (simp add: handle_get_block_def Let_def)
  moreover have "\<exists>r. handle_get_proof X view params rid = Inr r" for params rid
    by (rule loaded [of "or_else (param_u64 X params 0) 0"])
      (simp_all add: handle_get_proof_def Let_def leaf_and_proof_new)
  moreover have "\<exists>r. handle_get_transaction_by_index X view params rid = Inr r" for params rid
    by (rule loaded [of "or_else (param_u64 X params 0) 0"])
      (simp_all add: handle_get_transaction_by_index_def Let_def leaf_and_proof_new split: option.split)
  moreover have "\<exists>r. handle_get_block_with_proofs X view params rid = Inr r" for params rid
  proof (cases rule: loaded [of "or_else (param_u64 X params 0) 0"])
    case (2 raw)
    let ?txs = "parse_transactions X raw"
    obtain objs where "run_map (tx_with_proof X (merkle_new (x_sha256 X) raw) (or_else (param_bool X params 1) True))
        (zip [0..<length ?txs] ?txs) = Inr objs"
      using objects_total by blast
    then show ?thesis using 2 parent [of 2 "or_else (param_u64 X params 0) 0"]
      by (auto simp: handle_get_block_with_proofs_def Let_def)
  qed (simp add: handle_get_block_with_proofs_def Let_def)
  ultimately show ?thesis by (simp add: jsonrpc_handler_def Let_def)
qed

lemma proof_response:
  assumes "load_slot_data X view (or_else (param_u64 X params 0) 0) = Inr (Some (txs, merkle_new (x_sha256 X) raw))"
    and "i = unat (or_else (param_u64 X params 1) 0)"
  shows "\<exists>ob. handle_get_proof X view params rid = Inr (respond rid (Proof ob)) \<and>
    po_leaf ob = x_hex X (if i < length raw then x_sha256 X (raw ! i) else replicate 32 0) \<and>
    po_root ob = x_hex X (mt_root (merkle_new (x_sha256 X) raw)) \<and>
    po_verified ob = (i < length raw \<or> mt_root (merkle_new (x_sha256 X) raw) = replicate 32 0)"
proof -
  have checks: "verify H (mt_root (merkle_new H raw)) (H (raw ! i)) (path H (map H raw) i) i" if "i < length raw" for H
    using tree.opened_checks [of H raw i "path H (map H raw) i"] that by (simp add: prove_new)
  show ?thesis
    unfolding handle_get_proof_def Let_def assms(1) assms(2) [symmetric] run_bind_Inr option.case prod.case leaf_and_proof_new
    by (intro exI conjI, rule refl) (use checks in \<open>auto simp: verify_def\<close>)
qed

lemma deshred_concat: "deshred_into_txs [concat payloads] = deshred_into_txs payloads"
  by (simp add: deshred_into_txs_def)

lemma process_shred_other_batches:
  assumes "process_shred X io node s = Inr node'" "i \<noteq> shred_erasure_set_id s"
  shows "nd_batches node' i = nd_batches node i"
proof -
  have pub: "nd_batches n = nd_batches m" if "publish X io m b r d = Inr n" for m n b r d
    using that by (cases "save_slot (io_write_data io) (io_write_meta io) (as_files m) (as_file_store m) (fb_slot b) (concat r)")
      (auto simp: publish_def Let_def run_bind_eq_Inr)
  show ?thesis
    using assms unfolding process_shred_def Let_def
    by (auto elim!: run_bind_InrE split: option.splits dest!: pub)
qed

section \<open>Properties\<close>

text \<open>C7. The node's invariant holds in every reachable state of the event loop, whatever packets, contacts and
  timer events come in whatever order and whether or not file writes fail, as long as no slot is within
  500 of the top of the 64-bit range: the block stores are well-formed, every block of the ring buffer is
  the one its transactions make, and every batch held is well-formed, is under its own slot and set index
  and is one that cannot be recovered.\<close>

theorem reachable_invariant:
  assumes "reachable X de_data de_coding our_key c"
  shows "ring_ok (as_ring_buffer (cl_node c)) \<and> store_ok (as_file_store (cl_node c)) \<and>
    blocks_ok X (as_ring_buffer (cl_node c)) \<and>
    (\<forall>i b. nd_batches (cl_node c) i = Some b \<longrightarrow> batch_ok b \<and> fb_slot b = es_slot i \<and>
       fb_fec_set_index b = es_fec_set_index i \<and> try_recover b = Inr None)"
  using reachable_node_ok [OF assms] by (simp add: node_ok_def batches_ok_def)

definition example_externals :: "(unit, bytes) externals" where
  "example_externals =
     \<lparr> x_as_array = (\<lambda>_. None), x_as_str = (\<lambda>_. None), x_as_u64 = (\<lambda>_. None), x_as_bool = (\<lambda>_. None),
       x_de_entries = (\<lambda>bs. if bs = [1] then Some [example_entry] else None),
       x_ser_entries = (\<lambda>es. if es = [example_entry] then Some [1] else None),
       x_de_tx = (\<lambda>bs. if bs = [] then None else Some bs), x_ser_tx = Some, x_tx_signatures = (\<lambda>_. []),
       x_base64 = (\<lambda>_. []), x_bs58 = (\<lambda>_. []), x_hex = (\<lambda>bs. map (\<lambda>b. char_of (unat b)) bs),
       x_sha256 = pad32 \<rparr>"

definition example_node :: node where
  "example_node = new_node (empty_store ''data'') Map.empty"

lemma example_reachable:
  "reachable example_externals le_data_header le_coding_header example_key (new_client example_node :: nat client)"
  unfolding example_node_def by (rule reachable.start) (rule empty_store_ok)

theorem reachable_invariant_witness:
  "ring_ok (as_ring_buffer (cl_node (new_client example_node :: nat client)))"
  using reachable_invariant [OF example_reachable] by simp

text \<open>From the last shred to the block: when the shred that arrives makes its batch hold as many shreds of
  one encoding as it has data shreds, and the data shreds carry a serialised entry stream, then
  \<open>process_shred\<close> succeeds, the block is in the ring buffer with its transactions' Merkle root and
  entries, the file of the slot loads the concatenated data shreds, the statistics name the slot, and
  the batch is gone.\<close>

theorem last_shred_publishes_block:
  assumes "node_ok X node" "slot_near node s" "rb_head (as_ring_buffer node) \<le> shred_slot s"
    and "b = updated_batch node s" "n = fb_num_data b" "m = fb_num_code b" "cauchy_dims n m"
    and "shreds_of_size n sz data" "encode data (generate_cauchy_matrix n m) m = Inr code"
    and "batch_of data code b" "n \<le> received_count b"
    and "es \<noteq> []" "length es \<le> 1000000" "\<forall>e \<in> set es. entry_ok e" "length (concat data) \<le> usize_max"
    and "concat data = stream_bytes es @ pad" "io_write_data io = None" "io_write_meta io = None"
  shows "\<exists>node' d. process_shred X io node s = Inr node' \<and> nd_batches node' (shred_erasure_set_id s) = None \<and>
    get (as_ring_buffer node') (shred_slot s) = Inr (Some d) \<and>
    sd_merkle_root d = Some (mt_root (merkle_new (x_sha256 X) (concat (map en_transactions es)))) \<and>
    sd_entries d = or_else (x_ser_entries X es) [] \<and>
    load_slot (as_files node') (as_file_store node') (shred_slot s) = Some (concat data) \<and>
    ps_latest_slot (as_stats node') = shred_slot s"
proof -
  have "try_recover (updated_batch node s) = Inr (Some data)"
    using assms(4-11) by (intro try_recover_encoded) simp_all
  moreover have "deshred_into_txs data = Some \<lparr> dr_entries = es, dr_transactions = concat (map en_transactions es) \<rparr>"
    using assms(12-16) by (intro deshred_stream)
  ultimately obtain node' where "process_shred X io node s = Inr node'" "nd_batches node' (shred_erasure_set_id s) = None"
    "get (as_ring_buffer node') (shred_slot s) = Inr (Some (block_of X (updated_batch node s)
        \<lparr> dr_entries = es, dr_transactions = concat (map en_transactions es) \<rparr>))"
    "load_slot (as_files node') (as_file_store node') (shred_slot s) = Some (concat data)"
    "ps_latest_slot (as_stats node') = shred_slot s"
    using process_shred_publishes [OF assms(1-3) _ _ assms(17,18)] by blast
  then show ?thesis by (intro exI [of _ node'] exI conjI) (assumption | simp add: block_of_def Let_def)+
qed

definition code_shred_of :: "bytes \<Rightarrow> shred" where
  "code_shred_of x = MerkleCode
     \<lparr> ch_signature = replicate 64 1, ch_shred_variant = 0x60, ch_slot = 9, ch_index = 3, ch_version = 7, ch_fec_set_index = 2 \<rparr>
     \<lparr> cdh_num_data_shreds = 1, cdh_num_coding_shreds = 1, cdh_position = 0 \<rparr> (replicate 32 4) [] x"

definition quiet_io :: io where
  "quiet_io = \<lparr> io_write_data = None, io_write_meta = None, io_listing = Inr [] \<rparr>"

lemma example_batch:
  "updated_batch example_node (code_shred_of x) = (new_batch 9 2 1 1)\<lparr>fb_code_shreds := [Some x]\<rparr>"
  by (simp add: updated_batch_def batch_entry_def example_node_def new_node_def code_shred_of_def new_batch_def
      shred_erasure_set_id_def add_code_shred_def Let_def)

theorem last_shred_publishes_block_witness:
  "\<exists>x node'. process_shred example_externals quiet_io example_node (code_shred_of x) = Inr node' \<and>
     load_slot (as_files node') (as_file_store node') 9 = Some (stream_bytes [example_entry])"
proof -
  let ?data = "[stream_bytes [example_entry]]" and ?n = "example_node"
  have dims: "cauchy_dims 1 1" and data: "shreds_of_size 1 265 ?data"
    by (simp_all add: cauchy_dims_def shreds_of_size_def example_stream_length)
  obtain code where code: "encode ?data (generate_cauchy_matrix 1 1) 1 = Inr code" "shreds_of_size 1 265 code"
    using rs.enc_total [OF dims data] by blast
  then obtain x where x: "code = [x]" by (auto simp: shreds_of_size_def length_Suc_conv)
  let ?s = "code_shred_of x"
  have "node_ok example_externals ?n" unfolding example_node_def by (rule node_ok_new [OF empty_store_ok])
  moreover have "slot_near ?n ?s" "rb_head (as_ring_buffer ?n) \<le> shred_slot ?s" "shred_slot ?s = 9"
    by (simp_all add: slot_near_def shred_slot_def code_shred_of_def usize_max_def example_node_def new_node_def
        new_ring_buffer_def)
  moreover have "batch_of ?data [x] (updated_batch ?n ?s)" "received_count (updated_batch ?n ?s) = 1"
    "fb_num_data (updated_batch ?n ?s) = 1" "fb_num_code (updated_batch ?n ?s) = 1"
    by (simp_all add: example_batch batch_of_def batch_ok_def received_count_def new_batch_def count_some_def)
  ultimately show ?thesis
    using last_shred_publishes_block [of example_externals ?n ?s _ 1 1 265 ?data "[x]" "[example_entry]" "[]" quiet_io,
        OF _ _ _ refl] dims data code(1) x example_stream_length
    by (auto simp: example_entry_ok usize_max_def quiet_io_def)
qed

text \<open>A shred only touches its own batch: the batches of all other sets are as before.\<close>

theorem shred_touches_own_batch:
  assumes "process_shred X io node s = Inr node'" "i \<noteq> shred_erasure_set_id s"
  shows "nd_batches node' i = nd_batches node i"
  using assms by (rule process_shred_other_batches)

theorem shred_touches_own_batch_witness:
  "\<exists>node'. process_shred example_externals quiet_io example_node example_data_shred = Inr node' \<and>
     nd_batches node' \<lparr> es_slot = 1, es_fec_set_index = 0 \<rparr> = None"
proof -
  have "received_count (updated_batch example_node example_data_shred) < fb_num_data (updated_batch example_node example_data_shred)"
    by (simp add: updated_batch_def batch_entry_def example_node_def new_node_def example_data_shred_def new_batch_def
        shred_erasure_set_id_def add_data_shred_def Let_def received_count_def NUM_DATA_SHREDS_def count_some_update)
  from process_shred_waits [OF try_recover_waits [OF this]]
  have run: "process_shred example_externals quiet_io example_node example_data_shred = Inr (with_shred example_node example_data_shred)" .
  show ?thesis
    using shred_touches_own_batch [OF run, of "\<lparr> es_slot = 1, es_fec_set_index = 0 \<rparr>"] run
    by (simp add: shred_erasure_set_id_def example_data_shred_def) (simp add: example_node_def new_node_def)
qed

text \<open>C28. Every request is answered: over well-formed stores no method panics, and the response carries the
  request's id and either a result or an error, never both or neither.\<close>

theorem every_request_answered:
  assumes "bincode_entries X" "views_ok X view"
  shows "\<exists>r. jsonrpc_handler X view req = Inr r \<and> rs_id r = rq_id req \<and> (rs_result r = None) = (rs_error r \<noteq> None)"
  using jsonrpc_total [OF assms, of req] jsonrpc_responds [of X view req] by (auto simp: response_ok_def)

lemma example_bincode: "bincode_entries example_externals"
  by (simp add: bincode_entries_def example_externals_def)

definition example_view :: "nat \<Rightarrow> app_state" where
  "example_view k = \<lparr> as_ring_buffer = new_ring_buffer 500, as_files = (\<lambda>_. Some (stream_bytes [example_entry])),
     as_file_store = \<lparr> ff_data_dir = ''d'', ff_index = [(0, info_of_slot ''d'' 0 265)] \<rparr>, as_stats = new_shared_stats \<rparr>"

lemma example_views_ok: "views_ok X example_view"
  using node_ok_new [OF empty_store_ok, of X "''d''" Map.empty]
  by (simp add: views_ok_def example_view_def node_ok_def new_node_def)

theorem every_request_answered_witness:
  "\<exists>r. jsonrpc_handler example_externals example_view
      \<lparr> rq_jsonrpc = ''2.0'', rq_method = ''getProof'', rq_params = None, rq_id = 4 \<rparr> = Inr r \<and> rs_id r = 4"
  using every_request_answered [OF example_bincode example_views_ok,
      of "\<lparr> rq_jsonrpc = ''2.0'', rq_method = ''getProof'', rq_params = None, rq_id = 4 \<rparr>"] by auto

text \<open>C11. Served proofs are true: when \<open>getProof\<close> finds the block, there are raw transactions whose Merkle root
  it reports; for an index among them it reports the hash of that transaction as the leaf and that the
  proof verifies, and for any other index that it does not, unless the root is all zeros.\<close>

theorem served_proof_verifies:
  assumes "bincode_entries X" "views_ok X view"
    and "load_slot_data X view (or_else (param_u64 X params 0) 0) = Inr (Some (txs, tree))"
    and "i = unat (or_else (param_u64 X params 1) 0)"
  shows "\<exists>raw ob. handle_get_proof X view params rid = Inr (respond rid (Proof ob)) \<and>
    tree = merkle_new (x_sha256 X) raw \<and> txs = parse_transactions X raw \<and>
    po_leaf ob = x_hex X (if i < length raw then x_sha256 X (raw ! i) else replicate 32 0) \<and>
    po_root ob = x_hex X (mt_root tree) \<and>
    po_verified ob = (i < length raw \<or> mt_root tree = replicate 32 0)"
proof -
  obtain raw where raw: "txs = parse_transactions X raw" "tree = merkle_new (x_sha256 X) raw"
    using loaded_tree [OF assms(1) _ assms(3)] assms(2) by (auto simp: views_ok_def)
  then show ?thesis using proof_response [OF assms(3) [unfolded raw(2)] assms(4), of rid] by blast
qed

lemma example_load:
  "load_slot_data example_externals example_view 0
     = Inr (Some ([tx_bytes example_tx], merkle_new pad32 [tx_bytes example_tx]))"
proof -
  have ring: "get (as_ring_buffer (example_view 0)) 0 = Inr None"
    by (simp add: example_view_def get_def new_ring_buffer_def)
  have saved: "load_slot (as_files (example_view 1)) (as_file_store (example_view 1)) 0 = Some (stream_bytes [example_entry])"
    by (simp add: example_view_def load_slot_def)
  have d: "deshred_into_txs [stream_bytes [example_entry]]
      = Some \<lparr> dr_entries = [example_entry], dr_transactions = [tx_bytes example_tx] \<rparr>"
    using deshred_stream [of "[example_entry]" "[stream_bytes [example_entry]]" "[]"] example_stream_length
    by (simp add: example_entry_ok usize_max_def) (simp add: example_entry_def)
  have "tx_bytes example_tx \<noteq> []" using example_tx_length by auto
  then show ?thesis using load_from_file [OF ring saved d, of example_externals]
    by (simp add: parse_transactions_def example_externals_def List.map_filter_simps)
qed

theorem served_proof_verifies_witness:
  "\<exists>ob. handle_get_proof example_externals example_view None 4 = Inr (respond 4 (Proof ob)) \<and> po_verified ob"
proof -
  have zero: "or_else (param_u64 example_externals None k) 0 = 0" for k
    by (simp add: param_u64_def param_at_def or_else_def)
  have "load_slot_data example_externals example_view (or_else (param_u64 example_externals None 0) 0)
      = Inr (Some ([tx_bytes example_tx], merkle_new pad32 [tx_bytes example_tx]))"
    unfolding zero by (rule example_load)
  from served_proof_verifies [OF example_bincode example_views_ok this refl, of 4]
  obtain raw ob where ob: "handle_get_proof example_externals example_view None 4 = Inr (respond 4 (Proof ob))"
    "[tx_bytes example_tx] = parse_transactions example_externals raw"
    "po_verified ob = (unat (or_else (param_u64 example_externals None 1) 0 :: u64) < length raw \<or>
       mt_root (merkle_new pad32 [tx_bytes example_tx]) = replicate 32 0)"
    by blast
  then have "raw \<noteq> []" by (auto simp: parse_transactions_def List.map_filter_simps)
  then show ?thesis using ob(1,3) by (auto simp: zero)
qed

text \<open>C10. The two stores tell the same story: after \<open>process_shred\<close> publishes a block with transactions, the
  server loads the same transactions and Merkle tree from the ring buffer as, once the block has left
  it, from the file.\<close>

theorem ring_and_file_agree:
  assumes "node_ok X node" "slot_near node s" "rb_head (as_ring_buffer node) \<le> shred_slot s"
    and "try_recover (updated_batch node s) = Inr (Some data)" "deshred_into_txs data = Some result"
    and "io_write_data io = None" "io_write_meta io = None" "process_shred X io node s = Inr node'"
    and "bincode_entries X" "x_ser_entries X (dr_entries result) \<noteq> None" "dr_transactions result \<noteq> []"
    and "as_ring_buffer (live 0) = as_ring_buffer node'" "get (as_ring_buffer (later 0)) (shred_slot s) = Inr None"
    and "as_files (later 1) = as_files node'" "as_file_store (later 1) = as_file_store node'"
  shows "load_slot_data X live (shred_slot s) = load_slot_data X later (shred_slot s) \<and>
    load_slot_data X live (shred_slot s) = Inr (Some (parse_transactions X (dr_transactions result),
      merkle_new (x_sha256 X) (dr_transactions result)))"
proof -
  have node': "get (as_ring_buffer node') (shred_slot s) = Inr (Some (block_of X (updated_batch node s) result))"
    "load_slot (as_files node') (as_file_store node') (shred_slot s) = Some (concat data)"
    using process_shred_publishes [OF assms(1-7)] assms(8) by auto
  obtain bs where bs: "x_ser_entries X (dr_entries result) = Some bs" "x_de_entries X bs = Some (dr_entries result)"
    using assms(9,10) by (auto simp: bincode_entries_def)
  have txs: "dr_transactions result = concat (map en_transactions (dr_entries result))"
    using deshred_SomeD [OF assms(5)] by blast
  have "load_slot_data X live (shred_slot s) = Inr (Some (parse_transactions X (dr_transactions result),
      merkle_new (x_sha256 X) (dr_transactions result)))"
    unfolding txs
    by (rule load_from_ring [of _ _ "block_of X (updated_batch node s) result"])
      (use node'(1) assms(11,12) bs txs in \<open>simp_all add: block_of_def Let_def or_else_def\<close>)
  moreover have "deshred_into_txs [concat data] = Some result" using assms(5) by (simp add: deshred_concat)
  then have "load_slot_data X later (shred_slot s) = Inr (Some (parse_transactions X (dr_transactions result),
      merkle_new (x_sha256 X) (dr_transactions result)))"
    using node'(2) assms(13-15) by (intro load_from_file) simp_all
  ultimately show ?thesis by simp
qed

lemma example_recovery:
  "\<exists>x. try_recover (updated_batch example_node (code_shred_of x)) = Inr (Some [stream_bytes [example_entry]])"
proof -
  let ?data = "[stream_bytes [example_entry]]"
  have dims: "cauchy_dims 1 1" and data: "shreds_of_size 1 265 ?data"
    by (simp_all add: cauchy_dims_def shreds_of_size_def example_stream_length)
  obtain code where code: "encode ?data (generate_cauchy_matrix 1 1) 1 = Inr code" "shreds_of_size 1 265 code"
    using rs.enc_total [OF dims data] by blast
  then obtain x where x: "code = [x]" by (auto simp: shreds_of_size_def length_Suc_conv)
  have "try_recover (updated_batch example_node (code_shred_of x)) = Inr (Some ?data)"
    by (rule try_recover_encoded [of _ 265 _ "[x]"])
      (use dims data code(1) x in \<open>simp_all add: example_batch batch_of_def batch_ok_def received_count_def
        new_batch_def count_some_def\<close>)
  then show ?thesis by blast
qed

lemma example_node_near:
  "node_ok X example_node" "slot_near example_node (code_shred_of x)"
  "rb_head (as_ring_buffer example_node) \<le> shred_slot (code_shred_of x)"
  unfolding example_node_def
  by (rule node_ok_new [OF empty_store_ok])
    (simp_all add: slot_near_def shred_slot_def code_shred_of_def usize_max_def new_node_def new_ring_buffer_def)

lemma example_deshred:
  "deshred_into_txs [stream_bytes [example_entry]]
     = Some \<lparr> dr_entries = [example_entry], dr_transactions = [tx_bytes example_tx] \<rparr>"
  using deshred_stream [of "[example_entry]" "[stream_bytes [example_entry]]" "[]"] example_stream_length
  by (simp add: example_entry_ok usize_max_def) (simp add: example_entry_def)

theorem ring_and_file_agree_witness:
  "\<exists>x node'. process_shred example_externals quiet_io example_node (code_shred_of x) = Inr node' \<and>
     load_slot_data example_externals (\<lambda>_. app_state.truncate node') 9
       = load_slot_data example_externals (\<lambda>_. (app_state.truncate node')\<lparr>as_ring_buffer := new_ring_buffer 500\<rparr>) 9"
proof -
  obtain x where x: "try_recover (updated_batch example_node (code_shred_of x)) = Inr (Some [stream_bytes [example_entry]])"
    using example_recovery by blast
  have io: "io_write_data quiet_io = None" "io_write_meta quiet_io = None" by (simp_all add: quiet_io_def)
  obtain node' where run: "process_shred example_externals quiet_io example_node (code_shred_of x) = Inr node'"
    using process_shred_publishes [OF example_node_near x example_deshred io] by blast
  have slot: "shred_slot (code_shred_of x) = 9" by (simp add: shred_slot_def code_shred_of_def)
  have "x_ser_entries example_externals [example_entry] \<noteq> None" by (simp add: example_externals_def)
  moreover have "get (new_ring_buffer 500) 9 = Inr None" by (simp add: get_def new_ring_buffer_def)
  ultimately have "load_slot_data example_externals (\<lambda>_. app_state.truncate node') 9
      = load_slot_data example_externals (\<lambda>_. (app_state.truncate node')\<lparr>as_ring_buffer := new_ring_buffer 500\<rparr>) 9"
    using ring_and_file_agree [OF example_node_near x example_deshred io run example_bincode,
        of "\<lambda>_. app_state.truncate node'" "\<lambda>_. (app_state.truncate node')\<lparr>as_ring_buffer := new_ring_buffer 500\<rparr>"]
    by (simp add: slot app_state.defs)
  then show ?thesis using run by blast
qed

text \<open>C39. A block without transactions: the server does not find it while it is in the ring buffer, but once only
  its file is left, \<open>getProof\<close> answers for every index that a proof verifies.\<close>

theorem empty_block_proof:
  assumes "get (as_ring_buffer (live 0)) slot = Inr (Some d)" "sd_num_transactions d = 0"
    and "get (as_ring_buffer (later 0)) slot = Inr None"
    and "load_slot (as_files (later 1)) (as_file_store (later 1)) slot = Some raw"
    and "deshred_into_txs [raw] = Some result" "dr_transactions result = []"
    and "param_u64 X params 0 = Some slot"
  shows "load_slot_data X live slot = Inr None \<and>
    (\<exists>ob. handle_get_proof X later params rid = Inr (respond rid (Proof ob)) \<and> po_verified ob \<and> po_proof ob = [])"
proof -
  let ?i = "unat (or_else (param_u64 X params 1) 0)"
  have "load_slot_data X later slot = Inr (Some ([], merkle_new (x_sha256 X) []))"
    using load_from_file [OF assms(3-5), of X] by (simp add: assms(6) parse_transactions_def List.map_filter_simps)
  moreover have "or_else (param_u64 X params 0) 0 = slot" by (simp add: assms(7) or_else_def)
  moreover have "mt_root (merkle_new H []) = replicate 32 0" for H
    by (simp add: merkle_new_eq tree_root_def levels_leaf top_node_def)
  ultimately have "\<exists>ob. handle_get_proof X later params rid = Inr (respond rid (Proof ob)) \<and> po_verified ob \<and> po_proof ob = []"
    by (simp add: handle_get_proof_def Let_def leaf_and_proof_new verify_def) (rule exI, rule conjI, rule refl, simp)
  moreover have "load_slot_data X live slot = Inr None"
    using assms(1,2) by (simp add: load_slot_data_def split: option.split)
  ultimately show ?thesis by simp
qed

definition tick_entry :: entry where
  "tick_entry = \<lparr> en_num_hashes = 5, en_hash = replicate 32 6, en_transactions = [] \<rparr>"

theorem empty_block_proof_witness:
  "\<exists>X :: (u64 list, bytes) externals. \<exists>later ob.
     handle_get_proof X later (Some [3, 17]) 1 = Inr (respond 1 (Proof ob)) \<and> po_verified ob"
proof -
  define X :: "(u64 list, bytes) externals" where
    "X = \<lparr> x_as_array = (\<lambda>v. Some (map (\<lambda>n. [n]) v)), x_as_str = (\<lambda>_. None), x_as_u64 = (\<lambda>v. Some (hd v)),
       x_as_bool = (\<lambda>_. None), x_de_entries = (\<lambda>_. None), x_ser_entries = (\<lambda>_. None), x_de_tx = Some, x_ser_tx = Some,
       x_tx_signatures = (\<lambda>_. []), x_base64 = (\<lambda>_. []), x_bs58 = (\<lambda>_. []), x_hex = (\<lambda>_. []), x_sha256 = pad32 \<rparr>"
  define later :: "nat \<Rightarrow> app_state" where
    "later k = \<lparr> as_ring_buffer = new_ring_buffer 500, as_files = (\<lambda>_. Some (stream_bytes [tick_entry])),
     as_file_store = \<lparr> ff_data_dir = ''d'', ff_index = [(3, info_of_slot ''d'' 3 56)] \<rparr>, as_stats = new_shared_stats \<rparr>" for k
  let ?d = "(example_block 3)\<lparr>sd_num_transactions := 0\<rparr>"
  define live :: "nat \<Rightarrow> app_state" where
    "live k = (later k)\<lparr>as_ring_buffer := \<lparr> rb_slots = [Some ?d], rb_capacity = 1, rb_head = 3, rb_tail = 4 \<rparr>\<rparr>" for k
  have "entry_ok tick_entry" by (simp add: entry_ok_def tick_entry_def)
  moreover have "length (stream_bytes [tick_entry]) = 56" by (simp add: stream_bytes_def entry_bytes_def tick_entry_def)
  ultimately have d: "deshred_into_txs [stream_bytes [tick_entry]] = Some \<lparr> dr_entries = [tick_entry], dr_transactions = [] \<rparr>"
    using deshred_stream [of "[tick_entry]" "[stream_bytes [tick_entry]]" "[]"]
    by (simp add: usize_max_def) (simp add: tick_entry_def)
  have ring: "get (as_ring_buffer (live 0)) 3 = Inr (Some ?d)"
    by (simp add: live_def get_def slot_rem_def index_at_def example_block_def)
  have gone: "get (as_ring_buffer (later 0)) 3 = Inr None"
    by (simp add: later_def get_def new_ring_buffer_def)
  have saved: "load_slot (as_files (later 1)) (as_file_store (later 1)) 3 = Some (stream_bytes [tick_entry])"
    by (simp add: later_def load_slot_def)
  have "param_u64 X (Some [3, 17]) 0 = Some 3" by (simp add: param_u64_def param_at_def X_def get_at_def)
  then obtain ob where "handle_get_proof X later (Some [3, 17]) 1 = Inr (respond 1 (Proof ob))" "po_verified ob"
    using empty_block_proof [where live = live and later = later and X = X and rid = 1 and params = "Some [3, 17]",
        OF ring _ gone saved d] by auto
  then show ?thesis by blast
qed

text \<open>C38. A transaction that does not parse shifts the transactions against the leaves: when the first one of a
  block is dropped, \<open>getTransactionByIndex\<close> gives for index 0 the second transaction with the leaf and
  the verified proof of the first.\<close>

theorem dropped_transaction_shifts_leaves:
  assumes "load_slot_data X view slot = Inr (Some (parse_transactions X raw, merkle_new (x_sha256 X) raw))"
    and "raw = first # second # others" "x_de_tx X first = None" "x_de_tx X second = Some tx" "x_ser_tx X tx = Some second"
    and "param_u64 X params 0 = Some slot" "param_u64 X params 1 = Some 0"
  shows "\<exists>ob. handle_get_transaction_by_index X view params rid = Inr (respond rid (Proof ob)) \<and>
    po_transaction ob = Some (x_hex X second) \<and> po_leaf ob = x_hex X (x_sha256 X first) \<and> po_verified ob"
proof -
  have tx: "get_at (parse_transactions X raw) 0 = Some tx"
    by (simp add: parse_transactions_def assms(2-4) List.map_filter_simps get_at_def)
  have "verify (x_sha256 X) (mt_root (merkle_new (x_sha256 X) raw)) (x_sha256 X (raw ! 0))
      (path (x_sha256 X) (map (x_sha256 X) raw) 0) 0"
    using tree.opened_checks [of "x_sha256 X" raw 0 "path (x_sha256 X) (map (x_sha256 X) raw) 0"]
    by (simp add: prove_new assms(2))
  moreover have "or_else (param_u64 X params 0) 0 = slot" "unat (or_else (param_u64 X params 1) 0) = 0"
    by (simp_all only: assms(6,7) or_else_def option.case unat_0)
  moreover have "0 < length raw" "raw ! 0 = first" by (simp_all add: assms(2))
  ultimately show ?thesis
    unfolding handle_get_transaction_by_index_def Let_def
    by (simp only: assms(1) run_bind_Inr option.case prod.case tx leaf_and_proof_new if_True)
      (rule exI, rule conjI, rule refl, simp add: assms(5) or_else_def)
qed

theorem dropped_transaction_shifts_leaves_witness:
  "\<exists>X :: (u64 list, bytes) externals. \<exists>view ob.
     handle_get_transaction_by_index X view (Some [0, 0]) 1 = Inr (respond 1 (Proof ob)) \<and> po_transaction ob = Some ''A''
       \<and> po_leaf ob \<noteq> ''A''"
proof -
  let ?legacy = "example_tx\<lparr>wt_version := None\<rparr>" and ?H = "\<lambda>bs. if length bs = 209 then [66] else [65 :: u8]"
  let ?first = "tx_bytes example_tx" and ?second = "tx_bytes ?legacy"
  define e where "e = \<lparr> en_num_hashes = 5, en_hash = replicate 32 6, en_transactions = [?first, ?second] \<rparr>"
  have "length ?second = 172"
    by (simp_all add: tx_bytes_def example_tx_def short_bytes_def short_len_def encode_len_last drop_bit_eq_div)
  then have len: "length ?second \<noteq> 209" "length ?second \<le> 1000" "?second \<noteq> [66]" by auto
  have ok: "tx_ok ?legacy" by (simp add: tx_ok_def example_tx_def short_ok_def)
  define X :: "(u64 list, bytes) externals" where
    "X = \<lparr> x_as_array = (\<lambda>v. Some (map (\<lambda>n. [n]) v)), x_as_str = (\<lambda>_. None), x_as_u64 = (\<lambda>v. Some (hd v)),
       x_as_bool = (\<lambda>_. None), x_de_entries = (\<lambda>_. None), x_ser_entries = (\<lambda>_. None),
       x_de_tx = (\<lambda>bs. if length bs = 209 then None else Some bs), x_ser_tx = Some,
       x_tx_signatures = (\<lambda>_. []), x_base64 = (\<lambda>_. []), x_bs58 = (\<lambda>_. []),
       x_hex = (\<lambda>bs. if bs = [66] then ''B'' else ''A''), x_sha256 = ?H \<rparr>"
  define view :: "nat \<Rightarrow> app_state" where
    "view k = \<lparr> as_ring_buffer = new_ring_buffer 500, as_files = (\<lambda>_. Some (stream_bytes [e])),
     as_file_store = \<lparr> ff_data_dir = ''d'', ff_index = [(0, info_of_slot ''d'' 0 56)] \<rparr>, as_stats = new_shared_stats \<rparr>" for k
  have "entry_ok e" using example_tx_ok ok by (auto simp: entry_ok_def e_def)
  moreover have "length (stream_bytes [e]) \<le> usize_max"
    using len(2) by (simp add: stream_bytes_def entry_bytes_def e_def example_tx_length usize_max_def)
  ultimately have d: "deshred_into_txs [stream_bytes [e]] = Some \<lparr> dr_entries = [e], dr_transactions = [?first, ?second] \<rparr>"
    using deshred_stream [of "[e]" "[stream_bytes [e]]" "[]"] by simp (simp add: e_def)
  have "get (as_ring_buffer (view 0)) 0 = Inr None"
    "load_slot (as_files (view 1)) (as_file_store (view 1)) 0 = Some (stream_bytes [e])"
    by (simp_all add: view_def get_def new_ring_buffer_def load_slot_def)
  from load_from_file [OF this d, of X]
  have load: "load_slot_data X view 0 = Inr (Some (parse_transactions X [?first, ?second], merkle_new (x_sha256 X) [?first, ?second]))"
    by simp
  have "param_u64 X (Some [0, 0]) 0 = Some 0" "param_u64 X (Some [0, 0]) 1 = Some 0"
    by (simp_all add: param_u64_def param_at_def X_def get_at_def)
  moreover have "x_de_tx X ?first = None" "x_de_tx X ?second = Some ?second" "x_ser_tx X ?second = Some ?second"
    using len(1) example_tx_length by (simp_all add: X_def)
  ultimately obtain ob where
    ob: "handle_get_transaction_by_index X view (Some [0, 0]) 1 = Inr (respond 1 (Proof ob))"
      "po_transaction ob = Some (x_hex X ?second)" "po_leaf ob = x_hex X (x_sha256 X ?first)"
    using dropped_transaction_shifts_leaves [OF load refl, of ?second "Some [0, 0]" 1] by blast
  moreover have "x_hex X ?second = ''A''" "x_hex X (x_sha256 X ?first) = ''B''"
    using len(3) example_tx_length by (simp_all add: X_def)
  ultimately have "po_transaction ob = Some ''A'' \<and> po_leaf ob \<noteq> ''A''" by simp
  then show ?thesis using ob(1) by blast
qed

lemma repair_poll_eq:
  assumes "\<forall>pk idx. fst (env pk idx) \<noteq> None"
  shows "repair_poll our_key env slot validators =
    concat (map (\<lambda>(pk, addr). map (\<lambda>idx.
      (repair_request our_key pk (the (fst (env pk idx))) (snd (env pk idx)) slot (word_of_nat idx), addr)) [0..<64]) validators)"
proof -
  have one: "concat (map f xs) = map g xs" if "\<And>x. f x = [g x]" for f :: "nat \<Rightarrow> 'b list" and g xs
    using that by (induction xs) simp_all
  show ?thesis unfolding repair_poll_def NUM_DATA_SHREDS_def NUM_CODE_SHREDS_def
    using assms by (intro arg_cong [of _ _ concat] map_cong refl)
      (auto simp: send_repair_request_def split: option.split intro!: one)
qed

text \<open>A due repair poll asks every known validator for each of the 64 shreds of the latest slot: 64 packets
  per validator, each the request for its index addressed to the validator, and the poll clock restarts.\<close>

theorem due_poll_requests_all:
  assumes "0 < cl_latest_slot c" "5000 \<le> now - cl_last_repair_poll c" "\<forall>pk idx. fst (env pk idx) \<noteq> None"
  shows "\<exists>c' sent. client_step X de_data de_coding our_key c (Timer now env) = Inr (c', sent) \<and>
    cl_last_repair_poll c' = now \<and> cl_node c' = cl_node c \<and> length sent = 64 * length (cl_validators c) \<and>
    (\<forall>pk addr idx. (pk, addr) \<in> set (cl_validators c) \<and> idx < 64 \<longrightarrow>
       (repair_request our_key pk (the (fst (env pk idx))) (snd (env pk idx)) (cl_latest_slot c) (word_of_nat idx), addr)
         \<in> set sent)"
proof -
  let ?sent = "repair_poll our_key env (cl_latest_slot c) (cl_validators c)"
  have "length ?sent = 64 * length (cl_validators c)"
    unfolding repair_poll_eq [OF assms(3)] by (induction "cl_validators c" rule: list.induct)
      (auto simp: length_concat comp_def split_beta sum_list_triv simp del: upt_conv_Cons)
  moreover have "(repair_request our_key pk (the (fst (env pk idx))) (snd (env pk idx)) (cl_latest_slot c) (word_of_nat idx), addr)
      \<in> set ?sent" if "(pk, addr) \<in> set (cl_validators c)" "idx < 64" for pk addr idx
    unfolding repair_poll_eq [OF assms(3)] using that by (fastforce simp del: upt_conv_Cons)
  ultimately show ?thesis using assms(1,2) by (simp add: REPAIR_POLL_MILLIS_def)
qed

theorem due_poll_requests_all_witness:
  "\<exists>c' sent. client_step example_externals le_data_header le_coding_header example_key
     \<lparr> cl_node = example_node, cl_validators = [(replicate 32 1, 7 :: nat), (replicate 32 2, 8)], cl_latest_slot = 300,
       cl_last_repair_poll = 0 \<rparr> (Timer 6000 (\<lambda>_ _. (Some 1700000000000, 5))) = Inr (c', sent) \<and> length sent = 128"
proof -
  define c where "c = \<lparr> cl_node = example_node, cl_validators = [(replicate 32 1, 7 :: nat), (replicate 32 2, 8)],
    cl_latest_slot = 300, cl_last_repair_poll = 0 \<rparr>"
  have "0 < cl_latest_slot c" "5000 \<le> 6000 - cl_last_repair_poll c" "length (cl_validators c) = 2" by (simp_all add: c_def)
  moreover have "\<forall>pk idx. fst (Some 1700000000000 :: nat option, 5 :: u32) \<noteq> None" by simp
  ultimately obtain c' sent where "client_step example_externals le_data_header le_coding_header example_key c
      (Timer 6000 (\<lambda>_ _. (Some 1700000000000, 5))) = Inr (c', sent)" "length sent = 64 * length (cl_validators c)"
    using due_poll_requests_all [of c 6000 "\<lambda>_ _. (Some 1700000000000, 5)" example_externals le_data_header
        le_coding_header example_key] by blast
  with \<open>length (cl_validators c) = 2\<close> show ?thesis unfolding c_def [symmetric] by simp
qed

end
