(* ===== verification/GossipTypes.thy ===== *)
theory GossipTypes
  imports Prelude
begin

text \<open>
  The vocabulary of the gossip crate: socket addresses (\<^verbatim>\<open>std::net\<close>), the node's key pair
  (\<^verbatim>\<open>keypair.rs\<close>), the records of \<^verbatim>\<open>types.rs\<close>, the events of \<^verbatim>\<open>emitter.rs\<close>, the clock, and how an
  operation of the crate ends badly: a panic, or an error value that the caller sees.

  Public keys, hashes and signatures are byte lists of 32, 32 and 64 bytes. A value of a type of another
  package that is only carried around (a version, a transaction, a bit vector) has the type \<open>'e\<close>.
\<close>

section \<open>Failures\<close>

datatype gossip_error = DecodeError | EncodeError | SendError | NoSocketEntry | SerializeFailed | LookupFailed | AddrParseFailed

datatype failure = Panicked panic | Failed gossip_error

text \<open>\<open>unwrap\<close> and \<open>expect\<close>; and the \<open>?\<close> on a result, with the error it stands for.\<close>

definition unwrap :: "'a option \<Rightarrow> failure + 'a" where
  "unwrap x = (case x of None \<Rightarrow> Inl (Panicked UnwrapFailed) | Some y \<Rightarrow> Inr y)"

definition or_fail :: "gossip_error \<Rightarrow> 'a option \<Rightarrow> failure + 'a" where
  "or_fail e x = (case x of None \<Rightarrow> Inl (Failed e) | Some y \<Rightarrow> Inr y)"

lemma unwrap_simps [simp, run_simps]: "unwrap None = Inl (Panicked UnwrapFailed)" "unwrap (Some y) = Inr y"
  by (simp_all add: unwrap_def)

lemma or_fail_simps [simp, run_simps]: "or_fail e None = Inl (Failed e)" "or_fail e (Some y) = Inr y"
  by (simp_all add: or_fail_def)

lemma unwrap_Inr: "unwrap x = Inr y \<longleftrightarrow> x = Some y"
  by (cases x) simp_all

lemma or_fail_Inr: "or_fail e x = Inr y \<longleftrightarrow> x = Some y"
  by (cases x) simp_all

section \<open>Addresses, keys and the clock\<close>

datatype ip_addr = V4 u32 | V6 "128 word"

record socket_addr =
  sa_ip :: ip_addr
  sa_port :: u16

definition SOCKET_ADDR_UNSPECIFIED :: socket_addr where
  "SOCKET_ADDR_UNSPECIFIED = \<lparr> sa_ip = V4 0, sa_port = 0 \<rparr>"

record keypair =
  kp_pubkey :: bytes
  kp_sign :: "bytes \<Rightarrow> bytes"

text \<open>
  The clock is the time since the Unix epoch, \<open>None\<close> before it; \<open>duration_since\<close> is then an error that
  the code unwraps. A number that is too big for 64 bits is cut by \<open>as u64\<close> and refused by \<open>try_into\<close>.
\<close>

definition unix_timestamp_micros :: "nat option \<Rightarrow> failure + u64" where
  "unix_timestamp_micros clock =
     run_bind (unwrap clock) (\<lambda>us. unwrap (if us < 2 ^ 64 then Some (word_of_nat us) else None))"

section \<open>Events for the subscribers\<close>

record validator_info =
  vi_id :: string
  vi_gossip_addr :: socket_addr
  vi_tvu_addr :: "socket_addr option"
  vi_tpu_addr :: "socket_addr option"
  vi_last_seen :: u64
  vi_version :: u64

record slot_info =
  si_slot :: u64
  si_parent :: u64
  si_root :: u64
  si_validator_id :: string

record cluster_health =
  ch_active_validators :: nat
  ch_latest_slot :: u64

datatype gossip_event =
    NewValidators validator_info
  | ValidatorUpdate validator_info
  | SlotUpdate slot_info
  | PeerLeft string

end
