(* ===== verification/ContactInfo.thy ===== *)
theory ContactInfo
  imports GossipTypes
begin

text \<open>
  \<^verbatim>\<open>crates/dc-gossip/src/contact_info.rs\<close> and \<^verbatim>\<open>legacy_contact_info.rs\<close>: what a node says of itself. The
  sockets of a contact info are a list of entries; the port of an entry is the sum of the offsets up to
  it. \<open>socket_by_key\<close> walks the list; \<open>contact_info_of_lite\<close>, the end of deserialization, fills a cache.
  What serde's derived reader of \<open>ContactInfoLite\<close> yields is the argument; \<open>Version::default()\<close> is a
  parameter. \<open>Extension\<close> has no values, so that the list of extensions is empty; its type here is \<open>unit\<close>.
\<close>

section \<open>The code\<close>

definition SOCKET_CACHE_SIZE :: nat where "SOCKET_CACHE_SIZE = 14"

record socket_entry =
  se_key :: u8
  se_index :: u8
  se_offset :: u16

record 'e contact_info_lite =
  lite_pubkey :: bytes
  lite_wallclock :: u64
  lite_outset :: u64
  lite_shred_version :: u16
  lite_version :: 'e
  lite_addrs :: "ip_addr list"
  lite_sockets :: "socket_entry list"
  lite_extensions :: "unit list"

record 'e contact_info =
  ci_pubkey :: bytes
  ci_wallclock :: u64
  ci_outset :: u64
  ci_shred_version :: u16
  ci_version :: 'e
  ci_addrs :: "ip_addr list"
  ci_sockets :: "socket_entry list"
  ci_extensions :: "unit list"
  ci_cache :: "socket_addr list"

text \<open>The loop that fills the cache: the port wraps, a key outside the cache and an index outside the
  addresses are passed over.\<close>

fun fill_cache :: "ip_addr list \<Rightarrow> u16 \<Rightarrow> socket_addr list \<Rightarrow> socket_entry list \<Rightarrow> socket_addr list" where
  "fill_cache addrs port cache [] = cache"
| "fill_cache addrs port cache (e # es) =
     (let port' = port + se_offset e
      in fill_cache addrs port'
           (if unat (se_key e) < length cache
            then (case get_at addrs (unat (se_index e)) of
                    Some addr \<Rightarrow> cache[unat (se_key e) := \<lparr> sa_ip = addr, sa_port = port' \<rparr>]
                  | None \<Rightarrow> cache)
            else cache) es)"

definition contact_info_of_lite :: "'e contact_info_lite \<Rightarrow> 'e contact_info" where
  "contact_info_of_lite lite =
     \<lparr> ci_pubkey = lite_pubkey lite, ci_wallclock = lite_wallclock lite, ci_outset = lite_outset lite,
       ci_shred_version = lite_shred_version lite, ci_version = lite_version lite, ci_addrs = lite_addrs lite,
       ci_sockets = lite_sockets lite, ci_extensions = lite_extensions lite,
       ci_cache = fill_cache (lite_addrs lite) 0 (replicate SOCKET_CACHE_SIZE SOCKET_ADDR_UNSPECIFIED)
                    (lite_sockets lite) \<rparr>"

definition new_contact :: "'e \<Rightarrow> nat option \<Rightarrow> bytes \<Rightarrow> u64 \<Rightarrow> socket_addr \<Rightarrow> u16 \<Rightarrow> failure + 'e contact_info" where
  "new_contact default_version clock pubkey wallclock gossip shred_version =
     run_bind (unix_timestamp_micros clock) (\<lambda>outset. Inr
       \<lparr> ci_pubkey = pubkey, ci_wallclock = wallclock, ci_outset = outset, ci_shred_version = shred_version,
         ci_version = default_version, ci_addrs = [sa_ip gossip],
         ci_sockets = [\<lparr> se_key = 0, se_index = 0, se_offset = sa_port gossip \<rparr>], ci_extensions = [],
         ci_cache = replicate SOCKET_CACHE_SIZE SOCKET_ADDR_UNSPECIFIED \<rparr>)"

definition default_contact :: "'e \<Rightarrow> nat option \<Rightarrow> bytes \<Rightarrow> u64 \<Rightarrow> failure + 'e contact_info" where
  "default_contact default_version clock unique_pubkey timestamp =
     run_bind (unix_timestamp_micros clock) (\<lambda>outset. Inr
       \<lparr> ci_pubkey = unique_pubkey, ci_wallclock = timestamp, ci_outset = outset, ci_shred_version = 0,
         ci_version = default_version, ci_addrs = [], ci_sockets = [], ci_extensions = [],
         ci_cache = replicate SOCKET_CACHE_SIZE SOCKET_ADDR_UNSPECIFIED \<rparr>)"

text \<open>\<open>u16::checked_add\<close>.\<close>

definition checked_add_u16 :: "u16 \<Rightarrow> u16 \<Rightarrow> u16 option" where
  "checked_add_u16 a b = (if unat a + unat b < 2 ^ 16 then Some (a + b) else None)"

fun find_socket :: "ip_addr list \<Rightarrow> u8 \<Rightarrow> u16 \<Rightarrow> socket_entry list \<Rightarrow> socket_addr option" where
  "find_socket addrs key port [] = None"
| "find_socket addrs key port (e # es) =
     (case checked_add_u16 port (se_offset e) of
        None \<Rightarrow> None
      | Some port' \<Rightarrow>
          if se_key e = key
          then (case get_at addrs (unat (se_index e)) of
                  None \<Rightarrow> None
                | Some ip \<Rightarrow> Some \<lparr> sa_ip = ip, sa_port = port' \<rparr>)
          else find_socket addrs key port' es)"

definition socket_by_key :: "'e contact_info \<Rightarrow> u8 \<Rightarrow> socket_addr option" where
  "socket_by_key ci key = find_socket (ci_addrs ci) key 0 (ci_sockets ci)"

definition gossip_addr :: "'e contact_info \<Rightarrow> socket_addr option" where
  "gossip_addr ci = socket_by_key ci 0"

definition socket_addr_or_none :: "'e contact_info \<Rightarrow> u8 \<Rightarrow> string" where
  "socket_addr_or_none ci key =
     (case socket_by_key ci key of Some a \<Rightarrow> decimal (unat (sa_port a)) | None \<Rightarrow> ''none'')"

text \<open>The age column of \<open>table_row\<close>: the clock in milliseconds less the wallclock over a thousand.\<close>

definition contact_age :: "nat option \<Rightarrow> 'e contact_info \<Rightarrow> failure + u64" where
  "contact_age clock ci =
     run_bind (unix_timestamp_micros clock) (\<lambda>now. Inr (saturating_sub (now div 1000) (ci_wallclock ci div 1000)))"

section \<open>The legacy record\<close>

record legacy_contact_info =
  lci_id :: bytes
  lci_gossip :: socket_addr
  lci_tvu :: socket_addr
  lci_tvu_quic :: socket_addr
  lci_serve_repair_quic :: socket_addr
  lci_tpu :: socket_addr
  lci_tpu_forwards :: socket_addr
  lci_tpu_vote :: socket_addr
  lci_rpc :: socket_addr
  lci_rpc_pubsub :: socket_addr
  lci_wallclock :: u64
  lci_shred_version :: u16

definition new_spy :: "nat option \<Rightarrow> bytes \<Rightarrow> socket_addr \<Rightarrow> u16 \<Rightarrow> failure + legacy_contact_info" where
  "new_spy millis spy_id gossip shred_version =
     (let zero = \<lparr> sa_ip = V4 0, sa_port = 0 \<rparr>
      in run_bind (unwrap millis) (\<lambda>ms. Inr
           \<lparr> lci_id = spy_id, lci_gossip = gossip, lci_tvu = zero, lci_tvu_quic = zero,
             lci_serve_repair_quic = zero, lci_tpu = zero, lci_tpu_forwards = zero, lci_tpu_vote = zero,
             lci_rpc = zero, lci_rpc_pubsub = zero, lci_wallclock = word_of_nat ms,
             lci_shred_version = shred_version \<rparr>))"

section \<open>The ports of the entries\<close>

text \<open>The sum of the offsets of the first entries, as a number.\<close>

definition port_sum :: "socket_entry list \<Rightarrow> nat \<Rightarrow> nat" where
  "port_sum es n = sum_list (map (unat \<circ> se_offset) (take n es))"

lemma port_sum_simps [simp]:
  "port_sum es 0 = 0" "port_sum [] n = 0" "port_sum (e # es) (Suc n) = unat (se_offset e) + port_sum es n"
  by (simp_all add: port_sum_def)

lemma port_sum_mono: "m \<le> n \<Longrightarrow> port_sum es m \<le> port_sum es n"
proof (induction es arbitrary: m n)
  case (Cons e es)
  then show ?case by (cases m; cases n) simp_all
qed simp

lemma unat_add_u16: "unat a + unat b < 2 ^ 16 \<Longrightarrow> unat (a + b) = unat a + unat b" for a b :: u16
  by (simp add: unat_word_ariths)

text \<open>What the walk finds: the first entry with the key, if no port up to it overflows and its address exists.\<close>

lemma find_socket_Some:
  "find_socket addrs key port es = Some a \<longleftrightarrow>
   (\<exists>i<length es. se_key (es ! i) = key \<and> key \<notin> se_key ` set (take i es) \<and>
      unat port + port_sum es (Suc i) < 2 ^ 16 \<and> unat (se_index (es ! i)) < length addrs \<and>
      a = \<lparr> sa_ip = addrs ! unat (se_index (es ! i)), sa_port = port + word_of_nat (port_sum es (Suc i)) \<rparr>)"
  (is "_ \<longleftrightarrow> (\<exists>i<length es. ?P port es i)")
proof (induction es arbitrary: port)
  case (Cons e es)
  let ?p = "port + se_offset e"
  show ?case
  proof (cases "unat port + unat (se_offset e) < 2 ^ 16")
    case False
    then have "\<not> ?P port (e # es) i" for i by (simp add: not_less)
    then show ?thesis using False by (auto simp: checked_add_u16_def)
  next
    case fits: True
    show ?thesis
    proof (cases "se_key e = key")
      case True
      have "\<not> ?P port (e # es) (Suc i)" for i using True by auto
      then have "(\<exists>i<length (e # es). ?P port (e # es) i) \<longleftrightarrow> ?P port (e # es) 0"
        by (metis gr0_implies_Suc length_greater_0_conv list.distinct(1) neq0_conv)
      then show ?thesis using True fits by (auto simp: checked_add_u16_def get_at_def)
    next
      case False
      have step: "?P port (e # es) (Suc i) \<longleftrightarrow> ?P ?p es i" for i
        using False fits by (auto simp: unat_add_u16 add.assoc)
      have "\<not> ?P port (e # es) 0" using False by simp
      then have "(\<exists>i<length (e # es). ?P port (e # es) i) \<longleftrightarrow> (\<exists>i<length es. ?P ?p es i)"
        unfolding step [symmetric] by (simp only: length_Cons Ex_less_Suc2) simp
      moreover have "find_socket addrs key port (e # es) = find_socket addrs key ?p es"
        using False fits by (simp add: checked_add_u16_def)
      ultimately show ?thesis using Cons.IH by simp
    qed
  qed
qed simp

section \<open>The cache against the lookup\<close>

lemma length_fill_cache [simp]: "length (fill_cache addrs port cache es) = length cache"
  by (induction addrs port cache es rule: fill_cache.induct) (simp_all add: Let_def split: option.splits)

lemma fill_cache_other:
  "k \<notin> unat ` se_key ` set es \<Longrightarrow> fill_cache addrs port cache es ! k = cache ! k"
proof (induction es arbitrary: port cache)
  case (Cons e es)
  then show ?case by (auto simp: Let_def split: option.splits)
qed simp

text \<open>With distinct keys the cache holds, for every entry whose address exists, its address and its wrapped port.\<close>

lemma fill_cache_nth:
  "distinct (map se_key es) \<Longrightarrow> i < length es \<Longrightarrow> unat (se_key (es ! i)) < length cache \<Longrightarrow>
   fill_cache addrs port cache es ! unat (se_key (es ! i)) =
     (case get_at addrs (unat (se_index (es ! i))) of
        Some addr \<Rightarrow> \<lparr> sa_ip = addr, sa_port = port + word_of_nat (port_sum es (Suc i)) \<rparr>
      | None \<Rightarrow> cache ! unat (se_key (es ! i)))"
proof (induction es arbitrary: i port cache)
  case (Cons e es)
  show ?case
  proof (cases i)
    case 0
    have "unat (se_key e) \<notin> unat ` se_key ` set es" using Cons.prems(1) by (auto simp: word_unat_eq_iff)
    then show ?thesis using Cons.prems 0 by (auto simp: Let_def fill_cache_other split: option.splits)
  next
    case (Suc j)
    have "se_key e \<noteq> se_key (es ! j)" using Cons.prems(1,2) Suc by auto
    then have "unat (se_key e) \<noteq> unat (se_key (es ! j))" by (simp add: word_unat_eq_iff)
    then show ?thesis using Cons.prems Suc by (auto simp: Let_def Cons.IH add.assoc split: option.splits)
  qed
qed simp

text \<open>The walk at the key of an entry, when keys are distinct.\<close>

lemma find_socket_nth:
  "distinct (map se_key es) \<Longrightarrow> i < length es \<Longrightarrow>
   find_socket addrs (se_key (es ! i)) port es =
    (if unat port + port_sum es (Suc i) < 2 ^ 16
     then (case get_at addrs (unat (se_index (es ! i))) of
             Some addr \<Rightarrow> Some \<lparr> sa_ip = addr, sa_port = port + word_of_nat (port_sum es (Suc i)) \<rparr>
           | None \<Rightarrow> None)
     else None)"
proof (induction es arbitrary: i port)
  case (Cons e es)
  show ?case
  proof (cases i)
    case 0
    then show ?thesis by (auto simp: checked_add_u16_def split: option.split)
  next
    case (Suc j)
    then have "se_key e \<noteq> se_key (es ! j)" using Cons.prems by auto
    then show ?thesis using Cons.prems Suc
      by (auto simp: checked_add_u16_def Cons.IH unat_add_u16 add.assoc split: option.split)
  qed
qed simp

lemma find_socket_absent: "key \<notin> se_key ` set es \<Longrightarrow> find_socket addrs key port es = None"
  by (induction es arbitrary: port) (auto split: option.splits)

section \<open>Properties\<close>

text \<open>What \<open>socket_by_key\<close> answers: the address of the first entry with the key, at the port that is the
  sum of the offsets up to it; nothing when there is no such entry, when the sum passes 65535, or when
  the entry names an address that is not there.\<close>

theorem socket_by_key_first:
  "socket_by_key ci key = Some a \<longleftrightarrow>
   (\<exists>i<length (ci_sockets ci). se_key (ci_sockets ci ! i) = key \<and> key \<notin> se_key ` set (take i (ci_sockets ci)) \<and>
      port_sum (ci_sockets ci) (Suc i) < 2 ^ 16 \<and> unat (se_index (ci_sockets ci ! i)) < length (ci_addrs ci) \<and>
      a = \<lparr> sa_ip = ci_addrs ci ! unat (se_index (ci_sockets ci ! i)),
            sa_port = word_of_nat (port_sum (ci_sockets ci) (Suc i)) \<rparr>)"
  by (simp add: socket_by_key_def find_socket_Some)

text \<open>The cache that deserialization fills agrees with \<open>socket_by_key\<close> on every key it has room for, when the
  keys are distinct and the offsets do not pass 65535: an unspecified address stands for no answer.\<close>

theorem cache_is_socket_by_key:
  assumes "distinct (map se_key (lite_sockets lite))"
    and "port_sum (lite_sockets lite) (length (lite_sockets lite)) < 2 ^ 16"
    and "unat key < SOCKET_CACHE_SIZE"
  shows "ci_cache (contact_info_of_lite lite) ! unat key =
    (case socket_by_key (contact_info_of_lite lite) key of Some a \<Rightarrow> a | None \<Rightarrow> SOCKET_ADDR_UNSPECIFIED)"
proof (cases "key \<in> se_key ` set (lite_sockets lite)")
  case True
  then obtain i where i: "i < length (lite_sockets lite)" "key = se_key (lite_sockets lite ! i)"
    by (auto simp: in_set_conv_nth)
  then have "port_sum (lite_sockets lite) (Suc i) < 2 ^ 16"
    using assms(2) port_sum_mono [of "Suc i" "length (lite_sockets lite)" "lite_sockets lite"] by simp
  then show ?thesis using assms i
    by (simp add: contact_info_of_lite_def socket_by_key_def find_socket_nth fill_cache_nth split: option.split)
next
  case False
  then have "unat key \<notin> unat ` se_key ` set (lite_sockets lite)" by (auto simp: word_unat_eq_iff)
  then show ?thesis using False assms(3)
    by (simp add: contact_info_of_lite_def socket_by_key_def find_socket_absent fill_cache_other)
qed

definition example_lite :: "unit contact_info_lite" where
  "example_lite = \<lparr> lite_pubkey = replicate 32 7, lite_wallclock = 1000, lite_outset = 5, lite_shred_version = 7016,
     lite_version = (), lite_addrs = [V4 0x7F000001, V4 0x0A000001],
     lite_sockets = [\<lparr> se_key = 0, se_index = 0, se_offset = 8000 \<rparr>, \<lparr> se_key = 4, se_index = 1, se_offset = 12 \<rparr>,
       \<lparr> se_key = 10, se_index = 7, se_offset = 60000 \<rparr>],
     lite_extensions = [] \<rparr>"

theorem cache_is_socket_by_key_witness:
  "ci_cache (contact_info_of_lite (example_lite\<lparr>lite_sockets := take 2 (lite_sockets example_lite)\<rparr>)) ! unat (4 :: u8) =
   \<lparr> sa_ip = V4 0x0A000001, sa_port = 8012 \<rparr>"
proof -
  let ?l = "example_lite\<lparr>lite_sockets := take 2 (lite_sockets example_lite)\<rparr>"
  have l: "lite_sockets ?l = [\<lparr> se_key = 0, se_index = 0, se_offset = 8000 \<rparr>, \<lparr> se_key = 4, se_index = 1, se_offset = 12 \<rparr>]"
    by (simp add: example_lite_def)
  have "socket_by_key (contact_info_of_lite ?l) 4 = Some \<lparr> sa_ip = V4 0x0A000001, sa_port = 8012 \<rparr>"
    by (simp add: socket_by_key_def contact_info_of_lite_def l checked_add_u16_def get_at_def)
       (simp add: example_lite_def)
  then show ?thesis
    by (subst cache_is_socket_by_key) (simp_all add: l port_sum_def SOCKET_CACHE_SIZE_def)
qed

text \<open>Where the offsets pass 65535 the two part: \<open>socket_by_key\<close> refuses the entry, and the cache holds its
  address with the port wrapped around.\<close>

theorem overflow_refused_but_cached:
  assumes "distinct (map se_key (lite_sockets lite))" "i < length (lite_sockets lite)"
    and "2 ^ 16 \<le> port_sum (lite_sockets lite) (Suc i)"
    and "e = lite_sockets lite ! i" "unat (se_key e) < SOCKET_CACHE_SIZE" "unat (se_index e) < length (lite_addrs lite)"
  shows "socket_by_key (contact_info_of_lite lite) (se_key e) = None \<and>
    ci_cache (contact_info_of_lite lite) ! unat (se_key e) =
      \<lparr> sa_ip = lite_addrs lite ! unat (se_index e), sa_port = word_of_nat (port_sum (lite_sockets lite) (Suc i)) \<rparr>"
  using assms
  by (simp_all add: contact_info_of_lite_def socket_by_key_def find_socket_nth fill_cache_nth get_at_def not_less)

theorem overflow_refused_but_cached_witness:
  "socket_by_key (contact_info_of_lite (example_lite\<lparr>lite_sockets := [\<lparr> se_key = 0, se_index = 0, se_offset = 8000 \<rparr>,
     \<lparr> se_key = 4, se_index = 1, se_offset = 60000 \<rparr>]\<rparr>)) 4 = None"
  using overflow_refused_but_cached [of "example_lite\<lparr>lite_sockets := [\<lparr> se_key = 0, se_index = 0, se_offset = 8000 \<rparr>,
     \<lparr> se_key = 4, se_index = 1, se_offset = 60000 \<rparr>]\<rparr>" 1 "\<lparr> se_key = 4, se_index = 1, se_offset = 60000 \<rparr>"]
  by (simp add: example_lite_def port_sum_def SOCKET_CACHE_SIZE_def)

text \<open>A node's own contact info gives back the gossip address it was made from.\<close>

theorem own_gossip_addr:
  assumes "new_contact default_version clock pubkey wallclock gossip shred_version = Inr ci"
  shows "gossip_addr ci = Some gossip"
  using assms
  by (auto simp: new_contact_def gossip_addr_def socket_by_key_def checked_add_u16_def get_at_def
      unsigned_less [of "sa_port gossip", where 'a = nat, simplified] elim!: run_bind_InrE)

lemma own_contact_fields:
  assumes "new_contact default_version clock pubkey wallclock gossip shred_version = Inr ci"
  shows "ci_pubkey ci = pubkey" "ci_wallclock ci = wallclock" "ci_sockets ci \<noteq> []"
    "length (ci_cache ci) = SOCKET_CACHE_SIZE"
  using assms by (auto simp: new_contact_def elim!: run_bind_InrE)

theorem own_gossip_addr_witness:
  "\<exists>ci. new_contact () (Some 1700000000000000) (replicate 32 7) 1000 \<lparr> sa_ip = V4 0x7F000001, sa_port = 8001 \<rparr> 7016 = Inr ci \<and>
    gossip_addr ci = Some \<lparr> sa_ip = V4 0x7F000001, sa_port = 8001 \<rparr>"
proof -
  obtain ci where ci: "new_contact () (Some 1700000000000000) (replicate 32 7) 1000
      \<lparr> sa_ip = V4 0x7F000001, sa_port = 8001 \<rparr> 7016 = Inr ci"
    by (simp add: new_contact_def unix_timestamp_micros_def)
  then show ?thesis using own_gossip_addr [OF ci] by blast
qed

text \<open>The reported age of a contact is wrong by almost the whole time since 1970: the wallclock is in milliseconds, so
  that a contact made at this very moment is reported with an age in milliseconds of 999 times the seconds of the
  Unix time, and more.\<close>

theorem fresh_contact_is_old:
  assumes "us < 2 ^ 64" "ci_wallclock ci = word_of_nat (us div 1000)"
  shows "\<exists>age. contact_age (Some us) ci = Inr age \<and> 999 * (us div 1000000) \<le> unat age"
proof -
  have "us div 1000 < 2 ^ 64" "us div 1000000 < 2 ^ 64" using assms(1) by linarith+
  then have small: "unat (word_of_nat us :: u64) = us" "unat (word_of_nat (us div 1000) :: u64) = us div 1000"
    using assms(1) by (simp_all add: unat_of_nat)
  then have "unat ((word_of_nat us :: u64) div 1000) = us div 1000" 
    "unat ((word_of_nat (us div 1000) :: u64) div 1000) = us div 1000000"
    by (simp_all add: unat_div div_mult2_eq [symmetric])
  moreover from this have "(word_of_nat (us div 1000) :: u64) div 1000 \<le> word_of_nat us div 1000"
    by (simp add: word_le_nat_alt div_le_mono2)
  ultimately have "unat (saturating_sub ((word_of_nat us :: u64) div 1000) (word_of_nat (us div 1000) div 1000)) =
      us div 1000 - us div 1000000"
    by (simp add: saturating_sub_def unat_sub)
  moreover have "us div 1000000 = us div 1000 div 1000" by (simp add: div_mult2_eq [symmetric])
  then have "999 * (us div 1000000) \<le> us div 1000 - us div 1000000" using div_mult_mod_eq [of "us div 1000" 1000] by linarith
  ultimately show ?thesis using assms by (simp add: contact_age_def unix_timestamp_micros_def)
qed

theorem fresh_contact_is_old_witness:
  "\<exists>age. contact_age (Some 1700000000000000) (contact_info_of_lite (example_lite\<lparr>lite_wallclock := 1700000000000\<rparr>)) = Inr age \<and>
    1698300000000 \<le> unat age"
  using fresh_contact_is_old [of 1700000000000000 "contact_info_of_lite (example_lite\<lparr>lite_wallclock := 1700000000000\<rparr>)"]
  by (simp add: contact_info_of_lite_def)

end
