(* ===== verification/CrdsData.thy ===== *)
theory CrdsData
  imports ContactInfo
begin

text \<open>
  \<^verbatim>\<open>crates/dc-gossip/src/crds_data.rs\<close>: the fourteen kinds of data that nodes gossip, the signed value
  around them, its key and wallclock, and the slot that a vote's transaction votes for. bincode, the
  hash, the signature check and the vote program's types are parameters. \<open>'e\<close> stands for the values of
  other packages' types: versions, transactions, bit vectors.
\<close>

section \<open>The data\<close>

record restart_heaviest_fork =
  rhf_from :: bytes
  rhf_wallclock :: u64
  rhf_last_slot :: u64
  rhf_last_slot_hash :: bytes
  rhf_observed_stake :: u64
  rhf_shred_version :: u16

datatype 'e slots_offsets = RunLengthEncoding "u16 list" | RawOffsets 'e

record 'e restart_last_voted_fork_slots =
  rlv_from :: bytes
  rlv_wallclock :: u64
  rlv_offsets :: "'e slots_offsets"
  rlv_last_voted_slot :: u64
  rlv_last_voted_hash :: bytes

record snapshot_hashes =
  sh_from :: bytes
  sh_full :: "u64 \<times> bytes"
  sh_incremental :: "(u64 \<times> bytes) list"
  sh_wallclock :: u64

datatype dup_shred_type = DupShredData | DupShredCode

record duplicate_shred =
  ds_from :: bytes
  ds_wallclock :: u64
  ds_slot :: u64
  ds_unused :: u32
  ds_unused_shred_type :: dup_shred_type
  ds_num_chunks :: u8
  ds_chunk_index :: u8
  ds_chunk :: bytes

record node_instance =
  ni_pubkey :: bytes
  ni_wallclock :: u64
  ni_timestamp :: u64
  ni_token :: u64

record 'e version_info =
  vn_pubkey :: bytes
  vn_wallclock :: u64
  vn_version :: 'e

record 'e legacy_version =
  lv_pubkey :: bytes
  lv_wallclock :: u64
  lv_version :: 'e

record flate2 =
  fl_first_slot :: u64
  fl_num :: nat
  fl_compressed :: bytes

record 'e uncompressed =
  un_first_slot :: u64
  un_num :: nat
  un_slots :: 'e

datatype 'e compressed_slot = Flate2 flate2 | Uncompressed "'e uncompressed"

record 'e epoch_slots =
  es_from :: bytes
  es_slots :: "'e compressed_slot list"
  es_wallclock :: u64

record accounts_hashes =
  ah_from :: bytes
  ah_hashes :: "(u64 \<times> bytes) list"
  ah_wallclock :: u64

record 'e vote =
  vt_from :: bytes
  vt_transaction :: 'e
  vt_wallclock :: u64
  vt_slot :: "u64 option"

datatype compression_type = NotCompressed | Gzip | Bzip2

record epoch_incomplete_slots =
  ei_first :: u64
  ei_compression :: compression_type
  ei_compressed_list :: bytes

record lowest_slot =
  ls_from :: bytes
  ls_root :: u64
  ls_lowest :: u64
  ls_slots :: "u64 set"
  ls_stash :: "epoch_incomplete_slots list"
  ls_wallclock :: u64

datatype 'e crds_data =
    LegacyContactInfo legacy_contact_info
  | Vote u8 "'e vote"
  | LowestSlot u8 lowest_slot
  | LegacySnapshotHashes accounts_hashes
  | AccountsHashes accounts_hashes
  | EpochSlots u8 "'e epoch_slots"
  | LegacyVersion "'e legacy_version"
  | Version "'e version_info"
  | NodeInstance node_instance
  | DuplicateShred u16 duplicate_shred
  | SnapshotHashes snapshot_hashes
  | ContactInfo "'e contact_info"
  | RestartLastVotedForkSlots "'e restart_last_voted_fork_slots"
  | RestartHeaviestFork restart_heaviest_fork

record 'e crds_value =
  cv_signature :: bytes
  cv_data :: "'e crds_data"
  cv_hash :: bytes

section \<open>Votes\<close>

text \<open>
  What the code uses of the transaction and of the vote program: the message's account keys and
  instructions (program index and data), the program's id check, the reader of its instructions, and
  the last slot of the three kinds of vote that an instruction carries.
\<close>

datatype 'e vote_instruction =
    VoteIx 'e
  | VoteSwitchIx 'e bytes
  | UpdateVoteStateIx 'e
  | UpdateVoteStateSwitchIx 'e bytes
  | CompactUpdateVoteStateIx 'e
  | CompactUpdateVoteStateSwitchIx 'e bytes
  | TowerSyncIx 'e
  | TowerSyncSwitchIx 'e bytes
  | OtherVoteIx

record 'e vote_ext =
  vx_account_keys :: "'e \<Rightarrow> bytes list"
  vx_instructions :: "'e \<Rightarrow> (u8 \<times> bytes) list"
  vx_check_id :: "bytes \<Rightarrow> bool"
  vx_de_instruction :: "bytes \<Rightarrow> 'e vote_instruction option"
  vx_vote_last_slot :: "'e \<Rightarrow> u64 option"
  vx_update_last_slot :: "'e \<Rightarrow> u64 option"
  vx_tower_last_slot :: "'e \<Rightarrow> u64 option"

fun instruction_slot :: "'e vote_ext \<Rightarrow> 'e vote_instruction \<Rightarrow> u64 option" where
  "instruction_slot X (VoteIx v) = vx_vote_last_slot X v"
| "instruction_slot X (VoteSwitchIx v h) = vx_vote_last_slot X v"
| "instruction_slot X (UpdateVoteStateIx s) = vx_update_last_slot X s"
| "instruction_slot X (UpdateVoteStateSwitchIx s h) = vx_update_last_slot X s"
| "instruction_slot X (CompactUpdateVoteStateIx s) = vx_update_last_slot X s"
| "instruction_slot X (CompactUpdateVoteStateSwitchIx s h) = vx_update_last_slot X s"
| "instruction_slot X (TowerSyncIx s) = vx_tower_last_slot X s"
| "instruction_slot X (TowerSyncSwitchIx s h) = vx_tower_last_slot X s"
| "instruction_slot X OtherVoteIx = None"

definition extract_slot_from_vote_tx :: "'e vote_ext \<Rightarrow> 'e \<Rightarrow> u64 option" where
  "extract_slot_from_vote_tx X tx =
     (case get_at (vx_instructions X tx) 0 of
        None \<Rightarrow> None
      | Some (program_id_index, ix_data) \<Rightarrow>
          (case get_at (vx_account_keys X tx) (unat program_id_index) of
             None \<Rightarrow> None
           | Some program_id \<Rightarrow>
               if \<not> vx_check_id X program_id then None
               else (case vx_de_instruction X ix_data of
                       None \<Rightarrow> None
                     | Some vote_ix \<Rightarrow> instruction_slot X vote_ix)))"

text \<open>The end of the deserialization of a vote: the fields of \<open>VoteHelper\<close> and the slot of its transaction.\<close>

definition vote_of_helper :: "'e vote_ext \<Rightarrow> bytes \<Rightarrow> 'e \<Rightarrow> u64 \<Rightarrow> 'e vote" where
  "vote_of_helper X from_key transaction wallclock =
     \<lparr> vt_from = from_key, vt_transaction = transaction, vt_wallclock = wallclock,
       vt_slot = extract_slot_from_vote_tx X transaction \<rparr>"

section \<open>Signed values\<close>

record 'e crds_ext =
  cx_ser_data :: "'e crds_data \<Rightarrow> bytes option"
  cx_sha256 :: "bytes \<Rightarrow> bytes"
  cx_verify :: "bytes \<Rightarrow> bytes \<Rightarrow> bytes \<Rightarrow> bool"

fun data_pubkey :: "'e crds_data \<Rightarrow> bytes" where
  "data_pubkey (LegacyContactInfo contact_info) = lci_id contact_info"
| "data_pubkey (Vote i v) = vt_from v"
| "data_pubkey (LowestSlot i slots) = ls_from slots"
| "data_pubkey (LegacySnapshotHashes h) = ah_from h"
| "data_pubkey (AccountsHashes h) = ah_from h"
| "data_pubkey (EpochSlots i p) = es_from p"
| "data_pubkey (LegacyVersion v) = lv_pubkey v"
| "data_pubkey (Version v) = vn_pubkey v"
| "data_pubkey (NodeInstance n) = ni_pubkey n"
| "data_pubkey (DuplicateShred i s) = ds_from s"
| "data_pubkey (SnapshotHashes h) = sh_from h"
| "data_pubkey (ContactInfo n) = ci_pubkey n"
| "data_pubkey (RestartLastVotedForkSlots s) = rlv_from s"
| "data_pubkey (RestartHeaviestFork f) = rhf_from f"

fun data_wallclock :: "'e crds_data \<Rightarrow> u64" where
  "data_wallclock (LegacyContactInfo ci) = lci_wallclock ci"
| "data_wallclock (Vote i v) = vt_wallclock v"
| "data_wallclock (LowestSlot i s) = ls_wallclock s"
| "data_wallclock (LegacySnapshotHashes h) = ah_wallclock h"
| "data_wallclock (AccountsHashes h) = ah_wallclock h"
| "data_wallclock (EpochSlots i e) = es_wallclock e"
| "data_wallclock (LegacyVersion v) = lv_wallclock v"
| "data_wallclock (Version v) = vn_wallclock v"
| "data_wallclock (NodeInstance n) = ni_wallclock n"
| "data_wallclock (DuplicateShred i s) = ds_wallclock s"
| "data_wallclock (SnapshotHashes h) = sh_wallclock h"
| "data_wallclock (ContactInfo ci) = ci_wallclock ci"
| "data_wallclock (RestartLastVotedForkSlots s) = rlv_wallclock s"
| "data_wallclock (RestartHeaviestFork f) = rhf_wallclock f"

definition value_pubkey :: "'e crds_value \<Rightarrow> bytes" where "value_pubkey v = data_pubkey (cv_data v)"
definition value_wallclock :: "'e crds_value \<Rightarrow> u64" where "value_wallclock v = data_wallclock (cv_data v)"

definition signed_data :: "'e crds_ext \<Rightarrow> keypair \<Rightarrow> 'e crds_data \<Rightarrow> failure + 'e crds_value" where
  "signed_data X kp data =
     run_bind (unwrap (cx_ser_data X data)) (\<lambda>bs. Inr
       \<lparr> cv_signature = kp_sign kp bs, cv_data = data, cv_hash = cx_sha256 X bs \<rparr>)"

definition new_contact_info :: "'e crds_ext \<Rightarrow> keypair \<Rightarrow> 'e contact_info \<Rightarrow> failure + 'e crds_value" where
  "new_contact_info X kp info = signed_data X kp (ContactInfo info)"

definition new_legacy_contact_info :: "'e crds_ext \<Rightarrow> keypair \<Rightarrow> legacy_contact_info \<Rightarrow> failure + 'e crds_value" where
  "new_legacy_contact_info X kp info = signed_data X kp (LegacyContactInfo info)"

text \<open>\<open>Signature::default()\<close> and \<open>Hash::default()\<close> are all zeros.\<close>

definition unsigned_new_data :: "'e crds_data \<Rightarrow> 'e crds_value" where
  "unsigned_new_data data = \<lparr> cv_signature = replicate 64 0, cv_data = data, cv_hash = replicate 32 0 \<rparr>"

definition signable_data :: "'e crds_ext \<Rightarrow> 'e crds_value \<Rightarrow> failure + bytes" where
  "signable_data X v = unwrap (cx_ser_data X (cv_data v))"

text \<open>The trait's \<open>sign\<close>: \<open>set_signature(keypair.sign_message(signable_data()))\<close>.\<close>

definition sign_value :: "'e crds_ext \<Rightarrow> keypair \<Rightarrow> 'e crds_value \<Rightarrow> failure + 'e crds_value" where
  "sign_value X kp v = run_bind (signable_data X v) (\<lambda>bs. Inr (v\<lparr>cv_signature := kp_sign kp bs\<rparr>))"

definition signed_new_data :: "'e crds_ext \<Rightarrow> keypair \<Rightarrow> 'e crds_data \<Rightarrow> failure + 'e crds_value" where
  "signed_new_data X kp data = sign_value X kp (unsigned_new_data data)"

definition verify_value :: "'e crds_ext \<Rightarrow> 'e crds_value \<Rightarrow> failure + bool" where
  "verify_value X v =
     run_bind (signable_data X v) (\<lambda>bs. Inr (cx_verify X (cv_signature v) (value_pubkey v) bs))"

section \<open>Keys, wallclocks and signatures\<close>

lemma signed_data_Inr:
  "signed_data X kp data = Inr v \<longleftrightarrow>
   (\<exists>bs. cx_ser_data X data = Some bs \<and> v = \<lparr> cv_signature = kp_sign kp bs, cv_data = data, cv_hash = cx_sha256 X bs \<rparr>)"
  by (auto simp: signed_data_def run_bind_eq_Inr unwrap_Inr)

lemma signed_new_data_Inr:
  "signed_new_data X kp data = Inr v \<longleftrightarrow>
   (\<exists>bs. cx_ser_data X data = Some bs \<and> v = \<lparr> cv_signature = kp_sign kp bs, cv_data = data, cv_hash = replicate 32 0 \<rparr>)"
  by (auto simp: signed_new_data_def sign_value_def signable_data_def unsigned_new_data_def run_bind_eq_Inr unwrap_Inr)

text \<open>What is relied on of the signature scheme: a key's signature of a message verifies under its public key.\<close>

definition signs_for :: "'e crds_ext \<Rightarrow> keypair \<Rightarrow> bool" where
  "signs_for X kp \<longleftrightarrow> (\<forall>m. cx_verify X (kp_sign kp m) (kp_pubkey kp) m)"

lemma verify_signed:
  assumes "signs_for X kp" "cx_ser_data X (cv_data v) = Some bs"
    and "cv_signature v = kp_sign kp bs" "value_pubkey v = kp_pubkey kp"
  shows "verify_value X v = Inr True"
  using assms by (simp add: verify_value_def signable_data_def signs_for_def)

lemma own_value_verifies:
  assumes "signs_for X kp" "data_pubkey data = kp_pubkey kp"
    and "signed_data X kp data = Inr v \<or> signed_new_data X kp data = Inr v"
  shows "verify_value X v = Inr True"
  using assms by (auto simp: signed_data_Inr signed_new_data_Inr value_pubkey_def intro!: verify_signed)

section \<open>Properties\<close>

text \<open>A vote has a slot exactly when its transaction's first instruction is addressed to an account that is the
  vote program and decodes to an instruction that carries a vote with a last slot.\<close>

theorem vote_slot_exactly:
  "vt_slot (vote_of_helper X from_key tx wallclock) = Some s \<longleftrightarrow>
   (\<exists>i ix_data rest program vote_ix. vx_instructions X tx = (i, ix_data) # rest \<and>
      unat i < length (vx_account_keys X tx) \<and> program = vx_account_keys X tx ! unat i \<and> vx_check_id X program \<and>
      vx_de_instruction X ix_data = Some vote_ix \<and> instruction_slot X vote_ix = Some s)"
  by (cases "vx_instructions X tx")
     (auto simp: vote_of_helper_def extract_slot_from_vote_tx_def get_at_def split: option.splits if_splits)

end
