(* ===== verification/NewestTable.thy ===== *)
theory NewestTable
  imports Prelude
begin

text \<open>
  The contract of a gossiped table: an update is kept unless the table has a value of the same key that
  is at least as new. From it: the table holds a newest value per key, delivery order does not matter
  as long as no two different values of a key are equally new, and repeated delivery changes nothing.
\<close>

locale newest_table =
  fixes look :: "'t \<Rightarrow> 'k \<Rightarrow> 'v option"
    and put_value :: "'t \<Rightarrow> 'v \<Rightarrow> 't"
    and key_of :: "'v \<Rightarrow> 'k"
    and stamp :: "'v \<Rightarrow> 'c::linorder"
  assumes look_put: "look (put_value t v) k =
    (if k = key_of v \<and> (\<forall>w. look t k = Some w \<longrightarrow> stamp w < stamp v) then Some v else look t k)"
begin

definition put_each :: "'t \<Rightarrow> 'v list \<Rightarrow> 't" where
  "put_each t vs = foldl put_value t vs"

lemma put_each_simps [simp]:
  "put_each t [] = t" "put_each t (v # vs) = put_each (put_value t v) vs"
  "put_each t (vs @ ws) = put_each (put_each t vs) ws"
  by (simp_all add: put_each_def)

lemma put_each_snoc: "put_each t (vs @ [v]) = put_value (put_each t vs) v"
  by simp

text \<open>The entry of a key never gets older and never disappears.\<close>

lemma look_put_each_mono:
  "look t k = Some w \<Longrightarrow> \<exists>w'. look (put_each t vs) k = Some w' \<and> stamp w \<le> stamp w'"
proof (induction vs rule: rev_induct)
  case (snoc v vs)
  then obtain w' where "look (put_each t vs) k = Some w'" "stamp w \<le> stamp w'" by blast
  then show ?case unfolding put_each_snoc look_put by (cases "k = key_of v \<and> stamp w' < stamp v") auto
qed simp

lemma look_put_each_member:
  "v \<in> set vs \<Longrightarrow> \<exists>w. look (put_each t vs) (key_of v) = Some w \<and> stamp v \<le> stamp w"
proof (induction vs arbitrary: t)
  case (Cons a vs)
  show ?case
  proof (cases "v = a")
    case True
    have "\<exists>w. look (put_value t v) (key_of v) = Some w \<and> stamp v \<le> stamp w"
      unfolding look_put by (cases "look t (key_of v)") (auto simp: not_less)
    then obtain w where "look (put_value t v) (key_of v) = Some w" "stamp v \<le> stamp w" by blast
    then show ?thesis using look_put_each_mono [of "put_value t v" "key_of v" w vs] True by fastforce
  next
    case False
    then show ?thesis using Cons by simp
  qed
qed simp

lemma look_put_each_origin:
  "look (put_each t vs) k = Some w \<Longrightarrow> look t k = Some w \<or> (w \<in> set vs \<and> key_of w = k)"
proof (induction vs rule: rev_induct)
  case (snoc v vs)
  then show ?case unfolding put_each_snoc look_put by (auto split: if_splits)
qed simp

text \<open>A newest value: at least as new as the entry before and as every delivered value of the key, and one of them.\<close>

lemma newest_wins:
  assumes w: "look (put_each t vs) k = Some w"
  shows "look t k = Some w \<or> w \<in> set vs \<and> key_of w = k"
    and "v \<in> set vs \<Longrightarrow> key_of v = k \<Longrightarrow> stamp v \<le> stamp w"
    and "look t k = Some v \<Longrightarrow> stamp v \<le> stamp w"
  using look_put_each_origin [OF w] look_put_each_member [of v vs t] look_put_each_mono [of t k v vs] w by auto

lemma look_put_each_None:
  "look (put_each t vs) k = None \<longleftrightarrow> look t k = None \<and> (\<forall>v \<in> set vs. key_of v \<noteq> k)"
proof (induction vs rule: rev_induct)
  case (snoc v vs)
  then show ?case unfolding put_each_snoc look_put by (auto split: if_splits)
qed simp

lemma put_each_keep:
  "(\<And>v. v \<in> set vs \<Longrightarrow> key_of v = k \<Longrightarrow> \<exists>w. look t k = Some w \<and> stamp v \<le> stamp w) \<Longrightarrow>
   look (put_each t vs) k = look t k"
proof (induction vs rule: rev_induct)
  case (snoc v vs)
  then have "look (put_each t vs) k = look t k" by simp
  moreover have "key_of v = k \<Longrightarrow> \<exists>w. look t k = Some w \<and> stamp v \<le> stamp w" using snoc.prems by simp
  ultimately show ?case unfolding put_each_snoc look_put by (auto simp: not_less)
qed simp

text \<open>Convergence: what is delivered decides, not the order nor the number of times.\<close>

lemma put_each_converges:
  assumes set_eq: "set vs = set ws"
    and ties: "\<And>v w. v \<in> set vs \<Longrightarrow> w \<in> set vs \<Longrightarrow> key_of v = key_of w \<Longrightarrow> stamp v = stamp w \<Longrightarrow> v = w"
  shows "look (put_each t vs) k = look (put_each t ws) k"
proof (cases "look (put_each t vs) k")
  case None
  then have "look (put_each t ws) k = None" using set_eq by (simp add: look_put_each_None)
  then show ?thesis using None by simp
next
  case (Some a)
  then have "look (put_each t ws) k \<noteq> None" by (metis look_put_each_None set_eq option.distinct(1))
  then obtain b where b: "look (put_each t ws) k = Some b" by blast
  note a = newest_wins [OF Some] and b' = newest_wins [OF b, folded set_eq]
  have "a = b"
  proof (cases "look t k = Some a \<or> look t k = Some b")
    case True
    show ?thesis using True
    proof
      assume "look t k = Some a"
      then show ?thesis using put_each_keep [of ws k t] a(2) set_eq b by auto
    next
      assume "look t k = Some b"
      then show ?thesis using put_each_keep [of vs k t] b'(2) Some by auto
    qed
  next
    case False
    then have "a \<in> set vs" "key_of a = k" "b \<in> set vs" "key_of b = k" using a(1) b'(1) by auto
    moreover from this have "stamp a = stamp b" using a(2) [of b] b'(2) [of a] by simp
    ultimately show ?thesis using ties [of a b] by simp
  qed
  then show ?thesis using Some b by simp
qed

lemma put_each_again: "look (put_each (put_each t vs) vs) k = look (put_each t vs) k"
  by (rule put_each_keep) (use look_put_each_member in blast)

end

end
