(* ===== verification/Crds.thy ===== *)
theory Crds
  imports CrdsData NewestTable
begin

text \<open>
  \<^verbatim>\<open>crates/dc-gossip/src/crds.rs\<close>: the table of the newest value of every node. The hash map is a list with
  one binding per key; its order stands for the unspecified iteration order. The clock of \<open>now()\<close> is an
  argument, seconds since the epoch.
\<close>

section \<open>The code\<close>

record 'e crds_table =
  ct_entries :: "(bytes \<times> 'e crds_value) list"

definition now_secs :: "nat option \<Rightarrow> failure + u64" where
  "now_secs clock = run_bind (unwrap clock) (\<lambda>secs. Inr (word_of_nat secs))"

definition new_table :: "'e crds_table" where
  "new_table = \<lparr> ct_entries = [] \<rparr>"

definition merge_value :: "'e crds_table \<Rightarrow> 'e crds_value \<Rightarrow> 'e crds_table \<times> bool" where
  "merge_value t v =
     (let key = value_pubkey v; incoming = value_wallclock v;
          inserted = (t\<lparr>ct_entries := hash_insert key v (ct_entries t)\<rparr>, True)
      in case map_of (ct_entries t) key of
           Some existing \<Rightarrow> if incoming \<le> value_wallclock existing then (t, False) else inserted
         | None \<Rightarrow> inserted)"

text \<open>\<open>now() - 15 * 60\<close> wraps for a clock in the first fifteen minutes of 1970.\<close>

definition prune :: "nat option \<Rightarrow> 'e crds_table \<Rightarrow> failure + 'e crds_table" where
  "prune clock t =
     run_bind (now_secs clock) (\<lambda>now.
       let cutoff = now - 15 * 60
       in Inr (t\<lparr>ct_entries := filter (\<lambda>(k, v). cutoff < value_wallclock v) (ct_entries t)\<rparr>))"

definition data_gossip_addr :: "'e crds_data \<Rightarrow> socket_addr option" where
  "data_gossip_addr data =
     (case data of ContactInfo ci \<Rightarrow> gossip_addr ci | LegacyContactInfo lci \<Rightarrow> Some (lci_gossip lci) | _ \<Rightarrow> None)"

definition get_contact_infos :: "'e crds_table \<Rightarrow> (bytes \<times> socket_addr) list" where
  "get_contact_infos t =
     List.map_filter (\<lambda>(pk, v). map_option (\<lambda>addr. (pk, addr)) (data_gossip_addr (cv_data v))) (ct_entries t)"

definition crds_len :: "'e crds_table \<Rightarrow> nat" where
  "crds_len t = length (ct_entries t)"

definition all_contact_infos :: "'e crds_table \<Rightarrow> (bytes \<times> 'e contact_info) list" where
  "all_contact_infos t =
     List.map_filter (\<lambda>(pk, v). case cv_data v of ContactInfo ci \<Rightarrow> Some (pk, ci) | _ \<Rightarrow> None) (ct_entries t)"

definition data_slot :: "'e crds_data \<Rightarrow> u64 option" where
  "data_slot data =
     (case data of Vote i v \<Rightarrow> vt_slot v
      | RestartLastVotedForkSlots s \<Rightarrow> Some (rlv_last_voted_slot s)
      | RestartHeaviestFork f \<Rightarrow> Some (rhf_last_slot f)
      | _ \<Rightarrow> None)"

text \<open>\<open>Iterator::max\<close>.\<close>

fun iter_max :: "u64 list \<Rightarrow> u64 option" where
  "iter_max [] = None"
| "iter_max (x # xs) = (case iter_max xs of None \<Rightarrow> Some x | Some y \<Rightarrow> Some (max x y))"

definition get_highest_slot :: "'e crds_table \<Rightarrow> u64 option" where
  "get_highest_slot t = iter_max (List.map_filter (\<lambda>(pk, v). data_slot (cv_data v)) (ct_entries t))"

text \<open>The events, one for every entry with a gossip address; \<open>clock\<close> is what \<open>now()\<close> reads at each of them, and
  \<open>show_pubkey\<close> prints a key.\<close>

definition drain_events :: "(bytes \<Rightarrow> string) \<Rightarrow> (bytes \<Rightarrow> nat option) \<Rightarrow> 'e crds_table \<Rightarrow> failure + gossip_event list" where
  "drain_events show_pubkey clock t =
     run_map (\<lambda>(v, addr). run_bind (now_secs (clock (value_pubkey v))) (\<lambda>now. Inr (NewValidators
         \<lparr> vi_id = show_pubkey (value_pubkey v), vi_gossip_addr = addr, vi_tvu_addr = None, vi_tpu_addr = None,
           vi_last_seen = now, vi_version = value_wallclock v \<rparr>)))
       (List.map_filter (\<lambda>(pk, v). map_option (\<lambda>addr. (v, addr)) (data_gossip_addr (cv_data v))) (ct_entries t))"

section \<open>The table holds the newest values\<close>

abbreviation table_look :: "'e crds_table \<Rightarrow> bytes \<Rightarrow> 'e crds_value option" where
  "table_look t \<equiv> map_of (ct_entries t)"

abbreviation merged :: "'e crds_table \<Rightarrow> 'e crds_value \<Rightarrow> 'e crds_table" where
  "merged t v \<equiv> fst (merge_value t v)"

lemma table_look_merged:
  "table_look (merged t v) k =
    (if k = value_pubkey v \<and> (\<forall>w. table_look t k = Some w \<longrightarrow> value_wallclock w < value_wallclock v)
     then Some v else table_look t k)"
  by (auto simp: merge_value_def Let_def map_of_hash_insert split: option.splits)

interpretation crds: newest_table "\<lambda>t. map_of (ct_entries t)" "\<lambda>t v. fst (merge_value t v)" value_pubkey value_wallclock
  by unfold_locales (rule table_look_merged)

text \<open>The loop of the handler that merges the values of a message.\<close>

definition merge_all :: "'e crds_table \<Rightarrow> 'e crds_value list \<Rightarrow> 'e crds_table" where
  "merge_all t values = foldl (\<lambda>t v. fst (merge_value t v)) t values"

lemma merge_all_put_each: "merge_all t vs = crds.put_each t vs"
  by (simp add: merge_all_def crds.put_each_def)

lemma merge_all_simps [simp]: "merge_all t [] = t" "merge_all t (v # vs) = merge_all (merged t v) vs"
  by (simp_all add: merge_all_def)

lemma merge_value_True:
  "snd (merge_value t v) \<longleftrightarrow> (\<forall>w. table_look t (value_pubkey v) = Some w \<longrightarrow> value_wallclock w < value_wallclock v)"
  by (auto simp: merge_value_def Let_def not_le split: option.splits)

text \<open>Every value is under its own key, and no key twice.\<close>

definition table_ok :: "'e crds_table \<Rightarrow> bool" where
  "table_ok t \<longleftrightarrow> distinct (map fst (ct_entries t)) \<and> (\<forall>(k, v) \<in> set (ct_entries t). value_pubkey v = k)"

lemma table_ok_new: "table_ok new_table"
  by (simp add: table_ok_def new_table_def)

lemma entries_merged: "set (ct_entries (merged t v)) \<subseteq> insert (value_pubkey v, v) (set (ct_entries t))"
  using set_hash_insert [of "value_pubkey v" v "ct_entries t"]
  by (auto simp: merge_value_def Let_def split: option.splits)

lemma table_ok_merged:
  assumes "table_ok t"
  shows "table_ok (merged t v)"
proof -
  have "distinct (map fst (ct_entries (merged t v)))"
    using assms by (auto simp: table_ok_def merge_value_def Let_def distinct_hash_insert split: option.splits)
  moreover have "\<forall>(k, w) \<in> set (ct_entries (merged t v)). value_pubkey w = k"
    using assms entries_merged [of t v] unfolding table_ok_def by fast
  ultimately show ?thesis by (simp add: table_ok_def)
qed

lemma table_ok_merge_all: "table_ok t \<Longrightarrow> table_ok (merge_all t vs)"
  by (induction vs arbitrary: t) (simp_all add: table_ok_merged)

lemma prune_Inr:
  "prune clock t = Inr t' \<longleftrightarrow> (\<exists>secs. clock = Some secs \<and>
     t' = t\<lparr>ct_entries := filter (\<lambda>(k, v). word_of_nat secs - 15 * 60 < value_wallclock v) (ct_entries t)\<rparr>)"
  by (auto simp: prune_def now_secs_def run_bind_eq_Inr unwrap_Inr Let_def)

lemma entries_prune: "prune clock t = Inr t' \<Longrightarrow> set (ct_entries t') \<subseteq> set (ct_entries t)"
  by (auto simp: prune_Inr)

lemma table_ok_prune: "table_ok t \<Longrightarrow> prune clock t = Inr t' \<Longrightarrow> table_ok t'"
  by (auto simp: prune_Inr table_ok_def distinct_map intro: inj_on_subset)

lemma entry_look: "table_ok t \<Longrightarrow> (k, v) \<in> set (ct_entries t) \<longleftrightarrow> table_look t k = Some v"
  by (simp add: table_ok_def)

lemma look_key: "table_ok t \<Longrightarrow> table_look t k = Some v \<Longrightarrow> value_pubkey v = k"
  by (auto simp: table_ok_def dest: map_of_SomeD)

section \<open>What the table reports\<close>

lemma get_contact_infos_iff:
  "(k, addr) \<in> set (get_contact_infos t) \<longleftrightarrow>
   (\<exists>v. (k, v) \<in> set (ct_entries t) \<and> data_gossip_addr (cv_data v) = Some addr)"
  by (force simp: get_contact_infos_def map_filter_def split: option.splits)

lemma all_contact_infos_iff:
  "(k, ci) \<in> set (all_contact_infos t) \<longleftrightarrow> (\<exists>v. (k, v) \<in> set (ct_entries t) \<and> cv_data v = ContactInfo ci)"
  by (force simp: all_contact_infos_def map_filter_def split: crds_data.splits)

lemma iter_max_None: "iter_max xs = None \<longleftrightarrow> xs = []"
  by (cases xs) (auto split: option.splits)

lemma iter_max_Some: "iter_max xs = Some m \<longleftrightarrow> m \<in> set xs \<and> (\<forall>x \<in> set xs. x \<le> m)"
proof (induction xs arbitrary: m)
  case (Cons a xs)
  show ?case
  proof (cases "iter_max xs")
    case None
    then show ?thesis by (auto simp: iter_max_None)
  next
    case (Some b)
    then have b: "b \<in> set xs" "\<forall>x \<in> set xs. x \<le> b" using Cons.IH by auto
    have "iter_max (a # xs) = Some m \<longleftrightarrow> m = max a b" using Some by auto
    also have "\<dots> \<longleftrightarrow> m \<in> set (a # xs) \<and> (\<forall>x \<in> set (a # xs). x \<le> m)"
      using b by (auto simp: max_def intro: antisym)
    finally show ?thesis .
  qed
qed simp

lemma slots_of_entries:
  "set (List.map_filter (\<lambda>(pk, v). data_slot (cv_data v)) es) = {s. \<exists>(k, v) \<in> set es. data_slot (cv_data v) = Some s}"
  by (force simp: map_filter_def split: option.splits)

definition reported_slots :: "'e crds_table \<Rightarrow> u64 set" where
  "reported_slots t = {s. \<exists>(k, v) \<in> set (ct_entries t). data_slot (cv_data v) = Some s}"

lemma get_highest_slot_Some: "get_highest_slot t = Some s \<longleftrightarrow> s \<in> reported_slots t \<and> (\<forall>r \<in> reported_slots t. r \<le> s)"
  by (simp only: get_highest_slot_def iter_max_Some slots_of_entries reported_slots_def)

lemma get_highest_slot_None: "get_highest_slot t = None \<longleftrightarrow> reported_slots t = {}"
  by (simp only: get_highest_slot_def iter_max_None reported_slots_def slots_of_entries [symmetric] set_empty)

lemma finite_reported: "finite (reported_slots t)"
  unfolding reported_slots_def slots_of_entries [symmetric] by simp

lemma drain_events_ok:
  assumes "\<And>k. clock k \<noteq> None"
  shows "\<exists>es. drain_events show_pubkey clock t = Inr es"
proof -
  have "\<forall>k. \<exists>secs. clock k = Some secs" using assms by blast
  then obtain secs where "\<And>k. clock k = Some (secs k)" by metis
  then show ?thesis unfolding drain_events_def
    by (intro exI) (rule run_map_ok, simp add: now_secs_def split_beta)
qed

section \<open>Properties\<close>

text \<open>C19. After a batch of values is merged, a key has an entry exactly when it had one or some value of the batch is
  its; the entry is the one before or one of the batch, and nothing of the key seen so far is newer.\<close>

theorem merge_keeps_newest:
  "(table_look (merge_all t vs) k = None \<longleftrightarrow> table_look t k = None \<and> k \<notin> value_pubkey ` set vs) \<and>
   (table_look (merge_all t vs) k = Some w \<longrightarrow>
      (table_look t k = Some w \<or> w \<in> set vs \<and> value_pubkey w = k) \<and>
      (\<forall>v \<in> set vs. value_pubkey v = k \<longrightarrow> value_wallclock v \<le> value_wallclock w) \<and>
      (\<forall>v. table_look t k = Some v \<longrightarrow> value_wallclock v \<le> value_wallclock w))"
  unfolding merge_all_put_each using crds.look_put_each_None [of t vs k] crds.newest_wins [of t vs k w] by auto

definition example_value :: "u8 \<Rightarrow> u64 \<Rightarrow> u64 \<Rightarrow> unit crds_value" where
  "example_value b wallclock token = unsigned_new_data (NodeInstance
     \<lparr> ni_pubkey = replicate 32 b, ni_wallclock = wallclock, ni_timestamp = 500, ni_token = token \<rparr>)"

lemma example_value_simps [simp]:
  "value_pubkey (example_value b c n) = replicate 32 b" "value_wallclock (example_value b c n) = c"
  by (simp_all add: example_value_def unsigned_new_data_def value_pubkey_def value_wallclock_def)

theorem merge_keeps_newest_witness:
  "table_look (merge_all new_table [example_value 7 5 1, example_value 7 9 2, example_value 7 6 3]) (replicate 32 7) \<noteq> None"
  using merge_keeps_newest [of new_table "[example_value 7 5 1, example_value 7 9 2, example_value 7 6 3]" "replicate 32 7"]
  by simp

text \<open>Nodes that receive the same values hold the same entries, whatever the order and however often a value
  arrives, as long as no node signs two different values with the same wallclock.\<close>

theorem merge_order_irrelevant:
  assumes "set vs = set ws"
    and "inj_on (\<lambda>v. (value_pubkey v, value_wallclock v)) (set vs)"
  shows "table_look (merge_all t vs) = table_look (merge_all t ws)"
proof
  fix k
  have "v = w" if "v \<in> set vs" "w \<in> set vs" "value_pubkey v = value_pubkey w" "value_wallclock v = value_wallclock w" for v w
    using inj_onD [OF assms(2), of v w] that by simp
  then show "table_look (merge_all t vs) k = table_look (merge_all t ws) k"
    unfolding merge_all_put_each by (rule crds.put_each_converges [OF assms(1)])
qed

theorem merge_order_irrelevant_witness:
  "table_look (merge_all new_table [example_value 7 5 1, example_value 8 9 2, example_value 7 6 3]) =
   table_look (merge_all new_table [example_value 7 6 3, example_value 7 5 1, example_value 8 9 2, example_value 7 5 1])"
  by (rule merge_order_irrelevant) auto

text \<open>The highest slot is the maximum of the slots that the table's votes and restart records report, and there is
  none exactly when they report none.\<close>

theorem highest_slot_is_max:
  "get_highest_slot t = (if reported_slots t = {} then None else Some (Max (reported_slots t)))"
proof (cases "reported_slots t = {}")
  case True
  then show ?thesis by (simp add: get_highest_slot_None)
next
  case False
  then have "get_highest_slot t = Some (Max (reported_slots t))"
    by (simp add: get_highest_slot_Some finite_reported)
  then show ?thesis using False by simp
qed

text \<open>C37. Pruning compares a cutoff in seconds with wallclocks that nodes stamp in milliseconds. From November 2023 to
  the end of the 64-bit range divided by a thousand, an entry that is up to fifty years old stays in the table.\<close>

theorem prune_keeps_fifty_years:
  assumes "1700000000 \<le> secs" "secs < 2 ^ 64 div 1000"
    and stamps: "\<And>k v. (k, v) \<in> set (ct_entries t) \<Longrightarrow> 1000 * secs \<le> unat (value_wallclock v) + 1577880000000"
  shows "prune (Some secs) t = Inr t"
proof -
  let ?now = "word_of_nat secs :: u64"
  have now: "unat ?now = secs" using assms(2) by (simp add: unat_of_nat)
  have "(15 * 60 :: u64) \<le> ?now" using assms(1) now by (simp add: word_le_nat_alt)
  then have cutoff: "unat (?now - 15 * 60) = secs - 900" by (simp add: unat_sub now)
  have "?now - 15 * 60 < value_wallclock v" if "(k, v) \<in> set (ct_entries t)" for k v
    using stamps [OF that] assms(1) by (simp only: word_less_nat_alt cutoff)
  then have "\<forall>(k, v) \<in> set (ct_entries t). ?now - 15 * 60 < value_wallclock v" by fast
  then have "filter (\<lambda>(k, v). ?now - 15 * 60 < value_wallclock v) (ct_entries t) = ct_entries t"
    by (rule filter_True)
  then show ?thesis by (simp add: prune_def now_secs_def Let_def)
qed

theorem prune_keeps_fifty_years_witness:
  "prune (Some 1735689600) (merged new_table (example_value 7 157809600000 1)) =
   Inr (merged new_table (example_value 7 157809600000 1))"
  by (rule prune_keeps_fifty_years) (auto simp: merge_value_def new_table_def)

text \<open>The table has one entry per node for all kinds of data: a value of another kind, such as a vote, replaces the
  node's contact info when it is newer, and the node is no longer among the contacts.\<close>

theorem newer_value_hides_contact:
  assumes "table_ok t" "data_gossip_addr (cv_data v) = None"
    and "\<And>w. table_look t (value_pubkey v) = Some w \<Longrightarrow> value_wallclock w < value_wallclock v"
  shows "value_pubkey v \<notin> fst ` set (get_contact_infos (merged t v))"
proof
  assume "value_pubkey v \<in> fst ` set (get_contact_infos (merged t v))"
  then obtain w addr where w: "(value_pubkey v, w) \<in> set (ct_entries (merged t v))"
      "data_gossip_addr (cv_data w) = Some addr"
    by (auto simp: get_contact_infos_iff)
  have "table_look (merged t v) (value_pubkey v) = Some w"
    using entry_look [OF table_ok_merged [OF assms(1)]] w(1) by blast
  moreover have "table_look (merged t v) (value_pubkey v) = Some v" using assms(3) by (simp add: table_look_merged)
  ultimately show False using w(2) assms(2) by simp
qed

theorem newer_value_hides_contact_witness:
  "replicate 32 7 \<notin> fst ` set (get_contact_infos (merged (merged new_table
     (unsigned_new_data (ContactInfo (contact_info_of_lite example_lite)))) (example_value 7 2000 1)))"
proof -
  let ?c = "unsigned_new_data (ContactInfo (contact_info_of_lite example_lite))"
  have c: "value_pubkey ?c = replicate 32 7" "value_wallclock ?c = 1000"
    by (simp_all add: unsigned_new_data_def value_pubkey_def value_wallclock_def contact_info_of_lite_def example_lite_def)
  have "value_pubkey (example_value 7 2000 1) \<notin> fst ` set (get_contact_infos (merged (merged new_table ?c) (example_value 7 2000 1)))"
  proof (rule newer_value_hides_contact)
    show "table_ok (merged new_table ?c)" by (intro table_ok_merged table_ok_new)
    show "data_gossip_addr (cv_data (example_value 7 2000 1)) = None"
      by (simp add: example_value_def unsigned_new_data_def data_gossip_addr_def)
    show "value_wallclock w < value_wallclock (example_value 7 2000 1)"
      if "table_look (merged new_table ?c) (value_pubkey (example_value 7 2000 1)) = Some w" for w
      using that by (simp add: table_look_merged c new_table_def) (auto simp: c)
  qed
  then show ?thesis by simp
qed

end
