(* ===== verification/CrdsFilter.thy ===== *)
theory CrdsFilter
  imports Complex_Main GossipTypes
begin

text \<open>
  \<^verbatim>\<open>crates/dc-gossip/src/crds_filter.rs\<close>: the filter of a pull request. The 64-bit hash space is cut into
  \<open>2 ^ mask_bits\<close> partitions; the mask names one. The operations of \<^verbatim>\<open>f64\<close> are a record of functions, the
  Bloom filter of \<^verbatim>\<open>solana_bloom\<close> is a value that \<open>bloom_random\<close> makes.
\<close>

section \<open>The code\<close>

record 'f f64_ops =
  f_of_nat :: "nat \<Rightarrow> 'f"
  f_lit :: "rat \<Rightarrow> 'f"
  f_neg :: "'f \<Rightarrow> 'f"
  f_sub :: "'f \<Rightarrow> 'f \<Rightarrow> 'f"
  f_div :: "'f \<Rightarrow> 'f \<Rightarrow> 'f"
  f_ln :: "'f \<Rightarrow> 'f"
  f_exp :: "'f \<Rightarrow> 'f"
  f_log2 :: "'f \<Rightarrow> 'f"
  f_ceil :: "'f \<Rightarrow> 'f"
  f_max :: "'f \<Rightarrow> 'f \<Rightarrow> 'f"
  f_to_u32 :: "'f \<Rightarrow> u32"
  f_to_usize :: "'f \<Rightarrow> nat"

record 'b crds_filter =
  cf_filter :: 'b
  cf_mask :: u64
  cf_mask_bits :: u32

definition MASK_BITS :: nat where "MASK_BITS = 7427"
definition MIN_NUM_BLOOM_ITEMS :: nat where "MIN_NUM_BLOOM_ITEMS = 65536"

definition max_items :: "'f f64_ops \<Rightarrow> 'f \<Rightarrow> 'f \<Rightarrow> 'f \<Rightarrow> 'f" where
  "max_items F m p k =
     f_ceil F (f_div F m (f_div F (f_neg F k)
       (f_ln F (f_sub F (f_lit F 1) (f_exp F (f_div F (f_ln F p) k))))))"

definition compute_mask_bits :: "'f f64_ops \<Rightarrow> 'f \<Rightarrow> 'f \<Rightarrow> u32" where
  "compute_mask_bits F num_items capacity =
     f_to_u32 F (f_max F (f_ceil F (f_log2 F (f_div F num_items capacity))) (f_lit F 0))"

definition compute_mask :: "u64 \<Rightarrow> u32 \<Rightarrow> failure + u64" where
  "compute_mask seed mask_bits =
     (if mask_bits = 0 then Inr (- 1)
      else if \<not> mask_bits \<le> 64 then Inl (Panicked AssertFailed)
      else if \<not> unat seed < 2 ^ unat mask_bits then Inl (Panicked AssertFailed)
      else let prefix = (if mask_bits = 64 then seed else push_bit (64 - unat mask_bits) seed);
               suffix = (if mask_bits = 64 then 0 else drop_bit (unat mask_bits) (- 1))
           in Inr (prefix OR suffix))"

text \<open>\<open>bloom_max_bytes * 8\<close> is a \<open>usize\<close> product; \<open>seed % num_partitions\<close> is taken in 128 bits.\<close>

definition mask_bits_for :: "'f f64_ops \<Rightarrow> nat \<Rightarrow> nat \<Rightarrow> u32" where
  "mask_bits_for F bloom_max_bytes num_items =
     compute_mask_bits F (f_of_nat F (max num_items MIN_NUM_BLOOM_ITEMS))
       (max_items F (f_of_nat F (bloom_max_bytes * 8 mod 2 ^ 64)) (f_lit F (1 / 10)) (f_lit F 8))"

definition new_seeded :: "'f f64_ops \<Rightarrow> (nat \<Rightarrow> 'f \<Rightarrow> nat \<Rightarrow> 'b) \<Rightarrow> nat \<Rightarrow> nat \<Rightarrow> u64 \<Rightarrow> failure + 'b crds_filter" where
  "new_seeded F bloom_random bloom_max_bytes num_items seed =
     (let max_bits = f_of_nat F (bloom_max_bytes * 8 mod 2 ^ 64);
          max_items_val = max_items F max_bits (f_lit F (1 / 10)) (f_lit F 8);
          mask_bits_val = mask_bits_for F bloom_max_bytes num_items;
          bloom = bloom_random (f_to_usize F max_items_val) (f_lit F (1 / 10)) (f_to_usize F max_bits);
          num_partitions = 2 ^ min (unat mask_bits_val) 63;
          seed' = word_of_nat (unat seed mod num_partitions)
      in run_bind (compute_mask seed' mask_bits_val) (\<lambda>mask. Inr
           \<lparr> cf_filter = bloom, cf_mask = mask, cf_mask_bits = mask_bits_val \<rparr>))"

definition new_filter :: "'f f64_ops \<Rightarrow> (nat \<Rightarrow> 'f \<Rightarrow> nat \<Rightarrow> 'b) \<Rightarrow> nat \<Rightarrow> nat \<Rightarrow> failure + 'b crds_filter" where
  "new_filter F bloom_random bloom_max_bytes num_items = new_seeded F bloom_random bloom_max_bytes num_items 0"

definition default_filter :: "'f f64_ops \<Rightarrow> (nat \<Rightarrow> 'f \<Rightarrow> nat \<Rightarrow> 'b) \<Rightarrow> failure + 'b crds_filter" where
  "default_filter F bloom_random =
     (let max_bits = f_of_nat F MASK_BITS;
          max_items_val = f_to_usize F (max_items F max_bits (f_lit F (1 / 10)) (f_lit F 8));
          mask_bits = compute_mask_bits F (f_of_nat F 0) (f_of_nat F max_items_val)
      in run_bind (compute_mask 0 mask_bits) (\<lambda>mask. Inr
           \<lparr> cf_filter = bloom_random max_items_val (f_lit F (1 / 10)) (f_to_usize F max_bits),
             cf_mask = mask, cf_mask_bits = mask_bits \<rparr>))"

section \<open>Masks and partitions\<close>

text \<open>A hash matches a mask when they agree once the bits below the partition are all set.\<close>

definition mask_matches :: "u64 \<Rightarrow> u32 \<Rightarrow> u64 \<Rightarrow> bool" where
  "mask_matches m mask_bits h \<longleftrightarrow> h OR drop_bit (unat mask_bits) (- 1) = m"

lemma compute_mask_Inr:
  assumes "mask_bits \<le> 64" "unat seed < 2 ^ unat mask_bits"
  shows "compute_mask seed mask_bits =
    Inr (push_bit (64 - unat mask_bits) seed OR drop_bit (unat mask_bits) (- 1))"
proof (cases "mask_bits = 0")
  case True
  then have "seed = 0" using assms(2) by (simp add: unat_eq_0)
  then show ?thesis using True by (simp add: compute_mask_def)
next
  case False
  then show ?thesis using assms by (simp add: compute_mask_def Let_def)
qed

lemma compute_mask_panics: "64 < mask_bits \<Longrightarrow> compute_mask seed mask_bits = Inl (Panicked AssertFailed)"
  by (auto simp: compute_mask_def not_less [symmetric])

lemma bit_suffix: "bit (drop_bit b (- 1 :: u64)) n \<longleftrightarrow> n < 64 - b"
  by (auto simp: bit_drop_bit_eq bit_minus_1_iff bit_mask_iff possible_bit_word)

text \<open>A hash is in the partition that its top bits name, and in no other.\<close>

lemma mask_matches_iff:
  fixes seed h :: u64
  assumes b: "b \<le> 64" and seed: "unat seed < 2 ^ b"
  shows "h OR drop_bit b (- 1) = push_bit (64 - b) seed OR drop_bit b (- 1) \<longleftrightarrow> drop_bit (64 - b) h = seed"
proof
  have "unat (take_bit b seed) = unat seed"
    unfolding unsigned_take_bit_eq using seed by (simp only: take_bit_eq_mod mod_less)
  then have "take_bit b seed = seed" by (simp only: word_unat_eq_iff)
  then have small: "bit seed n \<Longrightarrow> n < b" for n by (metis bit_take_bit_iff)
  {
    assume eq: "h OR drop_bit b (- 1) = push_bit (64 - b) seed OR drop_bit b (- 1)"
    show "drop_bit (64 - b) h = seed"
    proof (rule bit_word_eqI)
      fix n assume "n < LENGTH(64)"
      show "bit (drop_bit (64 - b) h) n = bit seed n"
      proof (cases "n < b")
        case True
        have "bit (h OR drop_bit b (- 1)) (64 - b + n) = bit (push_bit (64 - b) seed OR drop_bit b (- 1)) (64 - b + n)"
          using eq by simp
        moreover have "\<not> 64 - b + n < 64 - b" "64 - b + n < 64" "64 - b \<le> 64 - b + n" using True b by simp_all
        ultimately show ?thesis using b by (auto simp: bit_or_iff bit_mask_iff bit_push_bit_iff bit_drop_bit_eq)
      next
        case False
        then have "\<not> bit h (64 - b + n)" using b bit_imp_le_length [of h "64 - b + n"] by auto
        then show ?thesis using small [of n] False by (auto simp: bit_drop_bit_eq)
      qed
    qed
  next
    assume eq: "drop_bit (64 - b) h = seed"
    show "h OR drop_bit b (- 1) = push_bit (64 - b) seed OR drop_bit b (- 1)"
    proof (rule bit_word_eqI)
      fix n assume n: "n < LENGTH(64)"
      show "bit (h OR drop_bit b (- 1)) n = bit (push_bit (64 - b) seed OR drop_bit b (- 1)) n"
        unfolding eq [symmetric] using n
        by (cases "n < 64 - b") (auto simp: bit_or_iff bit_mask_iff bit_push_bit_iff bit_drop_bit_eq)
    qed
  }
qed

lemma new_seeded_eq:
  assumes "bits = mask_bits_for F bloom_max_bytes num_items" "unat bits \<le> 63" "unat seed < 2 ^ unat bits"
  shows "\<exists>bloom. new_seeded F bloom_random bloom_max_bytes num_items seed = Inr
    \<lparr> cf_filter = bloom, cf_mask = push_bit (64 - unat bits) seed OR drop_bit (unat bits) (- 1), cf_mask_bits = bits \<rparr>"
proof -
  have "min (unat bits) 63 = unat bits" using assms(2) by simp
  then have "(word_of_nat (unat seed mod 2 ^ min (unat bits) 63) :: u64) = seed" using assms(3) by simp
  moreover have "bits \<le> 64" using assms(2) by (simp add: word_le_nat_alt)
  ultimately show ?thesis
    using assms(3) by (auto simp: new_seeded_def Let_def compute_mask_Inr simp flip: assms(1))
qed

lemma new_seeded_mask_bits:
  "new_seeded F bloom_random bloom_max_bytes num_items seed = Inr f \<Longrightarrow>
   cf_mask_bits f = mask_bits_for F bloom_max_bytes num_items"
  by (auto simp: new_seeded_def Let_def elim!: run_bind_InrE)

lemma masks_exactly_one:
  assumes "bits \<le> 64"
  shows "\<exists>!seed. unat seed < 2 ^ unat bits \<and> (\<exists>m. compute_mask seed bits = Inr m \<and> mask_matches m bits h)"
proof (rule ex1I)
  let ?top = "drop_bit (64 - unat bits) h"
  have b: "unat bits \<le> 64" using assms by (simp add: word_le_nat_alt)
  have h: "unat h < 2 ^ 64" using unsigned_less [of h, where 'a = nat] by simp
  have "(2::nat) ^ 64 = 2 ^ unat bits * 2 ^ (64 - unat bits)" using b by (simp flip: power_add)
  then have "unat h div 2 ^ (64 - unat bits) < 2 ^ unat bits" 
    using h by (simp only: less_mult_imp_div_less)
  then have "unat ?top < 2 ^ unat bits"
    unfolding unsigned_drop_bit_eq using h by (simp add: drop_bit_eq_div take_bit_eq_mod)
  then show "unat ?top < 2 ^ unat bits \<and> (\<exists>m. compute_mask ?top bits = Inr m \<and> mask_matches m bits h)"
    using mask_matches_iff [OF b] by (simp add: compute_mask_Inr [OF assms] mask_matches_def)
  show "seed = ?top" if "unat seed < 2 ^ unat bits \<and> (\<exists>m. compute_mask seed bits = Inr m \<and> mask_matches m bits h)" for seed
    using that mask_matches_iff [OF b, of seed h]
    by (auto simp: compute_mask_Inr [OF assms] mask_matches_def eq_commute [of "h OR _"])
qed

section \<open>The partition count under exact arithmetic\<close>

text \<open>The operations on real numbers, with the saturating conversions of \<open>as\<close>.\<close>

definition real_ops :: "real f64_ops" where
  "real_ops = \<lparr> f_of_nat = real, f_lit = of_rat, f_neg = uminus, f_sub = minus, f_div = divide, f_ln = ln, f_exp = exp,
     f_log2 = log 2, f_ceil = (\<lambda>x. of_int \<lceil>x\<rceil>), f_max = max,
     f_to_u32 = (\<lambda>x. word_of_nat (min (2 ^ 32 - 1) (nat \<lfloor>x\<rfloor>))), f_to_usize = (\<lambda>x. nat \<lfloor>x\<rfloor>) \<rparr>"

lemma real_mask_bits:
  assumes "log 2 (n / m) \<le> 2 ^ 32 - 1"
  shows "unat (compute_mask_bits real_ops n m) = nat \<lceil>log 2 (n / m)\<rceil>"
proof -
  let ?c = "\<lceil>log 2 (n / m)\<rceil>"
  obtain k where k: "nat ?c = k" by simp
  have "?c \<le> 2 ^ 32 - 1" using assms by (simp add: ceiling_le_iff)
  then have "nat ?c \<le> nat (2 ^ 32 - 1)" by (rule nat_mono)
  then have "k \<le> 2 ^ 32 - 1" unfolding k by simp
  moreover have "nat \<lfloor>max (real_of_int ?c) 0\<rfloor> = k" unfolding k [symmetric] by (simp add: max_def)
  ultimately show ?thesis by (simp add: compute_mask_bits_def real_ops_def unat_of_nat k)
qed

section \<open>Properties\<close>

text \<open>Every 64-bit hash matches the mask of exactly one seed: the partitions of a mask size cover the hash space
  and do not overlap, and the partition of a hash is its top bits.\<close>

theorem masks_partition_hashes:
  assumes "bits \<le> 64"
  shows "\<exists>!seed. unat seed < 2 ^ unat bits \<and> (\<exists>m. compute_mask seed bits = Inr m \<and> mask_matches m bits h)"
  using assms by (rule masks_exactly_one)

theorem masks_partition_hashes_witness:
  "\<exists>!seed. unat seed < 2 ^ unat (6 :: u32) \<and>
     (\<exists>m. compute_mask seed 6 = Inr m \<and> mask_matches m 6 0xDEADBEEF00000000)"
  by (rule masks_partition_hashes) simp

text \<open>Under exact arithmetic the number of partitions is the least power of two that brings the items of one
  partition within the capacity of the Bloom filter.\<close>

theorem mask_bits_least:
  assumes "1 \<le> n" "n \<le> 2 ^ 64" "1 \<le> m" and bits: "bits = unat (compute_mask_bits real_ops n m)"
  shows "n / 2 ^ bits \<le> m \<and> (bits = 0 \<or> m < n / 2 ^ (bits - 1))"
proof -
  have pos: "0 < n / m" using assms by simp
  have "n / m \<le> 2 ^ 64" using assms by (simp add: divide_le_eq mult_left_le_one_le order_trans [OF assms(2)])
  then have log: "log 2 (n / m) \<le> 64" using pos by (simp add: log_le_iff powr_numeral)
  then have b: "bits = nat \<lceil>log 2 (n / m)\<rceil>" unfolding bits by (intro real_mask_bits) simp
  then have "log 2 (n / m) \<le> real bits" by linarith
  then have "n / m \<le> 2 powr real bits" using pos by (simp add: log_le_iff)
  then have up: "n / m \<le> 2 ^ bits" by (simp add: powr_realpow)
  have low: "2 ^ (bits - 1) < n / m" if "bits \<noteq> 0"
  proof -
    have "real (bits - 1) < log 2 (n / m)" using b that by linarith
    then have "2 powr real (bits - 1) < n / m" using pos by (simp add: less_log_iff)
    then show ?thesis by (simp add: powr_realpow)
  qed
  show ?thesis using up low assms(3) by (auto simp: field_simps)
qed

theorem mask_bits_least_witness:
  "65536 / 2 ^ unat (compute_mask_bits real_ops 65536 1389) \<le> (1389 :: real)"
  using mask_bits_least [OF _ _ _ refl, of 65536 1389] by simp

end
