(* ===== verification/PingPong.thy ===== *)
theory PingPong
  imports GossipTypes Repair
begin

text \<open>
  \<^verbatim>\<open>crates/dc-gossip/src/ping_pong.rs\<close>: the ping with its random token and the pong that answers it. The
  token of the random generator and the hash are arguments. \<open>Repair\<close> is imported for the last property:
  the pong of the repair protocol carries the same answer.
\<close>

definition PING_TOKEN_SIZE :: nat where "PING_TOKEN_SIZE = 32"

record gossip_ping =
  gp_from :: bytes
  gp_token :: bytes
  gp_signature :: bytes

record gossip_pong =
  po_from :: bytes
  po_hash :: bytes
  po_signature :: bytes

definition new_ping :: "bytes \<Rightarrow> keypair \<Rightarrow> gossip_ping" where
  "new_ping random_token key =
     \<lparr> gp_from = kp_pubkey key, gp_token = random_token, gp_signature = kp_sign key random_token \<rparr>"

definition new_pong :: "(bytes \<Rightarrow> bytes) \<Rightarrow> gossip_ping \<Rightarrow> keypair \<Rightarrow> gossip_pong" where
  "new_pong H ping key =
     (let buf = map (\<lambda>c. word_of_nat (of_char c)) ''SOLANA_PING_PONG'' @ gp_token ping;
          hash = H buf
      in \<lparr> po_from = kp_pubkey key, po_hash = hash, po_signature = kp_sign key hash \<rparr>)"

text \<open>What a peer checks of a pong: it answers the token it sent, and its sender signed the answer.\<close>

definition pong_answers :: "(bytes \<Rightarrow> bytes) \<Rightarrow> (bytes \<Rightarrow> bytes \<Rightarrow> bytes \<Rightarrow> bool) \<Rightarrow> gossip_ping \<Rightarrow> gossip_pong \<Rightarrow> bool" where
  "pong_answers H verify_sig ping pong \<longleftrightarrow>
     po_hash pong = H (pong_prefix @ gp_token ping) \<and> verify_sig (po_signature pong) (po_from pong) (po_hash pong)"

lemma new_pong_fields:
  "po_from (new_pong H ping key) = kp_pubkey key"
  "po_hash (new_pong H ping key) = H (pong_prefix @ gp_token ping)"
  "po_signature (new_pong H ping key) = kp_sign key (H (pong_prefix @ gp_token ping))"
  by (simp_all add: new_pong_def pong_prefix_def Let_def)

lemma new_pong_answers:
  "(\<And>m. verify_sig (kp_sign key m) (kp_pubkey key) m) \<Longrightarrow> pong_answers H verify_sig ping (new_pong H ping key)"
  by (simp add: pong_answers_def new_pong_fields)

section \<open>Properties\<close>

text \<open>Both protocols of the node answer a token in the same way: the packet that the repair socket sends is the tag
  7 followed by the three fields of the gossip pong for the same key and token.\<close>

theorem repair_pong_is_gossip_pong:
  assumes "sk_verifying_key our_key = kp_pubkey key" "sk_sign our_key = kp_sign key"
    and "pong = new_pong H ping key"
  shows "build_pong H (gp_token ping) our_key = u32_le 7 @ po_from pong @ po_hash pong @ po_signature pong"
  using assms by (simp add: build_pong_def new_pong_fields Let_def)

theorem repair_pong_is_gossip_pong_witness:
  "build_pong (\<lambda>m. rev m) [1, 2] \<lparr> sk_verifying_key = [9], sk_sign = (\<lambda>m. m) \<rparr> =
   u32_le 7 @ [9] @ rev (pong_prefix @ [1, 2]) @ rev (pong_prefix @ [1, 2])"
  using repair_pong_is_gossip_pong [of "\<lparr> sk_verifying_key = [9], sk_sign = (\<lambda>m. m) \<rparr>"
      "\<lparr> kp_pubkey = [9], kp_sign = (\<lambda>m. m) \<rparr>" _ "\<lambda>m. rev m" "\<lparr> gp_from = [8], gp_token = [1, 2], gp_signature = [] \<rparr>"]
  by (simp add: new_pong_fields)

end
