(* ===== verification/Protocol.thy ===== *)
theory Protocol
  imports Crds CrdsFilter PingPong ShortVec
begin

text \<open>
  \<^verbatim>\<open>crates/dc-gossip/src/protocol.rs\<close>: the messages, \<open>encode_to\<close> and \<open>decode_from\<close>. bincode is the record
  \<open>codec\<close>: the reader and writer of a whole message, the two readers that advance the cursor (with the
  bytes they take), and the readers and sizes of a value, a signature and data. \<open>'b\<close> is the Bloom filter.
\<close>

section \<open>The code\<close>

record prune_data =
  pd_pubkey :: bytes
  pd_prunes :: "bytes list"
  pd_signature :: bytes
  pd_destination :: bytes
  pd_wallclock :: u64

datatype ('e, 'b) protocol =
    PullRequest "'b crds_filter" "'e crds_value"
  | PullResponse bytes "'e crds_value list"
  | PushMessage bytes "'e crds_value list"
  | PruneMessage bytes prune_data
  | PingMessage gossip_ping
  | PongMessage gossip_pong
  | Unknown

record ('e, 'b) codec =
  cd_ser_protocol :: "('e, 'b) protocol \<Rightarrow> bytes option"
  cd_de_protocol :: "bytes \<Rightarrow> ('e, 'b) protocol option"
  cd_read_tag :: "bytes \<Rightarrow> (u32 \<times> nat) option"
  cd_read_pubkey :: "bytes \<Rightarrow> (bytes \<times> nat) option"
  cd_de_value :: "bytes \<Rightarrow> 'e crds_value option"
  cd_value_size :: "'e crds_value \<Rightarrow> nat option"
  cd_de_signature :: "bytes \<Rightarrow> bytes option"
  cd_signature_size :: "bytes \<Rightarrow> nat option"
  cd_de_data :: "bytes \<Rightarrow> 'e crds_data option"
  cd_data_size :: "'e crds_data \<Rightarrow> nat option"

definition encode_to :: "('e, 'b) codec \<Rightarrow> ('e, 'b) protocol \<Rightarrow> failure + bytes" where
  "encode_to X msg = or_fail EncodeError (cd_ser_protocol X msg)"

text \<open>\<open>&bytes[start..]\<close>.\<close>

definition slice_from :: "bytes \<Rightarrow> nat \<Rightarrow> failure + bytes" where
  "slice_from bs start = (if start \<le> length bs then Inr (drop start bs) else Inl (Panicked IndexOutOfBounds))"

definition size_or :: "nat \<Rightarrow> nat option \<Rightarrow> nat" where
  "size_or d n = (case n of None \<Rightarrow> d | Some k \<Rightarrow> k)"

text \<open>Where the cursor goes after a value that does not decode.\<close>

definition skip_bad_value :: "('e, 'b) codec \<Rightarrow> bytes \<Rightarrow> nat \<Rightarrow> bytes \<Rightarrow> failure + nat" where
  "skip_bad_value X bs start remaining =
     (case cd_de_signature X remaining of
        None \<Rightarrow> Inr (start + 64)
      | Some sig \<Rightarrow>
          let sig_size = size_or 64 (cd_signature_size X sig)
          in run_bind (slice_from bs (start + sig_size)) (\<lambda>after_sig.
               case cd_de_data X after_sig of
                 Some crds_data \<Rightarrow> Inr (start + sig_size + size_or 0 (cd_data_size X crds_data))
               | None \<Rightarrow> Inr (start + 64)))"

text \<open>The loop over \<open>0..count\<close>; a cursor that did not move ends it.\<close>

fun read_values :: "('e, 'b) codec \<Rightarrow> bytes \<Rightarrow> nat \<Rightarrow> nat \<Rightarrow> failure + 'e crds_value list" where
  "read_values X bs 0 start = Inr []"
| "read_values X bs (Suc count) start =
     run_bind (slice_from bs start) (\<lambda>remaining.
       case cd_de_value X remaining of
         Some val \<Rightarrow>
           run_bind (read_values X bs count (start + size_or 0 (cd_value_size X val))) (\<lambda>values. Inr (val # values))
       | None \<Rightarrow>
           run_bind (skip_bad_value X bs start remaining) (\<lambda>next.
             if next = start then Inr [] else read_values X bs count next))"

definition decode_slow :: "('e, 'b) codec \<Rightarrow> bytes \<Rightarrow> failure + ('e, 'b) protocol" where
  "decode_slow X bs =
     run_bind (or_fail DecodeError (cd_read_tag X bs)) (\<lambda>(tag, tag_bytes).
       if tag = 0 \<or> tag = 3 \<or> tag = 4 \<or> tag = 5 then or_fail DecodeError (cd_de_protocol X bs)
       else if tag = 1 \<or> tag = 2 then
         run_bind (or_fail DecodeError (cd_read_pubkey X (drop tag_bytes bs))) (\<lambda>(sender, key_bytes).
           let pos = tag_bytes + key_bytes
           in run_bind (slice_from bs pos) (\<lambda>len_bytes.
                case decode_len len_bytes of (count, count_bytes) \<Rightarrow>
                  run_bind (read_values X bs (unat count) (pos + count_bytes)) (\<lambda>values.
                    Inr (if tag = 1 then PullResponse sender values else PushMessage sender values))))
       else Inr Unknown)"

definition decode_from :: "('e, 'b) codec \<Rightarrow> bytes \<Rightarrow> failure + ('e, 'b) protocol" where
  "decode_from X bs = (case cd_de_protocol X bs of Some msg \<Rightarrow> Inr msg | None \<Rightarrow> decode_slow X bs)"

section \<open>bincode's layout\<close>

text \<open>
  What is relied on of bincode (fixed-width little-endian integers, fields in order): the readers of the
  tag and of a key take 4 and 32 bytes; a vector starts with an eight-byte length, so that a push or a
  pull response with fewer bytes after the key is no message; a signature is 64 bytes; a value is a
  signature and data.
\<close>

definition bincode_layout :: "('e, 'b) codec \<Rightarrow> bool" where
  "bincode_layout X \<longleftrightarrow>
     (\<forall>t bs. cd_read_tag X (u32_le t @ bs) = Some (t, 4)) \<and>
     (\<forall>pk bs. length pk = 32 \<longrightarrow> cd_read_pubkey X (pk @ bs) = Some (pk, 32)) \<and>
     (\<forall>t pk bs. t \<in> {1, 2} \<longrightarrow> length pk = 32 \<longrightarrow> length bs < 8 \<longrightarrow> cd_de_protocol X (u32_le t @ pk @ bs) = None) \<and>
     (\<forall>bs. cd_de_signature X bs = (if 64 \<le> length bs then Some (take 64 bs) else None)) \<and>
     (\<forall>sig. cd_signature_size X sig = Some 64) \<and>
     (\<forall>bs. cd_de_value X bs =
        (if 64 \<le> length bs
         then map_option (\<lambda>d. \<lparr> cv_signature = take 64 bs, cv_data = d, cv_hash = replicate 32 0 \<rparr>) (cd_de_data X (drop 64 bs))
         else None))"

lemma layout_tag: "bincode_layout X \<Longrightarrow> cd_read_tag X (u32_le t @ bs) = Some (t, 4)"
  unfolding bincode_layout_def by simp

lemma layout_pubkey: "bincode_layout X \<Longrightarrow> length pk = 32 \<Longrightarrow> cd_read_pubkey X (pk @ bs) = Some (pk, 32)"
  unfolding bincode_layout_def by simp

lemma layout_short:
  "bincode_layout X \<Longrightarrow> t \<in> {1, 2} \<Longrightarrow> length pk = 32 \<Longrightarrow> length bs < 8 \<Longrightarrow> cd_de_protocol X (u32_le t @ pk @ bs) = None"
  unfolding bincode_layout_def by (elim conjE allE impE) assumption+

lemma layout_signature: "bincode_layout X \<Longrightarrow> cd_de_signature X bs = (if 64 \<le> length bs then Some (take 64 bs) else None)"
  unfolding bincode_layout_def by simp

lemma layout_signature_size: "bincode_layout X \<Longrightarrow> cd_signature_size X sig = Some 64"
  unfolding bincode_layout_def by simp

lemma layout_value:
  "bincode_layout X \<Longrightarrow> cd_de_value X bs =
    (if 64 \<le> length bs
     then map_option (\<lambda>d. \<lparr> cv_signature = take 64 bs, cv_data = d, cv_hash = replicate 32 0 \<rparr>) (cd_de_data X (drop 64 bs))
     else None)"
  unfolding bincode_layout_def by (elim conjE) (erule spec)

lemma slice_from_ok [simp]: "start \<le> length bs \<Longrightarrow> slice_from bs start = Inr (drop start bs)"
  by (simp add: slice_from_def)

lemma slice_from_panic [simp]: "length bs < start \<Longrightarrow> slice_from bs start = Inl (Panicked IndexOutOfBounds)"
  by (simp add: slice_from_def)

lemma slice_from_Inr: "slice_from bs start = Inr r \<longleftrightarrow> start \<le> length bs \<and> r = drop start bs"
  by (auto simp: slice_from_def)

text \<open>A value fails to decode when its signature or its data does; so the data never decodes after it.\<close>

lemma skip_is_64:
  assumes "bincode_layout X" "cd_de_value X remaining = None" "remaining = drop start bs"
  shows "skip_bad_value X bs start remaining = Inr (start + 64)"
proof (cases "64 \<le> length remaining")
  case False
  then show ?thesis by (simp add: skip_bad_value_def layout_signature [OF assms(1)])
next
  case True
  then have "cd_de_data X (drop (start + 64) bs) = None"
    using assms by (simp add: layout_value add.commute)
  moreover have "start + 64 \<le> length bs" using True assms(3) by simp
  ultimately show ?thesis
    using True by (simp add: skip_bad_value_def layout_signature [OF assms(1)] layout_signature_size [OF assms(1)]
        size_or_def)
qed

text \<open>The slow path on a push or a pull response.\<close>

lemma decode_slow_values:
  assumes "bincode_layout X" "length pk = 32" "tag \<in> {1, 2}"
  shows "decode_slow X (u32_le tag @ pk @ bs) =
    (case decode_len bs of (count, k) \<Rightarrow>
       run_bind (read_values X (u32_le tag @ pk @ bs) (unat count) (36 + k)) (\<lambda>values.
         Inr (if tag = 1 then PullResponse pk values else PushMessage pk values)))"
proof -
  have "(tag = 1 \<or> tag = 2) \<and> \<not> (tag = 0 \<or> tag = 3 \<or> tag = 4 \<or> tag = 5)" using assms(3) by auto
  then show ?thesis
    using assms(2) by (simp add: decode_slow_def layout_tag [OF assms(1)] layout_pubkey [OF assms(1)] Let_def)
qed

lemma read_values_past_end:
  "length bs < start \<Longrightarrow> 0 < count \<Longrightarrow> read_values X bs count start = Inl (Panicked IndexOutOfBounds)"
  by (cases count) simp_all

text \<open>Well-formed values after a compact length are all read.\<close>

lemma read_values_all:
  assumes "\<And>v bs. v \<in> set vs \<Longrightarrow> cd_de_value X (enc v @ bs) = Some v"
    and "\<And>v. v \<in> set vs \<Longrightarrow> cd_value_size X v = Some (length (enc v))"
    and "start \<le> length bs" "drop start bs = concat (map enc vs) @ rest"
  shows "read_values X bs (length vs) start = Inr vs"
  using assms
proof (induction vs arbitrary: start)
  case (Cons v vs)
  have step: "cd_de_value X (drop start bs) = Some v" using Cons.prems(1) [of v "concat (map enc vs) @ rest"] Cons.prems(4) by simp
  have "drop (start + length (enc v)) bs = concat (map enc vs) @ rest"
    using Cons.prems(4) by (simp only: add.commute [of start] flip: drop_drop) simp
  moreover have "length (enc v) \<le> length (drop start bs)" unfolding Cons.prems(4) by simp
  then have "start + length (enc v) \<le> length bs" using Cons.prems(3) by simp
  ultimately have "read_values X bs (length vs) (start + length (enc v)) = Inr vs"
    using Cons.prems(1,2) by (intro Cons.IH) auto
  then show ?case using step Cons.prems(2,3) by (simp add: size_or_def)
qed simp

text \<open>Every value that the loop yields was decoded from a suffix of the packet.\<close>

lemma read_values_origin:
  "read_values X bs count start = Inr res \<Longrightarrow>
   length res \<le> count \<and> (\<forall>v \<in> set res. \<exists>i \<le> length bs. cd_de_value X (drop i bs) = Some v)"
proof (induction X bs count start arbitrary: res rule: read_values.induct)
  case (2 X bs count start)
  then have start: "start \<le> length bs" by (cases "start \<le> length bs") simp_all
  show ?case
  proof (cases "cd_de_value X (drop start bs)")
    case (Some val)
    then obtain vs where vs: "read_values X bs count (start + size_or 0 (cd_value_size X val)) = Inr vs" "res = val # vs"
      using "2.prems" start by (auto elim!: run_bind_InrE)
    have "length vs \<le> count \<and> (\<forall>v \<in> set vs. \<exists>i \<le> length bs. cd_de_value X (drop i bs) = Some v)"
      using "2.IH"(2) [OF Some vs(1)] .
    then show ?thesis using Some start vs(2) by auto
  next
    case None
    then obtain "next" where n: "skip_bad_value X bs start (drop start bs) = Inr next"
        "(if next = start then Inr [] else read_values X bs count next) = Inr res"
      using "2.prems" start by (auto elim!: run_bind_InrE)
    show ?thesis
    proof (cases "next = start")
      case True
      then show ?thesis using n(2) by simp
    next
      case False
      then have "length res \<le> count \<and> (\<forall>v \<in> set res. \<exists>i \<le> length bs. cd_de_value X (drop i bs) = Some v)"
        using n "2.IH"(1) [OF None False] by simp
      then show ?thesis by auto
    qed
  qed
qed simp

lemma read_values_at_end:
  assumes "bincode_layout X" "start = length bs" "2 \<le> count"
  shows "read_values X bs count start = Inl (Panicked IndexOutOfBounds)"
proof -
  obtain k where k: "count = Suc (Suc k)" using assms(3) by (metis Suc_le_D numeral_2_eq_2 Suc_le_mono)
  have none: "cd_de_value X [] = None" by (simp add: layout_value [OF assms(1)])
  have "skip_bad_value X bs start [] = Inr (start + 64)"
    using skip_is_64 [OF assms(1) none, of start bs] assms(2) by simp
  then show ?thesis using assms(2) none by (simp add: k)
qed

lemma slow_values_read:
  assumes "decode_slow X bs \<in> {Inr (PushMessage from_key vs), Inr (PullResponse from_key vs)}" "cd_de_protocol X bs = None"
  shows "\<exists>count start. read_values X bs count start = Inr vs"
  using assms
  by (auto simp: decode_slow_def Let_def elim!: run_bind_InrE split: if_splits prod.splits option.splits) blast+

section \<open>A codec for one kind of data\<close>

text \<open>bincode's bytes for node instances and for pull responses and pushes of them: 60 bytes of data, 124 of value.\<close>

definition instance_bytes :: "'e crds_data \<Rightarrow> bytes option" where
  "instance_bytes d = (case d of NodeInstance n \<Rightarrow>
     Some (u32_le 8 @ ni_pubkey n @ u64_le (ni_wallclock n) @ u64_le (ni_timestamp n) @ u64_le (ni_token n)) | _ \<Rightarrow> None)"

definition read_instance :: "bytes \<Rightarrow> 'e crds_data option" where
  "read_instance bs =
     (if 60 \<le> length bs \<and> u32_from_le (take 4 bs) = 8
      then Some (NodeInstance \<lparr> ni_pubkey = take 32 (drop 4 bs), ni_wallclock = u64_from_le (take 8 (drop 36 bs)),
             ni_timestamp = u64_from_le (take 8 (drop 44 bs)), ni_token = u64_from_le (take 8 (drop 52 bs)) \<rparr>)
      else None)"

definition read_instance_value :: "bytes \<Rightarrow> 'e crds_value option" where
  "read_instance_value bs =
     (if 64 \<le> length bs
      then map_option (\<lambda>d. \<lparr> cv_signature = take 64 bs, cv_data = d, cv_hash = replicate 32 0 \<rparr>) (read_instance (drop 64 bs))
      else None)"

definition instance_value_bytes :: "'e crds_value \<Rightarrow> bytes option" where
  "instance_value_bytes v = map_option (\<lambda>d. cv_signature v @ d) (instance_bytes (cv_data v))"

definition example_codec :: "(unit, unit) codec" where
  "example_codec =
     \<lparr> cd_ser_protocol = (\<lambda>m. case m of
         PullResponse pk vs \<Rightarrow> map_option (\<lambda>es. u32_le 1 @ pk @ u64_le (word_of_nat (length vs)) @ concat es)
           (opt_map instance_value_bytes vs)
       | PushMessage pk vs \<Rightarrow> map_option (\<lambda>es. u32_le 2 @ pk @ u64_le (word_of_nat (length vs)) @ concat es)
           (opt_map instance_value_bytes vs)
       | _ \<Rightarrow> None),
       cd_de_protocol = (\<lambda>bs.
         let tag = u32_from_le (take 4 bs); n = unat (u64_from_le (take 8 (drop 36 bs))); pk = take 32 (drop 4 bs)
         in if 44 \<le> length bs \<and> (tag = 1 \<or> tag = 2) \<and> 124 * n \<le> length bs - 44
            then map_option (\<lambda>vs. if tag = 1 then PullResponse pk vs else PushMessage pk vs)
                   (opt_map (\<lambda>i. read_instance_value (drop (44 + 124 * i) bs)) [0..<n])
            else None),
       cd_read_tag = (\<lambda>bs. if 4 \<le> length bs then Some (u32_from_le (take 4 bs), 4) else None),
       cd_read_pubkey = (\<lambda>bs. if 32 \<le> length bs then Some (take 32 bs, 32) else None),
       cd_de_value = read_instance_value, cd_value_size = (\<lambda>v. map_option length (instance_value_bytes v)),
       cd_de_signature = (\<lambda>bs. if 64 \<le> length bs then Some (take 64 bs) else None), cd_signature_size = (\<lambda>s. Some 64),
       cd_de_data = read_instance, cd_data_size = (\<lambda>d. map_option length (instance_bytes d)) \<rparr>"

lemma example_codec_layout: "bincode_layout example_codec"
  by (simp add: bincode_layout_def example_codec_def read_instance_value_def Let_def)

lemma read_instance_written:
  assumes "length sig = 64" "length pk = 32"
  shows "read_instance_value ((sig @ u32_le 8 @ pk @ u64_le a @ u64_le b @ u64_le c) @ rest) = Some
    \<lparr> cv_signature = sig, cv_data = NodeInstance \<lparr> ni_pubkey = pk, ni_wallclock = a, ni_timestamp = b, ni_token = c \<rparr>,
      cv_hash = replicate 32 0 \<rparr>"
  using assms by (simp add: read_instance_value_def read_instance_def)

definition example_bytes :: "u8 \<Rightarrow> u64 \<Rightarrow> u64 \<Rightarrow> bytes" where
  "example_bytes b wallclock token =
     replicate 64 0 @ u32_le 8 @ replicate 32 b @ u64_le wallclock @ u64_le 500 @ u64_le token"

lemma example_bytes_value:
  "length (example_bytes b c n) = 124"
  "read_instance_value (example_bytes b c n @ rest) = Some (example_value b c n)"
  "instance_value_bytes (example_value b c n) = Some (example_bytes b c n)"
  unfolding example_bytes_def
  by (simp, subst read_instance_written,
      simp_all add: example_value_def unsigned_new_data_def instance_value_bytes_def instance_bytes_def)

text \<open>A short packet stops the receiver: a push or a pull response that ends after the compact length of at least two
  values makes the slow path slice past the end of the packet, which panics.\<close>

lemma short_packet_panics:
  assumes "bincode_layout X" "length pk = 32" "tag \<in> {1, 2}" "2 \<le> n" "n < 128"
  shows "decode_from X (u32_le tag @ pk @ [n]) = Inl (Panicked IndexOutOfBounds)"
proof -
  let ?bs = "u32_le tag @ pk @ [n]"
  have "cd_de_protocol X ?bs = None" using assms by (intro layout_short) auto
  moreover have len: "decode_len [n] = (ucast n, 1)"
  proof -
    have "unat n < 2 ^ 7" using assms(5) by (simp add: word_less_nat_alt)
    then have "unat (take_bit 7 n) = unat n" unfolding unsigned_take_bit_eq by (simp only: take_bit_eq_mod mod_less)
    then have n: "n AND 0x7F = n" by (simp only: word_unat_eq_iff pow_mask(2) take_bit_eq_mask)
    have "n AND 0x80 = n AND (0x7F AND 0x80)" using n by (simp only: flip: and.assoc)
    then have "n AND 0x80 = 0" by simp
    then show ?thesis using n by (simp add: decode_len_def)
  qed
  moreover have "read_values X ?bs (unat (ucast n :: u64)) 37 = Inl (Panicked IndexOutOfBounds)"
  proof (rule read_values_at_end [OF assms(1)])
    show "37 = length ?bs" using assms(2) by simp
    have "2 \<le> unat n" using assms(4) by (simp add: word_le_nat_alt)
    moreover have "unat n mod 2 ^ 64 = unat n" by (intro mod_less less_trans [OF unat_u8_less]) simp
    ultimately show "2 \<le> unat (ucast n :: u64)" by (simp add: unsigned_ucast_eq take_bit_eq_mod)
  qed
  ultimately show ?thesis
    using assms by (simp add: decode_from_def decode_slow_values)
qed

text \<open>Lengths below 128 as bincode writes them and as a compact length.\<close>

lemma u64_le_small: "n < 128 \<Longrightarrow> u64_le n = word_of_nat (unat n) # replicate 7 0"
proof -
  assume "n < 128"
  then have n: "unat n < 128" by (simp add: word_less_nat_alt)
  have zeros: "le_bytes k 0 = replicate k 0" for k by (induction k) simp_all
  have "le_bytes (Suc 7) (unat n) = word_of_nat (unat n) # le_bytes 7 0" using n by (simp only: le_bytes.simps) simp
  then show ?thesis by (simp add: u64_le_def zeros)
qed

lemma encode_len_small: "n < 128 \<Longrightarrow> encode_len n = [word_of_nat (unat n)]"
proof -
  assume "n < 128"
  then have n: "unat n < 128" by (simp add: word_less_nat_alt)
  then have "drop_bit 7 n = 0" by (simp add: word_unat_eq_iff unat_div_distrib drop_bit_eq_div)
  then show ?thesis using n split7 [of n] by (simp add: encode_len_last)
qed

section \<open>Properties\<close>

text \<open>C25. The slow path reads another format than the one the node writes. Take a push or a pull response whose header is
  written as bincode writes it: the tag, the 32-byte key, the number of values (1 to 127) as eight little-endian bytes, then
  the values. The slow path takes the first of the eight bytes for a compact length and looks for the first value in
  the seven zero bytes after it: what it takes for data starts 57 bytes after the start of the first value, whose 64-byte
  signature is not yet over there. If those bytes decode to data, the first value it yields has the signature of seven zeros and 57
  bytes of the real one; if not, it goes on there with one value fewer to read. Nowhere does it look for the first value at
  its place.\<close>

theorem slow_path_reads_seven_bytes_early:
  assumes "bincode_layout X" "length pk = 32" "tag \<in> {1, 2}" "0 < n" "n < 128" "57 \<le> length values_bytes"
    and "bs = u32_le tag @ pk @ u64_le n @ values_bytes"
  shows "decode_slow X bs = run_bind
      (case cd_de_data X (drop 57 values_bytes) of
         None \<Rightarrow> read_values X bs (unat n - 1) 101
       | Some d \<Rightarrow>
           let v = \<lparr> cv_signature = replicate 7 0 @ take 57 values_bytes, cv_data = d, cv_hash = replicate 32 0 \<rparr>
           in run_bind (read_values X bs (unat n - 1) (37 + size_or 0 (cd_value_size X v))) (\<lambda>vs. Inr (v # vs)))
      (\<lambda>res. Inr (if tag = 1 then PullResponse pk res else PushMessage pk res)) \<and>
    drop 101 bs = drop 57 values_bytes"
proof -
  have "bs = (u32_le tag @ pk @ [word_of_nat (unat n)]) @ replicate 7 0 @ values_bytes"
    by (simp add: assms(7) u64_le_small [OF assms(5)])
  then have at_37: "37 \<le> length bs" "drop 37 bs = replicate 7 0 @ values_bytes" using assms(2) by simp_all
  have at_101: "drop 101 bs = drop 57 values_bytes"
    using arg_cong [OF at_37(2), of "drop 64"] by simp
  have "0 < unat n" using assms(4) by (simp add: word_less_nat_alt)
  then obtain m where m: "unat n = Suc m" by (cases "unat n") simp_all
  note split = layout_value [OF assms(1), of "replicate 7 0 @ values_bytes"]
  have "read_values X bs (unat n) 37 =
      (case cd_de_data X (drop 57 values_bytes) of
         None \<Rightarrow> read_values X bs (unat n - 1) 101
       | Some d \<Rightarrow>
           let v = \<lparr> cv_signature = replicate 7 0 @ take 57 values_bytes, cv_data = d, cv_hash = replicate 32 0 \<rparr>
           in run_bind (read_values X bs (unat n - 1) (37 + size_or 0 (cd_value_size X v))) (\<lambda>vs. Inr (v # vs)))"
  proof (cases "cd_de_data X (drop 57 values_bytes)")
    case None
    then have "cd_de_value X (drop 37 bs) = None" using split at_37(2) by simp
    with skip_is_64 [OF assms(1) this refl] show ?thesis using at_37 None by (simp add: m)
  next
    case (Some d)
    then show ?thesis using split at_37 assms(6) by (simp add: m Let_def)
  qed
  moreover have "decode_len (u64_le n @ values_bytes) = (n, 1)"
    using decode_encode_len [of n "replicate 7 0 @ values_bytes"] by (simp add: u64_le_small [OF assms(5)] encode_len_small [OF assms(5)])
  ultimately show ?thesis
    using decode_slow_values [OF assms(1-3), of "u64_le n @ values_bytes", folded assms(7)] at_101 by simp
qed

text \<open>A push of two values, of which the first is good and the second is cut off: the slow path salvages nothing.\<close>

theorem slow_path_reads_seven_bytes_early_witness:
  "decode_from example_codec (u32_le 2 @ replicate 32 9 @ u64_le 2 @ example_bytes 7 5 1 @ [1, 2, 3]) =
     Inr (PushMessage (replicate 32 9) []) \<and>
   cd_de_value example_codec (example_bytes 7 5 1 @ [1, 2, 3]) = Some (example_value 7 5 1)"
proof -
  let ?vb = "example_bytes 7 5 1 @ [1, 2, 3]"
  let ?bs = "u32_le 2 @ replicate 32 9 @ u64_le 2 @ ?vb"
  have len: "length ?vb = 127" "length ?bs = 171" by (simp_all add: example_bytes_value)
  have fast: "cd_de_protocol example_codec ?bs = None"
    by (simp add: example_codec_def Let_def example_bytes_value)
  have vb: "drop 57 ?vb = replicate 7 0 @ u32_le 8 @ replicate 32 7 @ u64_le 5 @ u64_le 500 @ u64_le 1 @ [1, 2, 3]"
    by (simp add: example_bytes_def)
  have zero: "u32_from_le (replicate 4 0) \<noteq> 8" by code_simp
  have none: "cd_de_data example_codec (drop 57 ?vb) = None"
    unfolding vb using zero by (simp add: example_codec_def read_instance_def)
  have good: "cd_de_value example_codec ?vb = Some (example_value 7 5 1)"
    using example_bytes_value(2) by (simp add: example_codec_def del: append_assoc)
  have at_101: "drop 101 ?bs = drop 57 ?vb" by simp
  have bad: "cd_de_value example_codec (drop 101 ?bs) = None"
    unfolding at_101 using len(1) by (simp add: example_codec_def read_instance_value_def read_instance_def)
  have "read_values example_codec ?bs (Suc 0) 101 = Inr []"
    using skip_is_64 [OF example_codec_layout bad refl] bad len(2) by simp
  then have from_101: "read_values example_codec ?bs (unat (2 :: u64) - 1) 101 = Inr []" by simp
  show ?thesis
    using slow_path_reads_seven_bytes_early [OF example_codec_layout, of "replicate 32 9" 2 2 ?vb ?bs] len fast none from_101 good
    by (simp add: decode_from_def)
qed

end
