(* ===== verification/PullRequest.thy ===== *)
theory PullRequest
  imports Protocol
begin

text \<open>
  \<^verbatim>\<open>crates/dc-gossip/src/pull_request.rs\<close>: the size cache of the Bloom filters and the two builders of
  pull requests, one for a single partition and one for all. Everything outside the repository that the
  gossip node uses is in the record \<open>gossip_ext\<close>; \<open>gx_bloom i\<close> is the \<open>i\<close>-th draw of \<^verbatim>\<open>Bloom::random\<close>.
\<close>

section \<open>The code\<close>

definition GOSSIP_PACKET_SIZE :: nat where "GOSSIP_PACKET_SIZE = 1232"

record ('e, 'b, 'f) gossip_ext =
  gx_crds :: "'e crds_ext"
  gx_codec :: "('e, 'b) codec"
  gx_f64 :: "'f f64_ops"
  gx_bloom :: "nat \<Rightarrow> nat \<Rightarrow> 'f \<Rightarrow> nat \<Rightarrow> 'b"
  gx_filter_size :: "'b crds_filter \<Rightarrow> nat option"
  gx_default_version :: 'e
  gx_show_pubkey :: "bytes \<Rightarrow> string"

definition cache_entry :: "('e, 'b, 'f) gossip_ext \<Rightarrow> u16 list \<Rightarrow> nat \<Rightarrow> failure + u16 list" where
  "cache_entry X cache bloom_bytes =
     run_bind (new_filter (gx_f64 X) (gx_bloom X bloom_bytes) bloom_bytes 0) (\<lambda>filter. Inr
       (case gx_filter_size X filter of
          None \<Rightarrow> cache
        | Some idx \<Rightarrow> if idx \<le> GOSSIP_PACKET_SIZE then cache[idx := word_of_nat bloom_bytes] else cache))"

fun forward_fill :: "u16 \<Rightarrow> u16 list \<Rightarrow> u16 list" where
  "forward_fill prev [] = []"
| "forward_fill prev (x # xs) = (let x' = (if x = 0 then prev else x) in x' # forward_fill x' xs)"

definition max_bloom_bytes_cache :: "('e, 'b, 'f) gossip_ext \<Rightarrow> failure + u16 list" where
  "max_bloom_bytes_cache X =
     run_bind (run_fold (cache_entry X) (replicate (GOSSIP_PACKET_SIZE + 1) 0) [1..<GOSSIP_PACKET_SIZE + 1])
       (\<lambda>cache. Inr (forward_fill 0 cache))"

definition get_max_bloom_filter_bytes :: "('e, 'b, 'f) gossip_ext \<Rightarrow> nat \<Rightarrow> failure + nat" where
  "get_max_bloom_filter_bytes X caller_size =
     (let target = (if 4 + caller_size \<le> GOSSIP_PACKET_SIZE then GOSSIP_PACKET_SIZE - (4 + caller_size) else 0)
      in run_bind (max_bloom_bytes_cache X) (\<lambda>cache.
           Inr (case get_at cache target of None \<Rightarrow> 0 | Some n \<Rightarrow> unat n)))"

definition create_pull_request_message :: "('e, 'b, 'f) gossip_ext \<Rightarrow> 'e contact_info \<Rightarrow> keypair \<Rightarrow> failure + bytes" where
  "create_pull_request_message X contact_info keypair =
     (if ci_sockets contact_info = [] then Inl (Failed NoSocketEntry)
      else run_bind (new_contact_info (gx_crds X) keypair contact_info) (\<lambda>signed_info.
        run_bind (or_fail SerializeFailed (cd_value_size (gx_codec X) signed_info)) (\<lambda>caller_size.
        run_bind (get_max_bloom_filter_bytes X caller_size) (\<lambda>bloom_max_bytes.
        run_bind (new_filter (gx_f64 X) (gx_bloom X 0) bloom_max_bytes 0) (\<lambda>filter.
        or_fail SerializeFailed (cd_ser_protocol (gx_codec X) (PullRequest filter signed_info)))))))"

definition partition_message :: "('e, 'b, 'f) gossip_ext \<Rightarrow> 'e crds_value \<Rightarrow> nat \<Rightarrow> nat \<Rightarrow> failure + bytes" where
  "partition_message X signed_info bloom_max_bytes seed =
     run_bind (new_seeded (gx_f64 X) (gx_bloom X (Suc seed)) bloom_max_bytes 0 (word_of_nat seed)) (\<lambda>filter.
       or_fail SerializeFailed (cd_ser_protocol (gx_codec X) (PullRequest filter signed_info)))"

text \<open>\<open>Vec::with_capacity\<close> of 24-byte vectors panics when the bytes pass \<open>isize::MAX\<close>.\<close>

definition create_pull_request_messages :: "('e, 'b, 'f) gossip_ext \<Rightarrow> 'e contact_info \<Rightarrow> keypair \<Rightarrow> failure + bytes list" where
  "create_pull_request_messages X contact_info keypair =
     (if ci_sockets contact_info = [] then Inl (Failed NoSocketEntry)
      else run_bind (new_contact_info (gx_crds X) keypair contact_info) (\<lambda>signed_info.
        run_bind (or_fail SerializeFailed (cd_value_size (gx_codec X) signed_info)) (\<lambda>caller_size.
        run_bind (get_max_bloom_filter_bytes X caller_size) (\<lambda>bloom_max_bytes.
        run_bind (new_filter (gx_f64 X) (gx_bloom X 0) bloom_max_bytes 0) (\<lambda>probe.
          let num_partitions = 2 ^ min (unat (cf_mask_bits probe)) 63
          in if 2 ^ 63 \<le> 24 * num_partitions then Inl (Panicked CapacityOverflow)
             else run_map (partition_message X signed_info bloom_max_bytes) [0..<num_partitions])))))"

section \<open>The size cache\<close>

text \<open>Every entry but zero is a number of Bloom bytes whose filter has at most the entry's index as its size.\<close>

definition cache_fits :: "('e, 'b, 'f) gossip_ext \<Rightarrow> u16 list \<Rightarrow> bool" where
  "cache_fits X cache \<longleftrightarrow> length cache = GOSSIP_PACKET_SIZE + 1 \<and>
     (\<forall>idx < length cache. cache ! idx \<noteq> 0 \<longrightarrow>
       (\<exists>f size. new_filter (gx_f64 X) (gx_bloom X (unat (cache ! idx))) (unat (cache ! idx)) 0 = Inr f \<and>
          gx_filter_size X f = Some size \<and> size \<le> idx))"

lemma cache_fitsD:
  "cache_fits X cache \<Longrightarrow> idx < length cache \<Longrightarrow> cache ! idx = n \<Longrightarrow> n \<noteq> 0 \<Longrightarrow>
   \<exists>f size. new_filter (gx_f64 X) (gx_bloom X (unat n)) (unat n) 0 = Inr f \<and> gx_filter_size X f = Some size \<and> size \<le> idx"
  unfolding cache_fits_def by blast

lemma cache_fits_entry:
  assumes "cache_fits X cache" "cache_entry X cache n = Inr cache'" "n \<le> GOSSIP_PACKET_SIZE"
  shows "cache_fits X cache'"
proof -
  obtain f where f: "new_filter (gx_f64 X) (gx_bloom X n) n 0 = Inr f"
      and c: "cache' = (case gx_filter_size X f of None \<Rightarrow> cache
        | Some idx \<Rightarrow> if idx \<le> GOSSIP_PACKET_SIZE then cache[idx := word_of_nat n] else cache)"
    using assms(2) by (auto simp: cache_entry_def elim!: run_bind_InrE)
  show ?thesis
  proof (cases "cache' = cache")
    case True
    then show ?thesis using assms(1) by simp
  next
    case False
    then obtain idx where idx: "gx_filter_size X f = Some idx" "cache' = cache[idx := word_of_nat n]"
      using c by (auto split: option.splits if_splits)
    have n: "unat (word_of_nat n :: u16) = n" using assms(3) by (simp add: unat_of_nat GOSSIP_PACKET_SIZE_def)
    show ?thesis unfolding cache_fits_def
    proof (intro conjI allI impI)
      show "length cache' = GOSSIP_PACKET_SIZE + 1" using assms(1) idx(2) by (simp add: cache_fits_def)
      fix i assume i: "i < length cache'" "cache' ! i \<noteq> 0"
      show "\<exists>g size. new_filter (gx_f64 X) (gx_bloom X (unat (cache' ! i))) (unat (cache' ! i)) 0 = Inr g \<and>
          gx_filter_size X g = Some size \<and> size \<le> i"
      proof (cases "i = idx")
        case True
        then have "unat (cache' ! i) = n" using i(1) idx(2) n by simp
        then show ?thesis using f idx(1) True by simp
      next
        case False
        then have "cache' ! i = cache ! i" using idx(2) by simp
        then show ?thesis using cache_fitsD [OF assms(1), of i "cache ! i"] i idx(2) by simp
      qed
    qed
  qed
qed

lemma cache_fits_fold:
  "cache_fits X cache \<Longrightarrow> run_fold (cache_entry X) cache ns = Inr cache' \<Longrightarrow> \<forall>n \<in> set ns. n \<le> GOSSIP_PACKET_SIZE \<Longrightarrow>
   cache_fits X cache'"
  by (induction ns arbitrary: cache) (auto elim!: run_bind_InrE dest: cache_fits_entry)

lemma length_forward_fill [simp]: "length (forward_fill prev xs) = length xs"
  by (induction xs arbitrary: prev) (simp_all add: Let_def)

lemma forward_fill_nth:
  "i < length xs \<Longrightarrow> forward_fill prev xs ! i = prev \<or> (\<exists>j \<le> i. forward_fill prev xs ! i = xs ! j)"
proof (induction xs arbitrary: prev i)
  case (Cons x xs)
  show ?case
  proof (cases i)
    case 0
    then show ?thesis by (auto simp: Let_def)
  next
    case (Suc k)
    let ?x = "if x = 0 then prev else x"
    have "forward_fill ?x xs ! k = ?x \<or> (\<exists>j \<le> k. forward_fill ?x xs ! k = xs ! j)"
      using Cons.IH [of k ?x] Cons.prems Suc by simp
    then show ?thesis
    proof
      assume "forward_fill ?x xs ! k = ?x"
      then show ?thesis using Suc by (auto simp: Let_def intro!: exI [of _ 0])
    next
      assume "\<exists>j \<le> k. forward_fill ?x xs ! k = xs ! j"
      then obtain j where "j \<le> k" "forward_fill ?x xs ! k = xs ! j" by blast
      then show ?thesis using Suc by (intro disjI2 exI [of _ "Suc j"]) (simp add: Let_def)
    qed
  qed
qed simp

lemma max_bloom_bytes_fit:
  assumes "get_max_bloom_filter_bytes X caller_size = Inr n" "n \<noteq> 0" "4 + caller_size \<le> GOSSIP_PACKET_SIZE"
  shows "\<exists>f size. new_filter (gx_f64 X) (gx_bloom X n) n 0 = Inr f \<and> gx_filter_size X f = Some size \<and>
    4 + size + caller_size \<le> GOSSIP_PACKET_SIZE"
proof -
  let ?t = "GOSSIP_PACKET_SIZE - (4 + caller_size)"
  obtain raw where raw: "run_fold (cache_entry X) (replicate (GOSSIP_PACKET_SIZE + 1) 0) [1..<GOSSIP_PACKET_SIZE + 1] = Inr raw"
      and n: "n = (case get_at (forward_fill 0 raw) ?t of None \<Rightarrow> 0 | Some n \<Rightarrow> unat n)"
    using assms(1,3) by (auto simp: get_max_bloom_filter_bytes_def max_bloom_bytes_cache_def Let_def elim!: run_bind_InrE)
  have "cache_fits X (replicate (GOSSIP_PACKET_SIZE + 1) 0)" by (simp add: cache_fits_def del: replicate_Suc replicate.simps)
  then have fits: "cache_fits X raw" using raw by (rule cache_fits_fold) auto
  have t: "?t < length raw" using fits by (simp add: cache_fits_def)
  then have nt: "n = unat (forward_fill 0 raw ! ?t)" using n by (simp add: get_at_def)
  then have "forward_fill 0 raw ! ?t \<noteq> 0" using assms(2) by auto
  then obtain j where j: "j \<le> ?t" "forward_fill 0 raw ! ?t = raw ! j" using forward_fill_nth [OF t, of 0] by auto
  then have "\<exists>f size. new_filter (gx_f64 X) (gx_bloom X n) n 0 = Inr f \<and> gx_filter_size X f = Some size \<and> size \<le> j"
    using cache_fitsD [OF fits, of j] \<open>forward_fill 0 raw ! ?t \<noteq> 0\<close> t nt by auto
  then show ?thesis using j(1) assms(3) by fastforce
qed

section \<open>What is relied on of the wire sizes\<close>

text \<open>
  The size of a filter depends on the parameters of its Bloom filter and not on the random keys or the
  mask, and is not zero; a pull request is a four-byte tag, the filter and the value.
\<close>

definition wire_layout :: "('e, 'b, 'f) gossip_ext \<Rightarrow> bool" where
  "wire_layout X \<longleftrightarrow>
     (\<forall>i j k a b m m' bits. gx_filter_size X \<lparr> cf_filter = gx_bloom X i k a b, cf_mask = m, cf_mask_bits = bits \<rparr> =
        gx_filter_size X \<lparr> cf_filter = gx_bloom X j k a b, cf_mask = m', cf_mask_bits = bits \<rparr>) \<and>
     (\<forall>f. gx_filter_size X f \<noteq> Some 0) \<and>
     (\<forall>f v bs s c. cd_ser_protocol (gx_codec X) (PullRequest f v) = Some bs \<longrightarrow> gx_filter_size X f = Some s \<longrightarrow>
        cd_value_size (gx_codec X) v = Some c \<longrightarrow> length bs = 4 + s + c)"

lemma filter_size_same:
  assumes "wire_layout X"
    and "new_seeded F (gx_bloom X i) n 0 s = Inr f" "new_seeded F (gx_bloom X j) n 0 r = Inr g"
  shows "gx_filter_size X f = gx_filter_size X g"
  using assms by (fastforce simp: new_seeded_def Let_def wire_layout_def elim!: run_bind_InrE)

lemma no_zero_budget:
  assumes "64 < mask_bits_for F 0 0"
  shows "new_seeded F B 0 0 s \<noteq> Inr f"
  using assms by (auto simp: new_seeded_def Let_def compute_mask_panics elim!: run_bind_InrE)

lemma request_fits:
  assumes "wire_layout X" "64 < mask_bits_for (gx_f64 X) 0 0"
    and "get_max_bloom_filter_bytes X c = Inr n" "cd_value_size (gx_codec X) v = Some c"
    and f: "new_seeded (gx_f64 X) (gx_bloom X i) n 0 s = Inr f"
    and ser: "cd_ser_protocol (gx_codec X) (PullRequest f v) = Some bs"
  shows "length bs \<le> GOSSIP_PACKET_SIZE"
proof -
  have n: "n \<noteq> 0" using f no_zero_budget [OF assms(2)] by metis
  have c: "4 + c \<le> GOSSIP_PACKET_SIZE"
  proof (rule ccontr)
    assume "\<not> 4 + c \<le> GOSSIP_PACKET_SIZE"
    then have "get_max_bloom_filter_bytes X (GOSSIP_PACKET_SIZE - 4) = Inr n"
      using assms(3) by (simp add: get_max_bloom_filter_bytes_def GOSSIP_PACKET_SIZE_def)
    from max_bloom_bytes_fit [OF this n] obtain g size
      where "gx_filter_size X g = Some size" "4 + size + (GOSSIP_PACKET_SIZE - 4) \<le> GOSSIP_PACKET_SIZE"
      by (auto simp: GOSSIP_PACKET_SIZE_def)
    then show False using assms(1) by (auto simp: wire_layout_def GOSSIP_PACKET_SIZE_def)
  qed
  obtain g size where g: "new_filter (gx_f64 X) (gx_bloom X n) n 0 = Inr g" "gx_filter_size X g = Some size"
      "4 + size + c \<le> GOSSIP_PACKET_SIZE"
    using max_bloom_bytes_fit [OF assms(3) n c] by blast
  then have "gx_filter_size X f = Some size"
    using filter_size_same [OF assms(1) f g(1) [unfolded new_filter_def]] by simp
  then have "length bs = 4 + size + c" using assms(1,4) ser by (auto simp: wire_layout_def)
  then show ?thesis using g(3) by simp
qed

section \<open>The requests for all partitions\<close>

text \<open>What a successful build consists of.\<close>

lemma messages_InrE:
  assumes "create_pull_request_messages X ci kp = Inr msgs"
  obtains caller c n bits where
    "new_contact_info (gx_crds X) kp ci = Inr caller" "cd_value_size (gx_codec X) caller = Some c"
    "get_max_bloom_filter_bytes X c = Inr n" "bits = mask_bits_for (gx_f64 X) n 0" "unat bits < 63"
    "length msgs = 2 ^ unat bits"
    "\<And>i. i < length msgs \<Longrightarrow> partition_message X caller n i = Inr (msgs ! i)"
proof -
  obtain caller c n probe where s: "new_contact_info (gx_crds X) kp ci = Inr caller"
      "cd_value_size (gx_codec X) caller = Some c" "get_max_bloom_filter_bytes X c = Inr n"
      "new_filter (gx_f64 X) (gx_bloom X 0) n 0 = Inr probe"
    and r: "\<not> 2 ^ 63 \<le> 24 * (2::nat) ^ min (unat (cf_mask_bits probe)) 63"
      "run_map (partition_message X caller n) [0..<2 ^ min (unat (cf_mask_bits probe)) 63] = Inr msgs"
    using assms by (auto simp: create_pull_request_messages_def Let_def or_fail_Inr elim!: run_bind_InrE split: if_splits)
  let ?bits = "mask_bits_for (gx_f64 X) n 0"
  have bits: "cf_mask_bits probe = ?bits" using s(4) new_seeded_mask_bits by (simp add: new_filter_def)
  have small: "unat ?bits < 63"
  proof (rule ccontr)
    assume "\<not> unat ?bits < 63"
    then have "min (unat ?bits) 63 = 63" by simp
    then show False using r(1) bits by simp
  qed
  then have m: "min (unat (cf_mask_bits probe)) 63 = unat ?bits" using bits by simp
  show ?thesis
    using run_map_InrD [OF r(2)] by (intro that [OF s(1-3) refl small]) (simp_all add: m)
qed

lemma partition_message_Inr:
  "partition_message X caller n i = Inr bs \<longleftrightarrow>
   (\<exists>f. new_seeded (gx_f64 X) (gx_bloom X (Suc i)) n 0 (word_of_nat i) = Inr f \<and>
      cd_ser_protocol (gx_codec X) (PullRequest f caller) = Some bs)"
  by (auto simp: partition_message_def run_bind_eq_Inr or_fail_Inr)

lemma partition_filter:
  assumes "bits = mask_bits_for (gx_f64 X) n 0" "unat bits < 63" "i < 2 ^ unat bits"
    and "new_seeded (gx_f64 X) (gx_bloom X (Suc i)) n 0 (word_of_nat i) = Inr f"
  shows "compute_mask (word_of_nat i) bits = Inr (cf_mask f) \<and> cf_mask_bits f = bits \<and> unat (word_of_nat i :: u64) = i"
proof -
  have "(2::nat) ^ unat bits \<le> 2 ^ 63" using assms(2) by (intro power_increasing) auto
  then have i: "unat (word_of_nat i :: u64) = i" using assms(3) by (simp add: unat_of_nat)
  have le: "bits \<le> 64" using assms(2) by (simp add: word_le_nat_alt)
  have "\<exists>bloom. f = \<lparr> cf_filter = bloom, cf_mask = push_bit (64 - unat bits) (word_of_nat i) OR drop_bit (unat bits) (- 1),
      cf_mask_bits = bits \<rparr>"
    using new_seeded_eq [OF assms(1), of "word_of_nat i" "gx_bloom X (Suc i)"] assms(2-4) i by auto
  moreover have "compute_mask (word_of_nat i) bits = Inr (push_bit (64 - unat bits) (word_of_nat i) OR drop_bit (unat bits) (- 1))"
    using assms(3) i by (intro compute_mask_Inr [OF le]) simp
  ultimately show ?thesis using i by auto
qed

section \<open>When the builders succeed\<close>

lemma forward_fill_keep: "prev \<noteq> 0 \<Longrightarrow> i < length xs \<Longrightarrow> forward_fill prev xs ! i \<noteq> 0"
  by (induction xs arbitrary: prev i) (auto simp: Let_def nth_Cons split: nat.splits)

lemma forward_fill_nonzero: "j \<le> i \<Longrightarrow> i < length xs \<Longrightarrow> xs ! j \<noteq> 0 \<Longrightarrow> forward_fill prev xs ! i \<noteq> 0"
proof (induction xs arbitrary: prev i j)
  case (Cons x xs)
  show ?case
  proof (cases j)
    case 0
    then show ?thesis using Cons.prems forward_fill_keep [of x _ xs] by (cases i) (auto simp: Let_def)
  next
    case (Suc l)
    then obtain k where "i = Suc k" using Cons.prems(1) by (cases i) auto
    then show ?thesis using Suc Cons.prems Cons.IH [of l k] by (simp add: Let_def)
  qed
qed simp

text \<open>A size that some number of Bloom bytes has leaves no zero in the cache from there on.\<close>

lemma cache_total:
  assumes "\<And>n. n \<in> set ns \<Longrightarrow> \<exists>f. new_filter (gx_f64 X) (gx_bloom X n) n 0 = Inr f \<and> gx_filter_size X f = Some (sz n)"
    and "\<And>n. n \<in> set ns \<Longrightarrow> (word_of_nat n :: u16) \<noteq> 0" "length cache = GOSSIP_PACKET_SIZE + 1"
  shows "\<exists>cache'. run_fold (cache_entry X) cache ns = Inr cache' \<and> length cache' = GOSSIP_PACKET_SIZE + 1 \<and>
    (\<forall>i. cache ! i \<noteq> 0 \<or> i \<in> sz ` set ns \<longrightarrow> i \<le> GOSSIP_PACKET_SIZE \<longrightarrow> cache' ! i \<noteq> 0)"
  using assms
proof (induction ns arbitrary: cache)
  case (Cons n ns)
  obtain f where f: "new_filter (gx_f64 X) (gx_bloom X n) n 0 = Inr f" "gx_filter_size X f = Some (sz n)"
    using Cons.prems(1) [of n] by auto
  let ?c = "if sz n \<le> GOSSIP_PACKET_SIZE then cache[sz n := word_of_nat n] else cache"
  have step: "cache_entry X cache n = Inr ?c" using f by (simp add: cache_entry_def)
  have "length ?c = GOSSIP_PACKET_SIZE + 1" using Cons.prems(3) by simp
  then obtain cache' where c: "run_fold (cache_entry X) ?c ns = Inr cache'" "length cache' = GOSSIP_PACKET_SIZE + 1"
      "\<forall>i. ?c ! i \<noteq> 0 \<or> i \<in> sz ` set ns \<longrightarrow> i \<le> GOSSIP_PACKET_SIZE \<longrightarrow> cache' ! i \<noteq> 0"
    using Cons.IH [of ?c] Cons.prems(1,2) by auto
  have "?c ! i \<noteq> 0 \<or> i \<in> sz ` set ns" if "cache ! i \<noteq> 0 \<or> i \<in> sz ` set (n # ns)" "i \<le> GOSSIP_PACKET_SIZE" for i
    using that Cons.prems(2) [of n] Cons.prems(3) by (cases "i = sz n") auto
  then show ?case using c step by (intro exI [of _ cache']) auto
qed auto

lemma max_bloom_bytes_total:
  assumes "\<And>n. 0 < n \<Longrightarrow> n \<le> GOSSIP_PACKET_SIZE \<Longrightarrow>
      \<exists>f. new_filter (gx_f64 X) (gx_bloom X n) n 0 = Inr f \<and> gx_filter_size X f = Some (sz n)"
    and "0 < k" "k \<le> GOSSIP_PACKET_SIZE" "4 + sz k + c \<le> GOSSIP_PACKET_SIZE"
  shows "\<exists>n > 0. get_max_bloom_filter_bytes X c = Inr n"
proof -
  let ?ns = "[1..<GOSSIP_PACKET_SIZE + 1]" and ?t = "GOSSIP_PACKET_SIZE - (4 + c)"
  have "\<exists>cache'. run_fold (cache_entry X) (replicate (GOSSIP_PACKET_SIZE + 1) 0) ?ns = Inr cache' \<and>
      length cache' = GOSSIP_PACKET_SIZE + 1 \<and>
      (\<forall>i. replicate (GOSSIP_PACKET_SIZE + 1) (0 :: u16) ! i \<noteq> 0 \<or> i \<in> sz ` set ?ns \<longrightarrow> i \<le> GOSSIP_PACKET_SIZE \<longrightarrow> cache' ! i \<noteq> 0)"
  proof (rule cache_total)
    show "(word_of_nat n :: u16) \<noteq> 0" if "n \<in> set ?ns" for n
      using that by (auto simp: word_unat_eq_iff unat_of_nat GOSSIP_PACKET_SIZE_def)
  qed (use assms(1) in auto)
  then obtain cache' where c: "run_fold (cache_entry X) (replicate (GOSSIP_PACKET_SIZE + 1) 0) ?ns = Inr cache'"
      "length cache' = GOSSIP_PACKET_SIZE + 1"
      "\<And>i. i \<in> sz ` set ?ns \<Longrightarrow> i \<le> GOSSIP_PACKET_SIZE \<Longrightarrow> cache' ! i \<noteq> 0" by blast
  have "k \<in> set ?ns" using assms(2,3) by auto
  then have "cache' ! sz k \<noteq> 0" using assms(4) by (intro c(3) imageI) simp_all
  then have "forward_fill 0 cache' ! ?t \<noteq> 0" using assms(4) c(2) by (intro forward_fill_nonzero [of "sz k"]) auto
  then have "0 < unat (forward_fill 0 cache' ! ?t)" by (simp add: unat_gt_0)
  moreover have "4 + c \<le> GOSSIP_PACKET_SIZE" "?t < length cache'" using assms(4) c(2) by simp_all
  ultimately show ?thesis
    unfolding get_max_bloom_filter_bytes_def max_bloom_bytes_cache_def c(1) by (simp add: Let_def get_at_def)
qed

lemma messages_total:
  assumes "ci_sockets ci \<noteq> []" "new_contact_info (gx_crds X) kp ci = Inr v" "cd_value_size (gx_codec X) v = Some c"
    and "get_max_bloom_filter_bytes X c = Inr n" "unat (mask_bits_for (gx_f64 X) n 0) \<le> 58"
    and ser: "\<And>f. cd_ser_protocol (gx_codec X) (PullRequest f v) \<noteq> None"
  shows "\<exists>msgs. create_pull_request_messages X ci kp = Inr msgs"
    and "\<exists>bs. create_pull_request_message X ci kp = Inr bs"
proof -
  let ?bits = "mask_bits_for (gx_f64 X) n 0"
  have made: "\<exists>f. new_seeded (gx_f64 X) B n 0 s = Inr f \<and> cf_mask_bits f = ?bits" if "unat s < 2 ^ unat ?bits" for B s
    using new_seeded_eq [OF refl _ that, of B] assms(5) by fastforce
  have "(2::nat) ^ unat ?bits \<le> 2 ^ 58" using assms(5) by (intro power_increasing) auto
  then have small: "24 * (2::nat) ^ unat ?bits < 2 ^ 63" "i < 2 ^ unat ?bits \<Longrightarrow> unat (word_of_nat i :: u64) = i" for i
    by (simp_all add: unat_of_nat)
  obtain probe where probe: "new_filter (gx_f64 X) (gx_bloom X 0) n 0 = Inr probe" "cf_mask_bits probe = ?bits"
    using made [of 0 "gx_bloom X 0"] by (auto simp: new_filter_def)
  have "\<exists>bs. partition_message X v n i = Inr bs" if "i \<in> set [0..<2 ^ unat ?bits]" for i
    using made [of "word_of_nat i" "gx_bloom X (Suc i)"] small(2) [of i] that ser by (fastforce simp: partition_message_Inr)
  then obtain g where "\<And>i. i \<in> set [0..<2 ^ unat ?bits] \<Longrightarrow> partition_message X v n i = Inr (g i)" by metis
  then have "run_map (partition_message X v n) [0..<2 ^ unat ?bits] = Inr (map g [0..<2 ^ unat ?bits])" by (rule run_map_ok)
  moreover have "min (unat ?bits) 63 = unat ?bits" using assms(5) by simp
  ultimately show "\<exists>msgs. create_pull_request_messages X ci kp = Inr msgs"
    using assms(1-4) probe small(1) by (simp add: create_pull_request_messages_def not_le)
  show "\<exists>bs. create_pull_request_message X ci kp = Inr bs"
    using assms(1-4) probe ser [of probe] by (auto simp: create_pull_request_message_def)
qed

section \<open>An instance\<close>

definition toy_ops :: "nat f64_ops" where
  "toy_ops = \<lparr> f_of_nat = id, f_lit = (\<lambda>r. 1), f_neg = id, f_sub = (\<lambda>a b. 1), f_div = (\<lambda>a b. if b = 0 then 100 else a),
     f_ln = id, f_exp = id, f_log2 = (\<lambda>x. if x = 100 then 100 else 2), f_ceil = id, f_max = max,
     f_to_u32 = word_of_nat, f_to_usize = id \<rparr>"

definition example_crds :: "unit crds_ext" where
  "example_crds = \<lparr> cx_ser_data = (\<lambda>d. Some (data_pubkey d @ u64_le (data_wallclock d))),
     cx_sha256 = (\<lambda>m. replicate 32 0), cx_verify = (\<lambda>sig pk m. sig = take 64 (pk @ m @ replicate 64 0)) \<rparr>"

definition example_keypair :: keypair where
  "example_keypair = \<lparr> kp_pubkey = replicate 32 7, kp_sign = (\<lambda>m. take 64 (replicate 32 7 @ m @ replicate 64 0)) \<rparr>"

definition example_ext :: "(unit, unit, nat) gossip_ext" where
  "example_ext =
     \<lparr> gx_crds = example_crds,
       gx_codec = example_codec\<lparr>cd_ser_protocol := (\<lambda>m. case m of
           PullRequest f v \<Rightarrow> Some (u32_le 0 @ u64_le (cf_mask f) @ replicate 242 0)
         | PongMessage p \<Rightarrow> Some (u32_le 5 @ po_from p @ po_hash p @ po_signature p)
         | PingMessage p \<Rightarrow> Some (u32_le 4 @ gp_from p @ gp_token p @ gp_signature p)
         | _ \<Rightarrow> cd_ser_protocol example_codec m), cd_value_size := (\<lambda>v. Some 150)\<rparr>,
       gx_f64 = toy_ops, gx_bloom = (\<lambda>i k a b. ()), gx_filter_size = (\<lambda>f. Some 100),
       gx_default_version = (), gx_show_pubkey = map (\<lambda>b. char_of (unat b)) \<rparr>"

lemma toy_mask_bits: "mask_bits_for toy_ops n 0 = (if n * 8 mod 2 ^ 64 = 0 then 100 else 2)"
  by (simp add: mask_bits_for_def compute_mask_bits_def max_items_def toy_ops_def MIN_NUM_BLOOM_ITEMS_def)

lemma toy_budget: "0 < n \<Longrightarrow> n < 2 ^ 16 \<Longrightarrow> mask_bits_for toy_ops n 0 = 2"
  by (simp add: toy_mask_bits)

lemma example_ext_layout: "wire_layout example_ext"
  by (simp add: wire_layout_def example_ext_def)

lemma example_signs: "signs_for example_crds example_keypair"
  by (simp add: signs_for_def example_crds_def example_keypair_def)

abbreviation example_contact :: "unit contact_info" where
  "example_contact \<equiv> contact_info_of_lite example_lite"

lemma example_contact_simps [simp]:
  "ci_pubkey example_contact = kp_pubkey example_keypair" "ci_sockets example_contact \<noteq> []"
  by (simp_all add: contact_info_of_lite_def example_lite_def example_keypair_def)

lemma unat_u16_less: "unat (w :: u16) < 65536"
  using unsigned_less [of w, where 'a = nat] by simp

lemma budget_u16: "get_max_bloom_filter_bytes X c = Inr n \<Longrightarrow> n < 2 ^ 16"
  by (auto simp: unat_u16_less get_max_bloom_filter_bytes_def Let_def elim!: run_bind_InrE split: option.split)

lemma example_budget: "\<exists>n. 0 < n \<and> n < 2 ^ 16 \<and> get_max_bloom_filter_bytes example_ext 150 = Inr n"
proof -
  have "\<exists>f. new_filter toy_ops (\<lambda>k a b. ()) n 0 = Inr f" if "0 < n" "n \<le> GOSSIP_PACKET_SIZE" for n
    using new_seeded_eq [OF refl, of toy_ops n 0 0 "\<lambda>k a b. ()"] toy_budget [of n] that
    by (auto simp: new_filter_def GOSSIP_PACKET_SIZE_def)
  then have "\<exists>n > 0. get_max_bloom_filter_bytes example_ext 150 = Inr n"
    by (intro max_bloom_bytes_total [where sz = "\<lambda>n. 100" and k = 1])
       (simp_all add: example_ext_def GOSSIP_PACKET_SIZE_def)
  then show ?thesis using budget_u16 by blast
qed

lemma example_requests:
  "\<exists>msgs. create_pull_request_messages example_ext example_contact example_keypair = Inr msgs"
  "\<exists>bs. create_pull_request_message example_ext example_contact example_keypair = Inr bs"
proof -
  obtain n where n: "0 < n" "n < 2 ^ 16" "get_max_bloom_filter_bytes example_ext 150 = Inr n" using example_budget by blast
  have bits: "unat (mask_bits_for (gx_f64 example_ext) n 0) \<le> 58" using toy_budget [OF n(1,2)] by (simp add: example_ext_def)
  obtain v where v: "new_contact_info (gx_crds example_ext) example_keypair example_contact = Inr v"
    by (simp add: new_contact_info_def signed_data_def example_ext_def example_crds_def)
  have size: "cd_value_size (gx_codec example_ext) v = Some 150" by (simp add: example_ext_def)
  have ser: "cd_ser_protocol (gx_codec example_ext) (PullRequest f v) \<noteq> None" for f by (simp add: example_ext_def)
  show "\<exists>msgs. create_pull_request_messages example_ext example_contact example_keypair = Inr msgs"
    "\<exists>bs. create_pull_request_message example_ext example_contact example_keypair = Inr bs"
    by (rule messages_total [OF _ v size n(3) bits ser]; simp)+
qed

section \<open>Properties\<close>

text \<open>C20. The requests for all partitions ask for every hash exactly once: there are as many as partitions, each is the
  encoding of one filter with the node's signed contact info, and every 64-bit hash matches the mask of
  exactly one of them.\<close>

theorem requests_cover_hashes:
  assumes "create_pull_request_messages X ci kp = Inr msgs"
  shows "\<exists>caller fs. length fs = length msgs \<and>
    map (\<lambda>f. cd_ser_protocol (gx_codec X) (PullRequest f caller)) fs = map Some msgs \<and>
    new_contact_info (gx_crds X) kp ci = Inr caller \<and>
    (\<forall>h. \<exists>!i. i < length fs \<and> mask_matches (cf_mask (fs ! i)) (cf_mask_bits (fs ! i)) h)"
proof -
  obtain caller c n bits where m: "new_contact_info (gx_crds X) kp ci = Inr caller"
      "bits = mask_bits_for (gx_f64 X) n 0" "unat bits < 63" "length msgs = 2 ^ unat bits"
      and part: "\<And>i. i < length msgs \<Longrightarrow> partition_message X caller n i = Inr (msgs ! i)"
    using messages_InrE [OF assms] by metis
  have "\<exists>f. new_seeded (gx_f64 X) (gx_bloom X (Suc i)) n 0 (word_of_nat i) = Inr f \<and>
      cd_ser_protocol (gx_codec X) (PullRequest f caller) = Some (msgs ! i)" if "i < length msgs" for i
    using part [OF that] by (simp only: partition_message_Inr)
  then obtain f where f: "\<And>i. i < length msgs \<Longrightarrow> new_seeded (gx_f64 X) (gx_bloom X (Suc i)) n 0 (word_of_nat i) = Inr (f i)"
      "\<And>i. i < length msgs \<Longrightarrow> cd_ser_protocol (gx_codec X) (PullRequest (f i) caller) = Some (msgs ! i)" by metis
  define fs where "fs = map f [0..<length msgs]"
  have mask: "compute_mask (word_of_nat i) bits = Inr (cf_mask (f i))" "cf_mask_bits (f i) = bits" "unat (word_of_nat i :: u64) = i"
    if "i < length msgs" for i
    using partition_filter [OF m(2,3) _ f(1) [OF that]] that m(4) by simp_all
  have le: "bits \<le> 64" using m(3) by (simp add: word_le_nat_alt)
  have "\<exists>!i. i < length msgs \<and> mask_matches (cf_mask (f i)) bits h" for h
  proof -
    obtain seed where seed: "unat seed < 2 ^ unat bits" "\<exists>k. compute_mask seed bits = Inr k \<and> mask_matches k bits h"
        "\<And>s. unat s < 2 ^ unat bits \<Longrightarrow> \<exists>k. compute_mask s bits = Inr k \<and> mask_matches k bits h \<Longrightarrow> s = seed"
      using masks_exactly_one [OF le, of h] by blast
    show ?thesis
    proof (rule ex1I)
      have "unat seed < length msgs" using seed(1) m(4) by simp
      then show "unat seed < length msgs \<and> mask_matches (cf_mask (f (unat seed))) bits h"
        using mask(1) [of "unat seed"] seed(2) by simp
      show "i = unat seed" if "i < length msgs \<and> mask_matches (cf_mask (f i)) bits h" for i
        using seed(3) [of "word_of_nat i"] mask [of i] that m(4) by auto
    qed
  qed
  then have "\<forall>h. \<exists>!i. i < length fs \<and> mask_matches (cf_mask (fs ! i)) (cf_mask_bits (fs ! i)) h"
    using mask(2) by (simp add: fs_def cong: conj_cong)
  moreover have "map (\<lambda>f. cd_ser_protocol (gx_codec X) (PullRequest f caller)) fs = map Some msgs"
    using f(2) by (auto simp: fs_def intro: nth_equalityI)
  ultimately show ?thesis using m(1) by (intro exI [of _ caller] exI [of _ fs]) (simp add: fs_def)
qed

theorem requests_cover_hashes_witness:
  "\<exists>msgs caller fs. create_pull_request_messages example_ext example_contact example_keypair = Inr msgs \<and>
    map (\<lambda>f. cd_ser_protocol (gx_codec example_ext) (PullRequest f caller)) fs = map Some msgs \<and>
    (\<exists>!i. i < length fs \<and> mask_matches (cf_mask (fs ! i)) (cf_mask_bits (fs ! i)) 0xDEADBEEF00000000)"
proof -
  obtain msgs where m: "create_pull_request_messages example_ext example_contact example_keypair = Inr msgs"
    using example_requests(1) by blast
  show ?thesis using requests_cover_hashes [OF m] m by blast
qed

text \<open>C27. Every request fits in a gossip packet: the size cache never grants more Bloom bytes than the signed contact
  info leaves room for. A filter of no bytes is never built, since its partition count is infinite.\<close>

theorem requests_fit_packet:
  assumes "wire_layout X" "64 < mask_bits_for (gx_f64 X) 0 0"
    and "create_pull_request_messages X ci kp = Inr msgs" "m \<in> set msgs"
  shows "length m \<le> GOSSIP_PACKET_SIZE"
proof -
  obtain caller c n where s: "cd_value_size (gx_codec X) caller = Some c" "get_max_bloom_filter_bytes X c = Inr n"
      "\<And>i. i < length msgs \<Longrightarrow> partition_message X caller n i = Inr (msgs ! i)"
    using messages_InrE [OF assms(3)] by metis
  obtain i where i: "i < length msgs" "m = msgs ! i" using assms(4) by (auto simp: in_set_conv_nth)
  obtain f where "new_seeded (gx_f64 X) (gx_bloom X (Suc i)) n 0 (word_of_nat i) = Inr f"
      "cd_ser_protocol (gx_codec X) (PullRequest f caller) = Some m"
    using s(3) [OF i(1)] i(2) by (auto simp: partition_message_Inr)
  then show ?thesis using request_fits [OF assms(1,2) s(2,1)] by blast
qed

theorem requests_fit_packet_witness:
  "\<exists>m msgs. create_pull_request_messages example_ext example_contact example_keypair = Inr (m # msgs) \<and>
    length m \<le> GOSSIP_PACKET_SIZE"
proof -
  obtain msgs where m: "create_pull_request_messages example_ext example_contact example_keypair = Inr msgs"
    using example_requests(1) by blast
  then have "msgs \<noteq> []" by (elim messages_InrE) (auto simp del: length_0_conv simp flip: length_0_conv)
  then obtain b bs where b: "msgs = b # bs" by (cases msgs) auto
  have "64 < mask_bits_for (gx_f64 example_ext) 0 0" by (simp add: example_ext_def toy_mask_bits)
  then show ?thesis using requests_fit_packet [OF example_ext_layout _ m, of b] m b by auto
qed

text \<open>The single request that the node sends first carries its own contact info, signed so that it verifies
  under the node's key.\<close>

theorem request_is_signed:
  assumes "create_pull_request_message X ci kp = Inr bs"
    and "signs_for (gx_crds X) kp" "ci_pubkey ci = kp_pubkey kp"
  shows "\<exists>f v. cd_ser_protocol (gx_codec X) (PullRequest f v) = Some bs \<and> cv_data v = ContactInfo ci \<and>
    value_pubkey v = kp_pubkey kp \<and> verify_value (gx_crds X) v = Inr True"
proof -
  obtain f v where v: "new_contact_info (gx_crds X) kp ci = Inr v" "cd_ser_protocol (gx_codec X) (PullRequest f v) = Some bs"
    using assms(1) by (auto simp: create_pull_request_message_def or_fail_Inr elim!: run_bind_InrE split: if_splits)
  then have "cv_data v = ContactInfo ci" by (auto simp: new_contact_info_def signed_data_Inr)
  moreover have "verify_value (gx_crds X) v = Inr True"
    using v(1) assms(2,3) by (intro own_value_verifies [of _ kp "ContactInfo ci"]) (simp_all add: new_contact_info_def)
  ultimately show ?thesis using v(2) assms(3) by (intro exI [of _ f] exI [of _ v]) (simp add: value_pubkey_def)
qed

theorem request_is_signed_witness:
  "\<exists>bs f v. create_pull_request_message example_ext example_contact example_keypair = Inr bs \<and>
    cd_ser_protocol (gx_codec example_ext) (PullRequest f v) = Some bs \<and> verify_value example_crds v = Inr True"
proof -
  obtain bs where b: "create_pull_request_message example_ext example_contact example_keypair = Inr bs"
    using example_requests(2) by blast
  have "gx_crds example_ext = example_crds" by (simp add: example_ext_def)
  then show ?thesis using request_is_signed [OF b] example_signs b by auto
qed

end
