(* ===== verification/Handler.thy ===== *)
theory Handler
  imports PullRequest
begin

text \<open>
  \<^verbatim>\<open>crates/dc-gossip/src/handler.rs\<close>: what a message other than a pong does to the table, which peers it
  yields, what is sent and which events are emitted. \<open>net\<close> says whether a datagram can be sent, \<open>clock\<close>
  what \<open>now()\<close> reads at each event.
\<close>

section \<open>The code\<close>

record 'e handled =
  hd_table :: "'e crds_table"
  hd_new_peers :: "socket_addr list"
  hd_sent :: "(bytes \<times> socket_addr) list"
  hd_events :: "gossip_event list"

text \<open>\<open>transport.send(..).await?\<close>.\<close>

definition send_checked :: "(bytes \<Rightarrow> socket_addr \<Rightarrow> bool) \<Rightarrow> bytes \<Rightarrow> socket_addr \<Rightarrow> failure + (bytes \<times> socket_addr) list" where
  "send_checked net bs peer = (if net bs peer then Inr [(bs, peer)] else Inl (Failed SendError))"

definition send_pong :: "('e, 'b, 'f) gossip_ext \<Rightarrow> (bytes \<Rightarrow> socket_addr \<Rightarrow> bool) \<Rightarrow> keypair \<Rightarrow> gossip_ping \<Rightarrow> socket_addr \<Rightarrow>
    failure + (bytes \<times> socket_addr) list" where
  "send_pong X net key ping sender =
     run_bind (encode_to (gx_codec X) (PongMessage (new_pong (cx_sha256 (gx_crds X)) ping key)))
       (\<lambda>bs. send_checked net bs sender)"

text \<open>\<open>HashSet::insert\<close> of every address whose key is not the node's own.\<close>

definition peers_of :: "bytes \<Rightarrow> (bytes \<times> socket_addr) list \<Rightarrow> socket_addr list" where
  "peers_of own infos = foldl (\<lambda>peers (pk, addr). if pk \<noteq> own then List.insert addr peers else peers) [] infos"

definition handle :: "('e, 'b, 'f) gossip_ext \<Rightarrow> (bytes \<Rightarrow> socket_addr \<Rightarrow> bool) \<Rightarrow> (bytes \<Rightarrow> nat option) \<Rightarrow> keypair \<Rightarrow>
    ('e, 'b) protocol \<Rightarrow> socket_addr \<Rightarrow> 'e crds_table \<Rightarrow> failure + 'e handled" where
  "handle X net clock key msg sender table =
     run_bind
       (case msg of
          PushMessage from_key vs \<Rightarrow>
            Inr (merge_all table vs, peers_of (kp_pubkey key) (get_contact_infos (merge_all table vs)), [])
        | PullResponse from_key vs \<Rightarrow>
            Inr (merge_all table vs, peers_of (kp_pubkey key) (get_contact_infos (merge_all table vs)), [])
        | PingMessage ping \<Rightarrow> run_bind (send_pong X net key ping sender) (\<lambda>sent. Inr (table, [], sent))
        | _ \<Rightarrow> Inr (table, [], []))
       (\<lambda>(table', peers, sent).
          run_bind (drain_events (gx_show_pubkey X) clock table') (\<lambda>events. Inr
            \<lparr> hd_table = table', hd_new_peers = peers, hd_sent = sent, hd_events = events \<rparr>))"

section \<open>The peers\<close>

lemma set_peers_fold:
  "set (foldl (\<lambda>peers (pk, addr). if pk \<noteq> own then List.insert addr peers else peers) acc infos) =
   set acc \<union> {addr. \<exists>pk. pk \<noteq> own \<and> (pk, addr) \<in> set infos}"
  by (induction infos arbitrary: acc) (auto split: prod.splits)

lemma set_peers_of: "set (peers_of own infos) = {addr. \<exists>pk. pk \<noteq> own \<and> (pk, addr) \<in> set infos}"
  by (simp add: peers_of_def set_peers_fold)

lemma send_pong_Inr:
  "send_pong X net key ping sender = Inr sent \<longleftrightarrow>
   (\<exists>bs. cd_ser_protocol (gx_codec X) (PongMessage (new_pong (cx_sha256 (gx_crds X)) ping key)) = Some bs \<and>
     net bs sender \<and> sent = [(bs, sender)])"
  by (auto simp: send_pong_def send_checked_def encode_to_def run_bind_eq_Inr or_fail_Inr split: if_splits)

text \<open>The table after a message: merged for a push or a pull response, as it was for any other.\<close>

definition message_values :: "('e, 'b) protocol \<Rightarrow> 'e crds_value list" where
  "message_values msg = (case msg of PushMessage k vs \<Rightarrow> vs | PullResponse k vs \<Rightarrow> vs | _ \<Rightarrow> [])"

lemma handle_table: "handle X net clock key msg sender table = Inr h \<Longrightarrow> hd_table h = merge_all table (message_values msg)"
  by (cases msg) (auto simp: handle_def message_values_def elim!: run_bind_InrE)

lemma handle_new_peers:
  "handle X net clock key msg sender table = Inr h \<Longrightarrow>
   set (hd_new_peers h) \<subseteq> {addr. \<exists>pk. pk \<noteq> kp_pubkey key \<and> (pk, addr) \<in> set (get_contact_infos (hd_table h))}"
  by (cases msg) (auto simp: handle_def set_peers_of elim!: run_bind_InrE)

section \<open>Properties\<close>

text \<open>After a push or a pull response the handler reports as peers exactly the gossip addresses of the other nodes
  in the merged table, the old ones included.\<close>

theorem handler_peers:
  assumes "handle X net clock key msg sender table = Inr h"
    and "msg = PushMessage from_key vs \<or> msg = PullResponse from_key vs"
  shows "hd_table h = merge_all table vs \<and>
    (addr \<in> set (hd_new_peers h) \<longleftrightarrow>
     (\<exists>k v. k \<noteq> kp_pubkey key \<and> (k, v) \<in> set (ct_entries (merge_all table vs)) \<and> data_gossip_addr (cv_data v) = Some addr))"
  using assms by (auto simp: handle_def set_peers_of get_contact_infos_iff elim!: run_bind_InrE) blast+

lemma handle_values_ok:
  assumes "\<And>k. clock k \<noteq> None" "msg = PushMessage from_key vs \<or> msg = PullResponse from_key vs"
  shows "\<exists>h. handle X net clock key msg sender table = Inr h"
  using drain_events_ok [of clock "gx_show_pubkey X" "merge_all table vs"] assms by (auto simp: handle_def)

theorem handler_peers_witness:
  "\<exists>h. handle example_ext (\<lambda>b a. True) (\<lambda>k. Some 1) example_keypair
      (PushMessage (replicate 32 9) [unsigned_new_data (ContactInfo (contact_info_of_lite example_lite))])
      SOCKET_ADDR_UNSPECIFIED new_table = Inr h \<and> SOCKET_ADDR_UNSPECIFIED \<notin> set (hd_new_peers h)"
proof -
  let ?vs = "[unsigned_new_data (ContactInfo (contact_info_of_lite example_lite))]"
  obtain h where h: "handle example_ext (\<lambda>b a. True) (\<lambda>k. Some 1) example_keypair (PushMessage (replicate 32 9) ?vs)
      SOCKET_ADDR_UNSPECIFIED new_table = Inr h"
    using handle_values_ok [of "\<lambda>k. Some 1"] by blast
  have "\<not> (\<exists>k v. k \<noteq> kp_pubkey example_keypair \<and> (k, v) \<in> set (ct_entries (merge_all new_table ?vs)) \<and>
      data_gossip_addr (cv_data v) = Some SOCKET_ADDR_UNSPECIFIED)"
    by (simp add: merge_value_def new_table_def unsigned_new_data_def value_pubkey_def contact_info_of_lite_def
        example_lite_def example_keypair_def)
  then show ?thesis using handler_peers [OF h disjI1 [OF refl], of SOCKET_ADDR_UNSPECIFIED] h by blast
qed

end
