(* ===== verification/GossipLoop.thy ===== *)
theory GossipLoop
  imports Handler
begin

text \<open>
  \<^verbatim>\<open>crates/dc-gossip/src/lib.rs\<close>: \<open>run_gossip_loop\<close>. The start (ping, ten receive attempts, the first pull
  request, fifteen receive attempts) is a function of the outcomes of those attempts; a turn of the main
  loop is \<open>gossip_step\<close>, over a received packet, a receive error, or the half-second timer. Clocks are
  arguments of the inputs: milliseconds since the node started for \<open>Instant\<close>, the time since the epoch
  for timestamps. Looking up names, binding the socket and asking for the public address come before (\<open>Startup\<close>);
  their results are in \<open>gossip_node\<close>.
\<close>

section \<open>The start\<close>

record gossip_node =
  gn_keypair :: keypair
  gn_entrypoint :: socket_addr
  gn_gossip_addr :: socket_addr

definition DEVNET_SHRED_VERSION :: u16 where "DEVNET_SHRED_VERSION = 7016"

text \<open>How a receive with a timeout ends; a timeout of the handshake comes with the token of the next ping.\<close>

datatype receive = Received bytes socket_addr | ReceiveFailed | TimedOut bytes

definition send_ping :: "('e, 'b, 'f) gossip_ext \<Rightarrow> (bytes \<Rightarrow> socket_addr \<Rightarrow> bool) \<Rightarrow> gossip_node \<Rightarrow> bytes \<Rightarrow>
    failure + (bytes \<times> socket_addr) list" where
  "send_ping X net node token =
     run_bind (encode_to (gx_codec X) (PingMessage (new_ping token (gn_keypair node))))
       (\<lambda>bs. send_checked net bs (gn_entrypoint node))"

text \<open>One attempt: whether a pong came, and what was sent. A packet that does not decode ends the start.\<close>

definition handshake_attempt :: "('e, 'b, 'f) gossip_ext \<Rightarrow> (bytes \<Rightarrow> socket_addr \<Rightarrow> bool) \<Rightarrow> gossip_node \<Rightarrow> receive \<Rightarrow>
    failure + bool \<times> (bytes \<times> socket_addr) list" where
  "handshake_attempt X net node r =
     (case r of
        Received bs sender \<Rightarrow>
          run_bind (decode_from (gx_codec X) bs) (\<lambda>msg. Inr (case msg of PongMessage p \<Rightarrow> (True, []) | _ \<Rightarrow> (False, [])))
      | ReceiveFailed \<Rightarrow> Inr (False, [])
      | TimedOut token \<Rightarrow> run_bind (send_ping X net node token) (\<lambda>sent. Inr (False, sent)))"

fun handshake :: "('e, 'b, 'f) gossip_ext \<Rightarrow> (bytes \<Rightarrow> socket_addr \<Rightarrow> bool) \<Rightarrow> gossip_node \<Rightarrow> nat \<Rightarrow> (nat \<Rightarrow> receive) \<Rightarrow>
    failure + bool \<times> (bytes \<times> socket_addr) list" where
  "handshake X net node 0 inputs = Inr (False, [])"
| "handshake X net node (Suc attempts) inputs =
     run_bind (handshake_attempt X net node (inputs 0)) (\<lambda>(pong_ok, sent).
       if pong_ok then Inr (True, sent)
       else run_bind (handshake X net node attempts (\<lambda>i. inputs (Suc i))) (\<lambda>(ok, more_sent). Inr (ok, sent @ more_sent)))"

text \<open>The wait after the first pull request; \<open>bytes[..4]\<close> panics on a shorter packet.\<close>

definition wait_attempt :: "('e, 'b, 'f) gossip_ext \<Rightarrow> (bytes \<Rightarrow> socket_addr \<Rightarrow> bool) \<Rightarrow> gossip_node \<Rightarrow> receive \<Rightarrow>
    failure + (bytes \<times> socket_addr) list" where
  "wait_attempt X net node r =
     (case r of
        Received bs sender \<Rightarrow>
          if length bs < 4 then Inl (Panicked IndexOutOfBounds)
          else (case decode_from (gx_codec X) bs of
                  Inl (Panicked p) \<Rightarrow> Inl (Panicked p)
                | Inl (Failed e) \<Rightarrow> Inr []
                | Inr (PingMessage ping) \<Rightarrow> send_pong X net (gn_keypair node) ping sender
                | Inr msg \<Rightarrow> Inr [])
      | _ \<Rightarrow> Inr [])"

fun initial_wait :: "('e, 'b, 'f) gossip_ext \<Rightarrow> (bytes \<Rightarrow> socket_addr \<Rightarrow> bool) \<Rightarrow> gossip_node \<Rightarrow> nat \<Rightarrow> (nat \<Rightarrow> receive) \<Rightarrow>
    failure + (bytes \<times> socket_addr) list" where
  "initial_wait X net node 0 inputs = Inr []"
| "initial_wait X net node (Suc ticks) inputs =
     run_bind (wait_attempt X net node (inputs 0)) (\<lambda>sent.
       run_bind (initial_wait X net node ticks (\<lambda>i. inputs (Suc i))) (\<lambda>more_sent. Inr (sent @ more_sent)))"

text \<open>The report of the first request reads it back and checks its signature, which may panic.\<close>

definition report_request :: "('e, 'b, 'f) gossip_ext \<Rightarrow> bytes \<Rightarrow> failure + unit" where
  "report_request X bs =
     (case decode_from (gx_codec X) bs of
        Inl (Panicked p) \<Rightarrow> Inl (Panicked p)
      | Inr (PullRequest f caller) \<Rightarrow> run_bind (verify_value (gx_crds X) caller) (\<lambda>ok. Inr ())
      | _ \<Rightarrow> Inr ())"

section \<open>The main loop\<close>

record 'e gossip_state =
  gs_table :: "'e crds_table"
  gs_known_peers :: "socket_addr list"
  gs_last_pull :: nat
  gs_last_prune :: nat
  gs_pull_round :: u64
  gs_latest_slot :: u64

record start_input =
  st_ping_token :: bytes
  st_handshake :: "nat \<Rightarrow> receive"
  st_timestamp :: u64
  st_micros :: "nat option"
  st_wait :: "nat \<Rightarrow> receive"
  st_pull_started :: nat
  st_prune_started :: nat
  st_latest_slot :: u64

definition own_contact :: "('e, 'b, 'f) gossip_ext \<Rightarrow> gossip_node \<Rightarrow> u64 \<Rightarrow> nat option \<Rightarrow> failure + 'e contact_info" where
  "own_contact X node timestamp micros =
     new_contact (gx_default_version X) micros (kp_pubkey (gn_keypair node)) timestamp (gn_gossip_addr node) DEVNET_SHRED_VERSION"

definition gossip_start :: "('e, 'b, 'f) gossip_ext \<Rightarrow> (bytes \<Rightarrow> socket_addr \<Rightarrow> bool) \<Rightarrow> gossip_node \<Rightarrow> start_input \<Rightarrow>
    failure + 'e gossip_state \<times> (bytes \<times> socket_addr) list" where
  "gossip_start X net node s =
     run_bind (send_ping X net node (st_ping_token s)) (\<lambda>sent1.
     run_bind (handshake X net node 10 (st_handshake s)) (\<lambda>(pong_ok, sent2).
     run_bind (own_contact X node (st_timestamp s) (st_micros s)) (\<lambda>ci.
     run_bind (create_pull_request_message X ci (gn_keypair node)) (\<lambda>initial_pull.
     run_bind (report_request X initial_pull) (\<lambda>u.
     run_bind (send_checked net initial_pull (gn_entrypoint node)) (\<lambda>sent3.
     run_bind (initial_wait X net node 15 (st_wait s)) (\<lambda>sent4. Inr
       (\<lparr> gs_table = new_table, gs_known_peers = [gn_entrypoint node], gs_last_pull = st_pull_started s,
          gs_last_prune = st_prune_started s, gs_pull_round = 0, gs_latest_slot = st_latest_slot s \<rparr>,
        sent1 @ sent2 @ sent3 @ sent4))))))))"

text \<open>
  A turn of \<open>tokio::select!\<close>. The timer reads the clock before and after each of its two jobs. A packet
  comes with what \<open>now()\<close> reads while its events are emitted.
\<close>

record timer_input =
  tk_pull_now :: nat
  tk_pulled_at :: nat
  tk_timestamp :: u64
  tk_micros :: "nat option"
  tk_prune_now :: nat
  tk_pruned_at :: nat
  tk_secs :: "nat option"

datatype gossip_input =
    PacketIn bytes socket_addr "bytes \<Rightarrow> nat option"
  | ReceiveError
  | TimerTick timer_input

record 'e gossip_output =
  out_sent :: "(bytes \<times> socket_addr) list"
  out_events :: "gossip_event list"
  out_contacts :: "'e contact_info list"

definition quiet :: "'e gossip_output" where
  "quiet = \<lparr> out_sent = [], out_events = [], out_contacts = [] \<rparr>"

definition extend_peers :: "socket_addr list \<Rightarrow> socket_addr list \<Rightarrow> socket_addr list" where
  "extend_peers known new = foldl (\<lambda>ps a. List.insert a ps) known new"

definition packet_step :: "('e, 'b, 'f) gossip_ext \<Rightarrow> (bytes \<Rightarrow> socket_addr \<Rightarrow> bool) \<Rightarrow> gossip_node \<Rightarrow> 'e gossip_state \<Rightarrow>
    bytes \<Rightarrow> socket_addr \<Rightarrow> (bytes \<Rightarrow> nat option) \<Rightarrow> failure + 'e gossip_state \<times> 'e gossip_output" where
  "packet_step X net node st bs sender clock =
     (case decode_from (gx_codec X) bs of
        Inl (Panicked p) \<Rightarrow> Inl (Panicked p)
      | Inl (Failed e) \<Rightarrow> Inr (st, quiet)
      | Inr (PingMessage ping) \<Rightarrow>
          run_bind (send_pong X net (gn_keypair node) ping sender) (\<lambda>sent. Inr (st, quiet\<lparr>out_sent := sent\<rparr>))
      | Inr (PongMessage pong) \<Rightarrow> Inr (st, quiet)
      | Inr msg \<Rightarrow>
          run_bind (handle X net clock (gn_keypair node) msg sender (gs_table st)) (\<lambda>h. Inr
            (st\<lparr>gs_table := hd_table h, gs_known_peers := extend_peers (gs_known_peers st) (hd_new_peers h)\<rparr>,
             \<lparr> out_sent = hd_sent h, out_events = hd_events h, out_contacts = [] \<rparr>)))"

text \<open>The datagrams of a pull round: every partition to the entrypoint, one partition to every other peer.\<close>

definition pull_datagrams :: "socket_addr \<Rightarrow> socket_addr list \<Rightarrow> u64 \<Rightarrow> bytes list \<Rightarrow> (bytes \<times> socket_addr) list" where
  "pull_datagrams entrypoint known pull_round messages =
     map (\<lambda>m. (m, entrypoint)) messages @
     (let num = length messages
      in if 0 < num
         then map (\<lambda>peer. (messages ! (unat pull_round mod num), peer)) (filter (\<lambda>p. p \<noteq> entrypoint) known)
         else [])"

definition pull_job :: "('e, 'b, 'f) gossip_ext \<Rightarrow> (bytes \<Rightarrow> socket_addr \<Rightarrow> bool) \<Rightarrow> gossip_node \<Rightarrow> timer_input \<Rightarrow>
    'e gossip_state \<Rightarrow> failure + 'e gossip_state \<times> (bytes \<times> socket_addr) list" where
  "pull_job X net node k st =
     (if 10000 \<le> tk_pull_now k - gs_last_pull st
      then let known = (if gs_known_peers st = [] then [gn_entrypoint node] else gs_known_peers st)
           in run_bind (own_contact X node (tk_timestamp k) (tk_micros k)) (\<lambda>ci.
                case create_pull_request_messages X ci (gn_keypair node) of
                  Inl (Panicked p) \<Rightarrow> Inl (Panicked p)
                | Inl (Failed e) \<Rightarrow> Inr (st\<lparr>gs_known_peers := known, gs_last_pull := tk_pulled_at k\<rparr>, [])
                | Inr messages \<Rightarrow> Inr
                    (st\<lparr>gs_known_peers := known, gs_last_pull := tk_pulled_at k, gs_pull_round := gs_pull_round st + 1\<rparr>,
                     filter (\<lambda>(m, a). net m a) (pull_datagrams (gn_entrypoint node) known (gs_pull_round st) messages)))
      else Inr (st, []))"

definition advance_slot :: "u64 option \<Rightarrow> u64 \<Rightarrow> u64" where
  "advance_slot highest latest = (case highest of Some slot \<Rightarrow> if latest < slot then slot else latest | None \<Rightarrow> latest)"

definition prune_job :: "timer_input \<Rightarrow> 'e gossip_state \<Rightarrow> failure + 'e gossip_state \<times> 'e contact_info list" where
  "prune_job k st =
     (if 15000 \<le> tk_prune_now k - gs_last_prune st
      then run_bind (prune (tk_secs k) (gs_table st)) (\<lambda>table. Inr
        (st\<lparr>gs_table := table, gs_latest_slot := advance_slot (get_highest_slot table) (gs_latest_slot st),
            gs_known_peers := extend_peers (gs_known_peers st) (map snd (get_contact_infos table)),
            gs_last_prune := tk_pruned_at k\<rparr>,
         map snd (all_contact_infos table)))
      else Inr (st, []))"

fun gossip_step :: "('e, 'b, 'f) gossip_ext \<Rightarrow> (bytes \<Rightarrow> socket_addr \<Rightarrow> bool) \<Rightarrow> gossip_node \<Rightarrow> 'e gossip_state \<Rightarrow>
    gossip_input \<Rightarrow> failure + 'e gossip_state \<times> 'e gossip_output" where
  "gossip_step X net node st (PacketIn bs sender clock) = packet_step X net node st bs sender clock"
| "gossip_step X net node st ReceiveError = Inr (st, quiet)"
| "gossip_step X net node st (TimerTick k) =
     run_bind (pull_job X net node k st) (\<lambda>(st1, sent).
     run_bind (prune_job k st1) (\<lambda>(st2, contacts). Inr
       (st2, \<lparr> out_sent = sent, out_events = [], out_contacts = contacts \<rparr>)))"

section \<open>Steps\<close>

lemma set_extend_peers: "set (extend_peers known new) = set known \<union> set new"
  unfolding extend_peers_def by (induction new arbitrary: known) auto

lemma distinct_extend_peers: "distinct known \<Longrightarrow> distinct (extend_peers known new)"
  unfolding extend_peers_def by (induction new arbitrary: known) auto

text \<open>What a step may do to the state: the table, the peers and the slot.\<close>

lemma packet_step_Inr:
  assumes "packet_step X net node st bs sender clock = Inr (st', out)"
  shows "\<exists>vs new. gs_table st' = merge_all (gs_table st) vs \<and>
    gs_known_peers st' = extend_peers (gs_known_peers st) new \<and> gs_latest_slot st' = gs_latest_slot st \<and>
    gs_pull_round st' = gs_pull_round st \<and> out_contacts out = [] \<and>
    (vs \<noteq> [] \<longrightarrow> (\<exists>from_key. decode_from (gx_codec X) bs \<in> {Inr (PushMessage from_key vs), Inr (PullResponse from_key vs)}))"
proof -
  have idle: ?thesis if "st' = st" "out_contacts out = []"
    using that by (intro exI [of _ "[]"]) (simp add: extend_peers_def)
  show ?thesis
  proof (cases "decode_from (gx_codec X) bs")
    case (Inl f)
    then have "st' = st \<and> out_contacts out = []" using assms by (cases f) (auto simp: packet_step_def quiet_def)
    then show ?thesis by (intro idle) simp_all
  next
    case (Inr msg)
    show ?thesis
    proof (cases "(\<exists>p. msg = PingMessage p) \<or> (\<exists>p. msg = PongMessage p)")
      case True
      then have "st' = st \<and> out_contacts out = []"
        using assms Inr by (auto simp: packet_step_def quiet_def elim!: run_bind_InrE)
      then show ?thesis by (intro idle) simp_all
    next
      case False
      then have step: "packet_step X net node st bs sender clock =
          run_bind (handle X net clock (gn_keypair node) msg sender (gs_table st)) (\<lambda>h. Inr
            (st\<lparr>gs_table := hd_table h, gs_known_peers := extend_peers (gs_known_peers st) (hd_new_peers h)\<rparr>,
             \<lparr> out_sent = hd_sent h, out_events = hd_events h, out_contacts = [] \<rparr>))"
        unfolding packet_step_def Inr by (cases msg) simp_all
      obtain h where h: "handle X net clock (gn_keypair node) msg sender (gs_table st) = Inr h"
          "st' = st\<lparr>gs_table := hd_table h, gs_known_peers := extend_peers (gs_known_peers st) (hd_new_peers h)\<rparr>"
          "out_contacts out = []"
        using assms [unfolded step] by (auto elim!: run_bind_InrE)
      have "message_values msg \<noteq> [] \<longrightarrow>
          (\<exists>from_key. msg \<in> {PushMessage from_key (message_values msg), PullResponse from_key (message_values msg)})"
        by (cases msg) (simp_all add: message_values_def)
      then show ?thesis using handle_table [OF h(1)] Inr h(2,3)
        by (intro exI [of _ "message_values msg"] exI [of _ "hd_new_peers h"]) simp
    qed
  qed
qed

lemma pull_job_Inr:
  assumes "pull_job X net node k st = Inr (st', sent)"
  shows "gs_table st' = gs_table st \<and> gs_latest_slot st' = gs_latest_slot st \<and> gs_last_prune st' = gs_last_prune st \<and>
    gs_known_peers st' \<in> {gs_known_peers st, if gs_known_peers st = [] then [gn_entrypoint node] else gs_known_peers st}"
  using assms by (auto simp: pull_job_def Let_def elim!: run_bind_InrE split: if_splits sum.splits failure.splits)

lemma prune_job_Inr:
  assumes "prune_job k st = Inr (st', contacts)"
  shows "(st' = st \<and> contacts = []) \<or>
    (\<exists>table. prune (tk_secs k) (gs_table st) = Inr table \<and> gs_table st' = table \<and>
       gs_latest_slot st' = advance_slot (get_highest_slot table) (gs_latest_slot st) \<and>
       gs_known_peers st' = extend_peers (gs_known_peers st) (map snd (get_contact_infos table)) \<and>
       contacts = map snd (all_contact_infos table))"
  using assms by (auto simp: prune_job_def elim!: run_bind_InrE split: if_splits)

lemma tick_Inr:
  assumes "gossip_step X net node st (TimerTick k) = Inr (st', out)"
  shows "\<exists>st1. pull_job X net node k st = Inr (st1, out_sent out) \<and> prune_job k st1 = Inr (st', out_contacts out)"
  using assms by (auto elim!: run_bind_InrE)

section \<open>Runs\<close>

text \<open>The states of a node: after a start, and after every turn of the loop, whatever arrives and whatever the network
  lets through.\<close>

inductive gossip_reachable :: "('e, 'b, 'f) gossip_ext \<Rightarrow> gossip_node \<Rightarrow> 'e gossip_state \<Rightarrow> bool" for X node where
  started: "gossip_start X net node s = Inr (st, sent) \<Longrightarrow> gossip_reachable X node st"
| turned: "gossip_reachable X node st \<Longrightarrow> gossip_step X net node st i = Inr (st', out) \<Longrightarrow> gossip_reachable X node st'"

definition gossip_ok :: "gossip_node \<Rightarrow> 'e gossip_state \<Rightarrow> bool" where
  "gossip_ok node st \<longleftrightarrow> table_ok (gs_table st) \<and> distinct (gs_known_peers st) \<and> gn_entrypoint node \<in> set (gs_known_peers st)"

lemma gossip_start_Inr:
  assumes "gossip_start X net node s = Inr (st, sent)"
  shows "st = \<lparr> gs_table = new_table, gs_known_peers = [gn_entrypoint node], gs_last_pull = st_pull_started s,
      gs_last_prune = st_prune_started s, gs_pull_round = 0, gs_latest_slot = st_latest_slot s \<rparr>"
  using assms by (auto simp: gossip_start_def elim!: run_bind_InrE)

lemma gossip_ok_start: "gossip_start X net node s = Inr (st, sent) \<Longrightarrow> gossip_ok node st"
  by (auto dest!: gossip_start_Inr simp: gossip_ok_def table_ok_new)

lemma advance_slot_le: "latest \<le> advance_slot highest latest"
  by (auto simp: advance_slot_def split: option.split)

text \<open>Every turn is a merge of received values, a prune, or leaves the table; the peers only grow.\<close>

lemma gossip_step_cases:
  assumes "gossip_step X net node st i = Inr (st', out)" "gs_known_peers st \<noteq> []"
  shows "(\<exists>new. gs_known_peers st' = extend_peers (gs_known_peers st) new) \<and>
    ((\<exists>vs. gs_table st' = merge_all (gs_table st) vs \<and> gs_latest_slot st' = gs_latest_slot st \<and> out_contacts out = [] \<and>
        (vs \<noteq> [] \<longrightarrow> (\<exists>bs from_key. decode_from (gx_codec X) bs \<in> {Inr (PushMessage from_key vs), Inr (PullResponse from_key vs)}))) \<or>
     (\<exists>clock. prune clock (gs_table st) = Inr (gs_table st') \<and>
        gs_latest_slot st' = advance_slot (get_highest_slot (gs_table st')) (gs_latest_slot st) \<and>
        out_contacts out = map snd (all_contact_infos (gs_table st'))))"
proof (cases i)
  case (PacketIn bs sender clock)
  then have "packet_step X net node st bs sender clock = Inr (st', out)" using assms(1) by simp
  from packet_step_Inr [OF this] show ?thesis by blast
next
  case ReceiveError
  then have "st' = st" "out = quiet" using assms(1) by simp_all
  then show ?thesis by (intro conjI disjI1 exI [of _ "[]"]) (simp_all add: extend_peers_def quiet_def)
next
  case (TimerTick k)
  then obtain st1 where j: "pull_job X net node k st = Inr (st1, out_sent out)" "prune_job k st1 = Inr (st', out_contacts out)"
    using tick_Inr assms(1) by blast
  have same: "gs_table st1 = gs_table st" "gs_latest_slot st1 = gs_latest_slot st" "gs_known_peers st1 = gs_known_peers st"
    using pull_job_Inr [OF j(1)] assms(2) by auto
  from prune_job_Inr [OF j(2)] show ?thesis
  proof
    assume "st' = st1 \<and> out_contacts out = []"
    then show ?thesis using same by (intro conjI disjI1 exI [of _ "[]"]) (simp_all add: extend_peers_def)
  next
    assume "\<exists>table. prune (tk_secs k) (gs_table st1) = Inr table \<and> gs_table st' = table \<and>
       gs_latest_slot st' = advance_slot (get_highest_slot table) (gs_latest_slot st1) \<and>
       gs_known_peers st' = extend_peers (gs_known_peers st1) (map snd (get_contact_infos table)) \<and>
       out_contacts out = map snd (all_contact_infos table)"
    then show ?thesis using same by (intro conjI disjI2) auto
  qed
qed

lemma gossip_ok_step:
  assumes "gossip_ok node st" "gossip_step X net node st i = Inr (st', out)"
  shows "gossip_ok node st'"
proof -
  have "gs_known_peers st \<noteq> []" using assms(1) by (auto simp: gossip_ok_def)
  then obtain new where peers: "gs_known_peers st' = extend_peers (gs_known_peers st) new"
    and "table_ok (gs_table st')"
    using gossip_step_cases [OF assms(2)] assms(1) table_ok_merge_all table_ok_prune by (metis gossip_ok_def)
  then show ?thesis using assms(1) by (simp add: gossip_ok_def set_extend_peers distinct_extend_peers)
qed

lemma reachable_ok: "gossip_reachable X node st \<Longrightarrow> gossip_ok node st"
  by (induction rule: gossip_reachable.induct) (auto intro: gossip_ok_start gossip_ok_step)

section \<open>The start takes a bounded number of receives\<close>

lemma handshake_inputs:
  "(\<And>i. i < n \<Longrightarrow> inputs i = inputs' i) \<Longrightarrow> handshake X net node n inputs = handshake X net node n inputs'"
proof (induction n arbitrary: inputs inputs')
  case (Suc n)
  have eq: "handshake X net node n (\<lambda>i. inputs (Suc i)) = handshake X net node n (\<lambda>i. inputs' (Suc i))"
    by (rule Suc.IH) (simp add: Suc.prems)
  show ?case unfolding handshake.simps eq Suc.prems [OF zero_less_Suc] by (rule refl)
qed simp

lemma initial_wait_inputs:
  "(\<And>i. i < n \<Longrightarrow> inputs i = inputs' i) \<Longrightarrow> initial_wait X net node n inputs = initial_wait X net node n inputs'"
proof (induction n arbitrary: inputs inputs')
  case (Suc n)
  have "initial_wait X net node n (\<lambda>i. inputs (Suc i)) = initial_wait X net node n (\<lambda>i. inputs' (Suc i))"
    by (rule Suc.IH) (simp add: Suc.prems)
  then show ?case using Suc.prems [of 0] by simp
qed simp

lemma send_checked_Inr: "send_checked net bs peer = Inr sent \<longleftrightarrow> net bs peer \<and> sent = [(bs, peer)]"
  by (auto simp: send_checked_def)

lemma handshake_sent: "handshake X net node n inputs = Inr (ok, sent) \<Longrightarrow> length sent \<le> n"
proof (induction n arbitrary: inputs ok sent)
  case (Suc n)
  obtain b s where a: "handshake_attempt X net node (inputs 0) = Inr (b, s)"
    using Suc.prems by (auto elim!: run_bind_InrE)
  then have s: "length s \<le> 1"
    by (auto simp: handshake_attempt_def send_ping_def send_checked_Inr elim!: run_bind_InrE split: receive.splits protocol.splits)
  show ?case
  proof (cases b)
    case True
    then show ?thesis using Suc.prems a s by simp
  next
    case False
    then obtain ok' rest where "handshake X net node n (\<lambda>i. inputs (Suc i)) = Inr (ok', rest)" "sent = s @ rest"
      using Suc.prems a by (auto elim!: run_bind_InrE)
    then show ?thesis using Suc.IH s by fastforce
  qed
qed simp

lemma initial_wait_sent: "initial_wait X net node n inputs = Inr sent \<Longrightarrow> length sent \<le> n"
proof (induction n arbitrary: inputs sent)
  case (Suc n)
  then obtain s rest where a: "wait_attempt X net node (inputs 0) = Inr s"
      "initial_wait X net node n (\<lambda>i. inputs (Suc i)) = Inr rest" "sent = s @ rest"
    by (auto elim!: run_bind_InrE)
  then have "length s \<le> 1"
    by (auto simp: wait_attempt_def send_pong_Inr split: receive.splits sum.splits failure.splits protocol.splits if_splits)
  then show ?case using Suc.IH [OF a(2)] a(3) by simp
qed simp

section \<open>Pull rounds\<close>

text \<open>What may happen between two pull rounds: packets, receive errors, and timer turns that do not pull.\<close>

inductive awaits :: "('e, 'b, 'f) gossip_ext \<Rightarrow> gossip_node \<Rightarrow> 'e gossip_state \<Rightarrow> 'e gossip_state \<Rightarrow> bool" for X node st where
  awaits_start: "awaits X node st st"
| awaits_packet: "awaits X node st st1 \<Longrightarrow> gossip_step X net node st1 (PacketIn bs sender clock) = Inr (st2, out) \<Longrightarrow>
    awaits X node st st2"
| awaits_tick: "awaits X node st st1 \<Longrightarrow> gossip_step X net node st1 (TimerTick k) = Inr (st2, out) \<Longrightarrow>
    tk_pull_now k - gs_last_pull st1 < 10000 \<Longrightarrow> awaits X node st st2"

lemma tick_without_pull:
  assumes "gossip_step X net node st (TimerTick k) = Inr (st', out)" "tk_pull_now k - gs_last_pull st < 10000"
  shows "gs_pull_round st' = gs_pull_round st \<and> set (gs_known_peers st) \<subseteq> set (gs_known_peers st')"
proof -
  have "pull_job X net node k st = Inr (st, [])" using assms(2) by (simp add: pull_job_def)
  then have "prune_job k st = Inr (st', out_contacts out)" using tick_Inr [OF assms(1)] by simp
  then show ?thesis by (auto simp: prune_job_def set_extend_peers elim!: run_bind_InrE split: if_splits)
qed

lemma awaits_keep:
  "awaits X node st st' \<Longrightarrow> gs_pull_round st' = gs_pull_round st \<and> set (gs_known_peers st) \<subseteq> set (gs_known_peers st')"
proof (induction rule: awaits.induct)
  case (awaits_packet st1 net bs sender clock st2 out)
  then have "packet_step X net node st1 bs sender clock = Inr (st2, out)" by simp
  then show ?case using packet_step_Inr awaits_packet.IH by (fastforce simp: set_extend_peers)
next
  case (awaits_tick st1 net k st2 out)
  then show ?case using tick_without_pull [OF awaits_tick.hyps(2,3)] by auto
qed simp

lemma due_pull:
  assumes "gossip_step X net node st (TimerTick k) = Inr (st', out)" "10000 \<le> tk_pull_now k - gs_last_pull st"
    and "own_contact X node (tk_timestamp k) (tk_micros k) = Inr ci"
    and "create_pull_request_messages X ci (gn_keypair node) = Inr messages" "gs_known_peers st \<noteq> []"
  shows "out_sent out = filter (\<lambda>(m, a). net m a)
      (pull_datagrams (gn_entrypoint node) (gs_known_peers st) (gs_pull_round st) messages) \<and>
    gs_pull_round st' = gs_pull_round st + 1 \<and> set (gs_known_peers st) \<subseteq> set (gs_known_peers st')"
proof -
  obtain st1 where j: "pull_job X net node k st = Inr (st1, out_sent out)" "prune_job k st1 = Inr (st', out_contacts out)"
    using tick_Inr [OF assms(1)] by blast
  have "st1 = st\<lparr>gs_last_pull := tk_pulled_at k, gs_pull_round := gs_pull_round st + 1\<rparr> \<and> out_sent out = filter (\<lambda>(m, a). net m a)
      (pull_datagrams (gn_entrypoint node) (gs_known_peers st) (gs_pull_round st) messages)"
    using j(1) assms(2-5) by (simp add: pull_job_def)
  then show ?thesis
    using j(2) by (auto simp: prune_job_def set_extend_peers elim!: run_bind_InrE split: if_splits)
qed

text \<open>A round counter that wraps still goes through all residues of a power of two.\<close>

lemma unat_round_mod:
  fixes r :: u64
  assumes "b \<le> 63" "k < 2 ^ b"
  shows "unat (r + word_of_nat k) mod 2 ^ b = (unat r + k) mod 2 ^ b"
proof -
  have "(2::nat) ^ b \<le> 2 ^ 63" using assms(1) by (intro power_increasing) auto
  then have k: "unat (word_of_nat k :: u64) = k" using assms(2) by (simp add: unat_of_nat)
  have "(2::nat) ^ b dvd 2 ^ 64" using assms(1) by (intro le_imp_power_dvd) simp
  then show ?thesis by (simp add: unat_word_ariths k mod_mod_cancel)
qed

lemma residue_hit:
  fixes n :: nat
  assumes "i < n"
  shows "\<exists>k < n. (a + k) mod n = i"
proof -
  let ?k = "(i + (n - a mod n)) mod n"
  have n: "0 < n" using assms by simp
  have "(a + ?k) mod n = (a mod n + (i + (n - a mod n))) mod n" by (simp add: mod_simps)
  also have "a mod n + (i + (n - a mod n)) = i + n" using mod_less_divisor [OF n, of a] by linarith
  finally have "(a + ?k) mod n = i" using assms by simp
  then show ?thesis using n by (intro exI [of _ ?k]) simp
qed

lemma datagram_of_round:
  assumes "0 < length messages" "p \<in> set known" "p \<noteq> entrypoint"
  shows "(messages ! (unat r mod length messages), p) \<in> set (pull_datagrams entrypoint known r messages)"
  using assms by (auto simp: pull_datagrams_def)

section \<open>Sizes of what is decoded\<close>

text \<open>Rust's array types as lengths: keys and hashes of 32 bytes, signatures of 64, socket caches of 14 addresses.\<close>

definition value_wt :: "'e crds_value \<Rightarrow> bool" where
  "value_wt v \<longleftrightarrow> length (value_pubkey v) = 32 \<and> length (cv_signature v) = 64 \<and> length (cv_hash v) = 32 \<and>
     (case cv_data v of ContactInfo ci \<Rightarrow> length (ci_cache ci) = SOCKET_CACHE_SIZE | _ \<Rightarrow> True)"

text \<open>What is relied on of deserialization: it fills the arrays.\<close>

definition codec_wt :: "('e, 'b) codec \<Rightarrow> bool" where
  "codec_wt X \<longleftrightarrow>
     (\<forall>bs msg. cd_de_protocol X bs = Some msg \<longrightarrow> list_all value_wt (message_values msg)) \<and>
     (\<forall>bs v. cd_de_value X bs = Some v \<longrightarrow> value_wt v)"

lemma decoded_wt:
  assumes "codec_wt X" "decode_from X bs \<in> {Inr (PushMessage from_key vs), Inr (PullResponse from_key vs)}" "v \<in> set vs"
  shows "value_wt v"
proof (cases "cd_de_protocol X bs")
  case None
  then have "decode_slow X bs \<in> {Inr (PushMessage from_key vs), Inr (PullResponse from_key vs)}"
    using assms(2) by (simp add: decode_from_def)
  then obtain count start where "read_values X bs count start = Inr vs"
    using slow_values_read [OF _ None] by blast
  then show ?thesis using read_values_origin assms(1,3) by (metis codec_wt_def)
next
  case (Some msg)
  then have "msg = PushMessage from_key vs \<or> msg = PullResponse from_key vs"
    using assms(2) by (auto simp: decode_from_def)
  then have "message_values msg = vs" by (auto simp: message_values_def)
  moreover have "list_all value_wt (message_values msg)" using assms(1) Some by (simp add: codec_wt_def)
  ultimately show ?thesis using assms(3) by (simp add: list_all_iff)
qed

section \<open>A run\<close>

definition gossip_example_node :: gossip_node where
  "gossip_example_node = \<lparr> gn_keypair = example_keypair, gn_entrypoint = \<lparr> sa_ip = V4 0x22000001, sa_port = 8001 \<rparr>,
     gn_gossip_addr = \<lparr> sa_ip = V4 0x0A000002, sa_port = 8002 \<rparr> \<rparr>"

definition example_start :: start_input where
  "example_start = \<lparr> st_ping_token = replicate 32 1, st_handshake = (\<lambda>i. ReceiveFailed), st_timestamp = 1700000000000,
     st_micros = Some 1700000000000000, st_wait = (\<lambda>i. ReceiveFailed), st_pull_started = 0, st_prune_started = 0,
     st_latest_slot = 0 \<rparr>"

definition started_state :: "unit gossip_state" where
  "started_state = \<lparr> gs_table = new_table, gs_known_peers = [gn_entrypoint gossip_example_node], gs_last_pull = 0,
     gs_last_prune = 0, gs_pull_round = 0, gs_latest_slot = 0 \<rparr>"

lemma handshake_no_answer: "handshake X net node n (\<lambda>i. ReceiveFailed) = Inr (False, [])"
  by (induction n) (simp_all add: handshake_attempt_def)

lemma initial_wait_no_answer: "initial_wait X net node n (\<lambda>i. ReceiveFailed) = Inr []"
  by (induction n) (simp_all add: wait_attempt_def)

lemma example_request_total:
  assumes "own_contact example_ext gossip_example_node timestamp (Some us) = Inr ci"
  shows "\<exists>msgs. create_pull_request_messages example_ext ci example_keypair = Inr msgs"
    and "\<exists>bs. create_pull_request_message example_ext ci example_keypair = Inr bs"
proof -
  obtain n where n: "0 < n" "n < 2 ^ 16" "get_max_bloom_filter_bytes example_ext 150 = Inr n" using example_budget by blast
  have bits: "unat (mask_bits_for (gx_f64 example_ext) n 0) \<le> 58" using toy_budget [OF n(1,2)] by (simp add: example_ext_def)
  have sockets: "ci_sockets ci \<noteq> []" using assms [unfolded own_contact_def] by (rule own_contact_fields(3))
  obtain v where v: "new_contact_info (gx_crds example_ext) example_keypair ci = Inr v"
    by (simp add: new_contact_info_def signed_data_def example_ext_def example_crds_def)
  have size: "cd_value_size (gx_codec example_ext) v = Some 150" by (simp add: example_ext_def)
  have ser: "cd_ser_protocol (gx_codec example_ext) (PullRequest f v) \<noteq> None" for f by (simp add: example_ext_def)
  show "\<exists>msgs. create_pull_request_messages example_ext ci example_keypair = Inr msgs"
    "\<exists>bs. create_pull_request_message example_ext ci example_keypair = Inr bs"
    by (rule messages_total [OF sockets v size n(3) bits ser])+
qed

lemma example_own_contact: "us < 2 ^ 64 \<Longrightarrow> \<exists>ci. own_contact example_ext gossip_example_node timestamp (Some us) = Inr ci"
  by (simp add: own_contact_def new_contact_def unix_timestamp_micros_def)

lemma example_report: "create_pull_request_message example_ext ci kp = Inr bs \<Longrightarrow> report_request example_ext bs = Inr ()"
proof -
  assume "create_pull_request_message example_ext ci kp = Inr bs"
  then obtain f v where "cd_ser_protocol (gx_codec example_ext) (PullRequest f v) = Some bs"
    by (auto simp: create_pull_request_message_def or_fail_Inr elim!: run_bind_InrE split: if_splits)
  then have "bs = u32_le 0 @ u64_le (cf_mask f) @ replicate 242 0" by (simp add: example_ext_def)
  then have "decode_from (gx_codec example_ext) bs = Inl (Failed DecodeError)"
    by (simp add: decode_from_def decode_slow_def example_ext_def example_codec_def Let_def)
  then show ?thesis by (simp add: report_request_def)
qed

lemma example_started: "\<exists>sent. gossip_start example_ext (\<lambda>b a. True) gossip_example_node example_start = Inr (started_state, sent)"
proof -
  obtain ping where "cd_ser_protocol (gx_codec example_ext) (PingMessage (new_ping (replicate 32 1) example_keypair)) = Some ping"
    by (simp add: example_ext_def)
  moreover obtain ci where ci: "own_contact example_ext gossip_example_node 1700000000000 (Some 1700000000000000) = Inr ci"
    using example_own_contact [of 1700000000000000] by auto
  moreover obtain bs where bs: "create_pull_request_message example_ext ci example_keypair = Inr bs"
    using example_request_total(2) [OF ci] by blast
  ultimately show ?thesis
    using example_report [OF bs]
    by (simp add: gossip_start_def example_start_def gossip_example_node_def send_ping_def send_checked_def encode_to_def
        handshake_no_answer initial_wait_no_answer started_state_def)
qed

section \<open>Properties\<close>

text \<open>C12. In every reachable state each node has one entry in the table, under its own key; the peers are without
  repetition; and the entrypoint is one of them, so that the loop never runs out of peers.\<close>

theorem gossip_invariant:
  assumes "gossip_reachable X node st"
  shows "distinct (map fst (ct_entries (gs_table st))) \<and>
    ct_entries (gs_table st) = map (\<lambda>(k, v). (value_pubkey v, v)) (ct_entries (gs_table st)) \<and>
    distinct (gs_known_peers st) \<and> gn_entrypoint node \<in> set (gs_known_peers st)"
proof -
  have ok: "gossip_ok node st" using assms by (rule reachable_ok)
  then have "\<forall>e \<in> set (ct_entries (gs_table st)). (case e of (k, v) \<Rightarrow> (value_pubkey v, v)) = e"
    by (auto simp: gossip_ok_def table_ok_def)
  then have "map (\<lambda>(k, v). (value_pubkey v, v)) (ct_entries (gs_table st)) = ct_entries (gs_table st)"
    by (intro map_idI) blast
  then show ?thesis using ok by (simp add: gossip_ok_def table_ok_def)
qed

theorem gossip_invariant_witness: "distinct (gs_known_peers started_state)"
proof -
  obtain sent where "gossip_start example_ext (\<lambda>b a. True) gossip_example_node example_start = Inr (started_state, sent)"
    using example_started by blast
  then have "gossip_reachable example_ext gossip_example_node started_state" by (rule gossip_reachable.started)
  then show ?thesis using gossip_invariant by blast
qed

text \<open>C22. The start comes to an end by itself: it looks at no more than ten receive attempts for the pong and fifteen
  after the first request (what later attempts would bring does not change its outcome), and a start that succeeds has sent
  at most 27 datagrams.\<close>

theorem start_is_bounded:
  assumes "\<And>i. i < 10 \<Longrightarrow> h i = st_handshake s i" "\<And>i. i < 15 \<Longrightarrow> w i = st_wait s i"
  shows "gossip_start X net node (s\<lparr>st_handshake := h, st_wait := w\<rparr>) = gossip_start X net node s \<and>
    (gossip_start X net node s = Inr (st, sent) \<longrightarrow> length sent \<le> 27)"
proof (rule conjI)
  show "gossip_start X net node (s\<lparr>st_handshake := h, st_wait := w\<rparr>) = gossip_start X net node s"
    using handshake_inputs [of 10 h "st_handshake s" X net node, OF assms(1)]
      initial_wait_inputs [of 15 w "st_wait s" X net node, OF assms(2)]
    by (simp add: gossip_start_def)
  show "gossip_start X net node s = Inr (st, sent) \<longrightarrow> length sent \<le> 27"
    by (fastforce simp: gossip_start_def send_ping_def send_checked_Inr elim!: run_bind_InrE
        dest: handshake_sent initial_wait_sent)
qed

theorem start_is_bounded_witness:
  "gossip_start example_ext (\<lambda>b a. True) gossip_example_node (example_start\<lparr>st_handshake := (\<lambda>i. if i < 10 then ReceiveFailed else TimedOut []),
     st_wait := (\<lambda>i. ReceiveFailed)\<rparr>) = gossip_start example_ext (\<lambda>b a. True) gossip_example_node example_start"
proof -
  have "h i = st_handshake example_start i" if "i < 10" "h = (\<lambda>i. if i < 10 then ReceiveFailed else TimedOut [])" for h and i :: nat
    using that by (simp add: example_start_def)
  moreover have "ReceiveFailed = st_wait example_start i" for i by (simp add: example_start_def)
  ultimately show ?thesis
    using start_is_bounded [of "\<lambda>i. if i < 10 then ReceiveFailed else TimedOut []" example_start "\<lambda>i. ReceiveFailed"]
    by blast
qed

text \<open>A turn never takes the slot back, and moves it only to the highest slot that the pruned table reports.\<close>

theorem slot_only_advances:
  assumes "gossip_step X net node st i = Inr (st', out)" "gossip_ok node st"
  shows "gs_latest_slot st \<le> gs_latest_slot st' \<and> (gs_latest_slot st' \<noteq> gs_latest_slot st \<longrightarrow>
    get_highest_slot (gs_table st') = Some (gs_latest_slot st'))"
proof -
  have "gs_known_peers st \<noteq> []" using assms(2) by (auto simp: gossip_ok_def)
  from gossip_step_cases [OF assms(1) this]
  consider "gs_latest_slot st' = gs_latest_slot st"
    | "gs_latest_slot st' = advance_slot (get_highest_slot (gs_table st')) (gs_latest_slot st)" by blast
  then show ?thesis
  proof cases
    case 1
    then show ?thesis by simp
  next
    case 2
    then show ?thesis using advance_slot_le by (auto simp: advance_slot_def split: option.splits if_splits)
  qed
qed

definition example_fork :: "unit crds_value" where
  "example_fork = unsigned_new_data (RestartHeaviestFork
     \<lparr> rhf_from = replicate 32 5, rhf_wallclock = 1700000000000, rhf_last_slot = 42, rhf_last_slot_hash = replicate 32 0,
       rhf_observed_stake = 0, rhf_shred_version = 7016 \<rparr>)"

definition example_tick :: timer_input where
  "example_tick = \<lparr> tk_pull_now = 20000, tk_pulled_at = 20001, tk_timestamp = 1700000020000, tk_micros = Some 1700000020000000,
     tk_prune_now = 20002, tk_pruned_at = 20003, tk_secs = Some 1700000020 \<rparr>"

definition fork_state :: "unit gossip_state" where
  "fork_state = started_state\<lparr>gs_table := merged new_table example_fork, gs_last_pull := 15000\<rparr>"

lemma fork_state_ok: "gossip_ok gossip_example_node fork_state"
  using table_ok_merged [OF table_ok_new, of example_fork]
  by (simp add: gossip_ok_def fork_state_def started_state_def)

theorem slot_only_advances_witness:
  "\<exists>st' out. gossip_step example_ext (\<lambda>b a. True) gossip_example_node fork_state (TimerTick example_tick) = Inr (st', out) \<and>
    get_highest_slot (gs_table st') = Some (gs_latest_slot st')"
proof -
  let ?st = "fork_state\<lparr>gs_latest_slot := 42, gs_last_prune := 20003, gs_known_peers := [gn_entrypoint gossip_example_node]\<rparr>"
  have "gossip_step example_ext (\<lambda>b a. True) gossip_example_node fork_state (TimerTick example_tick) = Inr (?st, quiet)"
    by (simp add: pull_job_def prune_job_def fork_state_def started_state_def example_tick_def prune_def now_secs_def
        merge_value_def new_table_def example_fork_def unsigned_new_data_def value_wallclock_def value_pubkey_def
        get_highest_slot_def get_contact_infos_def all_contact_infos_def map_filter_def data_slot_def data_gossip_addr_def
        advance_slot_def extend_peers_def quiet_def)
  then show ?thesis using slot_only_advances [OF _ fork_state_ok] by (fastforce simp: fork_state_def started_state_def)
qed

text \<open>Every ping that decodes is answered to its sender, if the network takes the datagram: with a pong that
  answers its token under the node's key, and without a change of the state.\<close>

theorem ping_is_answered:
  assumes "decode_from (gx_codec X) bs = Inr (PingMessage ping)"
    and "cd_ser_protocol (gx_codec X) (PongMessage (new_pong (cx_sha256 (gx_crds X)) ping (gn_keypair node))) = Some reply"
    and "net reply sender" "signs_for (gx_crds X) (gn_keypair node)"
  shows "gossip_step X net node st (PacketIn bs sender clock) = Inr (st, quiet\<lparr>out_sent := [(reply, sender)]\<rparr>) \<and>
    pong_answers (cx_sha256 (gx_crds X)) (cx_verify (gx_crds X)) ping
      (new_pong (cx_sha256 (gx_crds X)) ping (gn_keypair node))"
proof -
  have "send_pong X net (gn_keypair node) ping sender = Inr [(reply, sender)]"
    using assms(2,3) by (simp add: send_pong_Inr)
  then have "packet_step X net node st bs sender clock = Inr (st, quiet\<lparr>out_sent := [(reply, sender)]\<rparr>)"
    using assms(1) by (simp add: packet_step_def)
  moreover have "cx_verify (gx_crds X) (kp_sign (gn_keypair node) m) (kp_pubkey (gn_keypair node)) m" for m
    using assms(4) by (simp add: signs_for_def)
  ultimately show ?thesis by (simp add: new_pong_answers)
qed

theorem ping_is_answered_witness:
  "\<exists>reply. gossip_step (example_ext\<lparr>gx_codec := (gx_codec example_ext)\<lparr>cd_de_protocol :=
      (\<lambda>b. Some (PingMessage \<lparr> gp_from = take 32 (drop 4 b), gp_token = take 32 (drop 36 b), gp_signature = drop 68 b \<rparr>))\<rparr>\<rparr>)
    (\<lambda>b a. True) gossip_example_node started_state (PacketIn (replicate 132 3) SOCKET_ADDR_UNSPECIFIED (\<lambda>k. None)) =
    Inr (started_state, quiet\<lparr>out_sent := [(reply, SOCKET_ADDR_UNSPECIFIED)]\<rparr>)"
  (is "\<exists>reply. gossip_step ?X _ _ _ _ = _")
proof -
  let ?ping = "\<lparr> gp_from = take 32 (drop 4 (replicate 132 3)), gp_token = take 32 (drop 36 (replicate 132 3)),
      gp_signature = drop 68 (replicate 132 3) \<rparr>"
  have "decode_from (gx_codec ?X) (replicate 132 3) = Inr (PingMessage ?ping)" by (simp add: decode_from_def)
  moreover obtain reply where "cd_ser_protocol (gx_codec ?X)
      (PongMessage (new_pong (cx_sha256 (gx_crds ?X)) ?ping (gn_keypair gossip_example_node))) = Some reply"
    by (simp add: example_ext_def)
  moreover have "signs_for (gx_crds ?X) (gn_keypair gossip_example_node)"
    using example_signs by (simp add: example_ext_def gossip_example_node_def)
  ultimately show ?thesis using ping_is_answered [where X = ?X and net = "\<lambda>b a. True"] by blast
qed

text \<open>C34. A packet of 37 bytes stops the node: in any state, a push or a pull response that ends after a compact length
  of at least two makes the turn panic.\<close>

theorem short_packet_stops_node:
  assumes "bincode_layout (gx_codec X)" "length pk = 32" "tag \<in> {1, 2}" "2 \<le> n" "n < 128"
  shows "length (u32_le tag @ pk @ [n]) = 37 \<and>
    gossip_step X net node st (PacketIn (u32_le tag @ pk @ [n]) sender clock) = Inl (Panicked IndexOutOfBounds)"
  using assms by (simp add: packet_step_def short_packet_panics)

theorem short_packet_stops_node_witness:
  "gossip_step (example_ext\<lparr>gx_codec := example_codec\<rparr>) (\<lambda>b a. True) gossip_example_node started_state
     (PacketIn (u32_le 2 @ replicate 32 7 @ [3]) SOCKET_ADDR_UNSPECIFIED (\<lambda>k. None)) = Inl (Panicked IndexOutOfBounds)"
  using short_packet_stops_node [of "example_ext\<lparr>gx_codec := example_codec\<rparr>" "replicate 32 7" 2 3] example_codec_layout
  by simp

text \<open>C16. Every known peer but the entrypoint (which is sent the requests of all partitions in each round) is asked for every
  partition: over as many pull rounds as there are partitions, each of them due and each with as many requests built, with
  packets and other timer turns in between, and also when the round counter wraps, a peer that the network can
  reach is sent the request for each partition in some round.\<close>

theorem peers_asked_for_all:
  assumes turns: "\<And>k. k < 2 ^ b \<Longrightarrow> gossip_step X net node (s k) (TimerTick (t k)) = Inr (s' k, out k)"
    and due: "\<And>k. k < 2 ^ b \<Longrightarrow> 10000 \<le> tk_pull_now (t k) - gs_last_pull (s k)"
    and built: "\<And>k. k < 2 ^ b \<Longrightarrow> own_contact X node (tk_timestamp (t k)) (tk_micros (t k)) = Inr (ci k)"
      "\<And>k. k < 2 ^ b \<Longrightarrow> create_pull_request_messages X (ci k) (gn_keypair node) = Inr (messages k)"
      "\<And>k. k < 2 ^ b \<Longrightarrow> length (messages k) = 2 ^ b"
    and between: "\<And>k. Suc k < 2 ^ b \<Longrightarrow> awaits X node (s' k) (s (Suc k))"
    and peer: "p \<in> set (gs_known_peers (s 0))" "p \<noteq> gn_entrypoint node" "\<And>m. net m p"
    and "b \<le> 63" "i < 2 ^ b"
  shows "\<exists>k < 2 ^ b. (messages k ! i, p) \<in> set (out_sent (out k))"
proof -
  have at: "gs_pull_round (s k) = gs_pull_round (s 0) + word_of_nat k \<and> p \<in> set (gs_known_peers (s k))" if "k < 2 ^ b" for k
    using that
  proof (induction k)
    case 0
    then show ?case using peer(1) by simp
  next
    case (Suc k)
    then have k: "k < 2 ^ b" by simp
    then have IH: "gs_pull_round (s k) = gs_pull_round (s 0) + word_of_nat k" "p \<in> set (gs_known_peers (s k))"
      using Suc.IH by simp_all
    then have "gs_known_peers (s k) \<noteq> []" by auto
    note pulled = due_pull [OF turns [OF k] due [OF k] built(1) [OF k] built(2) [OF k] this]
    then show ?case using awaits_keep [OF between [OF Suc.prems]] IH by auto
  qed
  obtain k where k: "k < 2 ^ b" "(unat (gs_pull_round (s 0)) + k) mod 2 ^ b = i" using residue_hit [OF assms(11)] by blast
  have at_k: "gs_pull_round (s k) = gs_pull_round (s 0) + word_of_nat k" "p \<in> set (gs_known_peers (s k))"
    using at [OF k(1)] by simp_all
  then have "gs_known_peers (s k) \<noteq> []" by auto
  from due_pull [OF turns [OF k(1)] due [OF k(1)] built(1) [OF k(1)] built(2) [OF k(1)] this]
  have sent: "set (out_sent (out k)) = {(m, a). (m, a) \<in> set (pull_datagrams (gn_entrypoint node) (gs_known_peers (s k))
      (gs_pull_round (s k)) (messages k)) \<and> net m a}" by auto
  have "unat (gs_pull_round (s k)) mod length (messages k) = i"
    using at_k(1) unat_round_mod [OF assms(10) k(1)] k(2) built(3) [OF k(1)] by simp
  then have "(messages k ! i, p) \<in> set (pull_datagrams (gn_entrypoint node) (gs_known_peers (s k)) (gs_pull_round (s k)) (messages k))"
    using datagram_of_round [of "messages k" p "gs_known_peers (s k)"] at_k(2) peer(2) built(3) [OF k(1)] by force
  then show ?thesis using sent peer(3) k(1) by blast
qed

definition peer_state :: "nat \<Rightarrow> unit gossip_state" where
  "peer_state k = started_state\<lparr>gs_known_peers := [gn_entrypoint gossip_example_node, SOCKET_ADDR_UNSPECIFIED],
     gs_pull_round := word_of_nat k\<rparr>"

definition pull_tick :: timer_input where
  "pull_tick = \<lparr> tk_pull_now = 10000, tk_pulled_at = 0, tk_timestamp = 1700000020000, tk_micros = Some 1700000020000000,
     tk_prune_now = 0, tk_pruned_at = 0, tk_secs = None \<rparr>"

lemma example_messages:
  "\<exists>ci messages. own_contact example_ext gossip_example_node 1700000020000 (Some 1700000020000000) = Inr ci \<and>
    create_pull_request_messages example_ext ci example_keypair = Inr messages \<and> length messages = 2 ^ 2"
proof -
  obtain ci where ci: "own_contact example_ext gossip_example_node 1700000020000 (Some 1700000020000000) = Inr ci"
    using example_own_contact [of 1700000020000000] by auto
  obtain messages where m: "create_pull_request_messages example_ext ci example_keypair = Inr messages"
    using example_request_total(1) [OF ci] by blast
  then obtain caller c n bits where p: "cd_value_size (gx_codec example_ext) caller = Some c"
      "get_max_bloom_filter_bytes example_ext c = Inr n" "bits = mask_bits_for toy_ops n 0" "unat bits < 63"
      "length messages = 2 ^ unat bits"
    by (elim messages_InrE) (simp add: example_ext_def)
  have "n < 2 ^ 16" "c = 150" using p(1,2) budget_u16 by (auto simp: example_ext_def)
  have "n \<noteq> 0"
  proof
    assume "n = 0"
    then show False using p(3,4) by (simp add: toy_mask_bits)
  qed
  then have "bits = 2" using toy_budget [of n] \<open>n < 2 ^ 16\<close> p(3) by simp
  then show ?thesis using ci m p(5) by auto
qed

theorem peers_asked_for_all_witness:
  "\<exists>k out messages. k < (2::nat) ^ 2 \<and> (messages ! 3, SOCKET_ADDR_UNSPECIFIED) \<in> set (out_sent (out :: unit gossip_output)) \<and>
    gossip_step example_ext (\<lambda>b a. True) gossip_example_node (peer_state k) (TimerTick pull_tick) = Inr (peer_state (Suc k), out)"
proof -
  obtain ci messages where m: "own_contact example_ext gossip_example_node 1700000020000 (Some 1700000020000000) = Inr ci"
      "create_pull_request_messages example_ext ci example_keypair = Inr messages" "length messages = 2 ^ 2"
    using example_messages by blast
  define out :: "nat \<Rightarrow> unit gossip_output" where "out k = quiet\<lparr>out_sent := pull_datagrams (gn_entrypoint gossip_example_node)
    [gn_entrypoint gossip_example_node, SOCKET_ADDR_UNSPECIFIED] (word_of_nat k) messages\<rparr>" for k
  have node: "gn_keypair gossip_example_node = example_keypair" by (simp add: gossip_example_node_def)
  have step: "gossip_step example_ext (\<lambda>b a. True) gossip_example_node (peer_state k) (TimerTick pull_tick) =
      Inr (peer_state (Suc k), out k)" for k
    using m(1,2) by (simp add: pull_job_def prune_job_def peer_state_def started_state_def pull_tick_def out_def node quiet_def
        Let_def add.commute)
  have "\<exists>k < 2 ^ 2. (messages ! 3, SOCKET_ADDR_UNSPECIFIED) \<in> set (out_sent (out k))"
    by (rule peers_asked_for_all [where X = example_ext and net = "\<lambda>b a. True" and node = gossip_example_node and s = peer_state
          and t = "\<lambda>k. pull_tick" and s' = "\<lambda>k. peer_state (Suc k)" and ci = "\<lambda>k. ci"])
       (use m step node in \<open>auto simp: peer_state_def pull_tick_def started_state_def gossip_example_node_def
          SOCKET_ADDR_UNSPECIFIED_def intro: awaits.intros\<close>)
  then show ?thesis using step by blast
qed

lemma read_instance_value_wt: "read_instance_value bs = Some v \<Longrightarrow> value_wt v"
  by (auto simp: read_instance_value_def read_instance_def value_wt_def value_pubkey_def split: if_splits)

lemma example_codec_wt: "codec_wt (gx_codec example_ext)"
proof -
  have all: "list_all value_wt vs" if "opt_map (\<lambda>i. read_instance_value (f i)) ns = Some vs" for f and ns :: "nat list" and vs :: "unit crds_value list"
    using opt_map_SomeD [OF that] by (auto simp: list_all_iff in_set_conv_nth dest!: read_instance_value_wt list_eq_iff_nth_eq [THEN iffD1])
  have "list_all value_wt (message_values msg)" if "cd_de_protocol example_codec bs = Some msg" for bs msg
    using that all by (auto simp: example_codec_def Let_def message_values_def split: if_splits)
  then show ?thesis using read_instance_value_wt by (auto simp: codec_wt_def example_ext_def example_codec_def)
qed

text \<open>The start is ended by a packet: an undecodable one during the handshake makes the node give up with the decoding
  error, and one of fewer than four bytes after the first request makes it panic.\<close>

theorem start_ended_by_packet:
  assumes "st_handshake s 0 = Received bs sender" "decode_from (gx_codec X) bs = Inl (Failed e)"
    and "net ping (gn_entrypoint node)" "encode_to (gx_codec X) (PingMessage (new_ping (st_ping_token s) (gn_keypair node))) = Inr ping"
    and "length short < 4"
  shows "gossip_start X net node s = Inl (Failed e) \<and>
    initial_wait X net node (Suc n) (\<lambda>i. Received short sender) = Inl (Panicked IndexOutOfBounds)"
  using assms by (simp add: gossip_start_def send_ping_def send_checked_def handshake_attempt_def wait_attempt_def
      numeral_eq_Suc)

theorem start_ended_by_packet_witness:
  "gossip_start (example_ext\<lparr>gx_codec := (gx_codec example_ext)\<lparr>cd_read_tag := (\<lambda>b. None)\<rparr>\<rparr>) (\<lambda>b a. True) gossip_example_node
     (example_start\<lparr>st_handshake := (\<lambda>i. Received [1, 2, 3] SOCKET_ADDR_UNSPECIFIED)\<rparr>) = Inl (Failed DecodeError)"
proof -
  let ?X = "example_ext\<lparr>gx_codec := (gx_codec example_ext)\<lparr>cd_read_tag := (\<lambda>b. None)\<rparr>\<rparr>"
  have "decode_from (gx_codec ?X) [1, 2, 3] = Inl (Failed DecodeError)"
    by (simp add: decode_from_def decode_slow_def example_ext_def example_codec_def Let_def)
  moreover obtain ping where "encode_to (gx_codec ?X) (PingMessage (new_ping (replicate 32 1) example_keypair)) = Inr ping"
    by (simp add: encode_to_def example_ext_def)
  ultimately show ?thesis
    using start_ended_by_packet [of "example_start\<lparr>st_handshake := (\<lambda>i. Received [1, 2, 3] SOCKET_ADDR_UNSPECIFIED)\<rparr>"
        "[1, 2, 3]" SOCKET_ADDR_UNSPECIFIED ?X DecodeError "\<lambda>b a. True" ping gossip_example_node "[1]" 0]
    by (simp add: example_start_def gossip_example_node_def)
qed

end
