(* ===== verification/System.thy ===== *)
theory System
  imports Pipeline GossipLoop "HOL-Library.Sublist"
begin

text \<open>
  The node as the two crates make it (\<^verbatim>\<open>dc-tvu/src/main.rs\<close>): the gossip loop is a task that sends the contacts
  of a prune through a channel of 1000 places, one by one, and goes on when all of them are in; the client takes
  them out and keeps their repair addresses. Both write the latest slot, which is the client's here; the gossip
  task reads and writes it within a turn (\<open>SlotCell\<close> has the interleavings inside a turn). A gossip task that
  fails or panics has ended, and the client goes on; a panic of the client stops the node.
\<close>

section \<open>The code\<close>

definition CHANNEL_CAPACITY :: nat where "CHANNEL_CAPACITY = 1000"

record ('e, 'b, 'f, 'v, 'tx) system_env =
  se_gossip :: "('e, 'b, 'f) gossip_ext"
  se_identity :: gossip_node
  se_externals :: "('v, 'tx) externals"
  se_de_data :: "bytes \<Rightarrow> data_shred_header option"
  se_de_coding :: "bytes \<Rightarrow> coding_shred_header option"
  se_our_key :: signing_key

datatype 'e gossip_task = Starting | Running "'e gossip_state" | Ended

record 'e system =
  sy_gossip :: "'e gossip_task"
  sy_unsent :: "'e contact_info list"
  sy_channel :: "'e contact_info list"
  sy_client :: "socket_addr client"

text \<open>The arm of the channel: a contact with a socket of key 4 gives its address to the client.\<close>

definition contact_event :: "'e contact_info \<Rightarrow> socket_addr event" where
  "contact_event ci = Contact (ci_pubkey ci) (socket_by_key ci 4)"

datatype system_input =
    GossipStart "bytes \<Rightarrow> socket_addr \<Rightarrow> bool" start_input
  | GossipTurn "bytes \<Rightarrow> socket_addr \<Rightarrow> bool" gossip_input
  | SendContact
  | ReceiveContact
  | ClientTimer nat "bytes \<Rightarrow> nat \<Rightarrow> nat option \<times> u32"
  | ClientPacket bytes socket_addr io
  | PollerSlot u64

definition client_turn :: "('e, 'b, 'f, 'v, 'tx) system_env \<Rightarrow> 'e system \<Rightarrow> socket_addr event \<Rightarrow>
    panic + 'e system \<times> (bytes \<times> socket_addr) list" where
  "client_turn E s e =
     run_bind (client_step (se_externals E) (se_de_data E) (se_de_coding E) (se_our_key E) (sy_client s) e)
       (\<lambda>(c, sent). Inr (s\<lparr>sy_client := c\<rparr>, sent))"

text \<open>The gossip task: what it sends is not the client's.\<close>

definition start_task :: "('e, 'b, 'f, 'v, 'tx) system_env \<Rightarrow> (bytes \<Rightarrow> socket_addr \<Rightarrow> bool) \<Rightarrow> start_input \<Rightarrow> 'e system \<Rightarrow> 'e system" where
  "start_task E net st s =
     (case sy_gossip s of
        Starting \<Rightarrow>
          (case gossip_start (se_gossip E) net (se_identity E) (st\<lparr>st_latest_slot := cl_latest_slot (sy_client s)\<rparr>) of
             Inl f \<Rightarrow> s\<lparr>sy_gossip := Ended\<rparr>
           | Inr (g, sent) \<Rightarrow> s\<lparr>sy_gossip := Running g\<rparr>)
      | _ \<Rightarrow> s)"

definition turn_task :: "('e, 'b, 'f, 'v, 'tx) system_env \<Rightarrow> (bytes \<Rightarrow> socket_addr \<Rightarrow> bool) \<Rightarrow> gossip_input \<Rightarrow> 'e system \<Rightarrow> 'e system" where
  "turn_task E net i s =
     (case sy_gossip s of
        Running g \<Rightarrow>
          if sy_unsent s \<noteq> [] then s
          else (case gossip_step (se_gossip E) net (se_identity E) (g\<lparr>gs_latest_slot := cl_latest_slot (sy_client s)\<rparr>) i of
                  Inl f \<Rightarrow> s\<lparr>sy_gossip := Ended\<rparr>
                | Inr (g', out) \<Rightarrow>
                    s\<lparr>sy_gossip := Running g', sy_unsent := out_contacts out,
                      sy_client := (sy_client s)\<lparr>cl_latest_slot := gs_latest_slot g'\<rparr>\<rparr>)
      | _ \<Rightarrow> s)"

fun system_step :: "('e, 'b, 'f, 'v, 'tx) system_env \<Rightarrow> 'e system \<Rightarrow> system_input \<Rightarrow>
    panic + 'e system \<times> (bytes \<times> socket_addr) list" where
  "system_step E s (GossipStart net st) = Inr (start_task E net st s, [])"
| "system_step E s (GossipTurn net i) = Inr (turn_task E net i s, [])"
| "system_step E s SendContact =
     Inr (case sy_unsent s of
            [] \<Rightarrow> s
          | ci # cs \<Rightarrow> if length (sy_channel s) < CHANNEL_CAPACITY
                      then s\<lparr>sy_unsent := cs, sy_channel := sy_channel s @ [ci]\<rparr> else s, [])"
| "system_step E s ReceiveContact =
     (case sy_channel s of
        [] \<Rightarrow> Inr (s, [])
      | ci # cs \<Rightarrow> client_turn E (s\<lparr>sy_channel := cs\<rparr>) (contact_event ci))"
| "system_step E s (ClientTimer now env) = client_turn E s (Timer now env)"
| "system_step E s (ClientPacket packet peer io) = client_turn E s (Packet packet peer io)"
| "system_step E s (PollerSlot slot) = client_turn E s (SlotRpc slot)"

definition new_system :: "flat_file_store \<Rightarrow> file_system \<Rightarrow> 'e system" where
  "new_system store fs =
     \<lparr> sy_gossip = Starting, sy_unsent = [], sy_channel = [], sy_client = new_client (new_node store fs) \<rparr>"

section \<open>Runs\<close>

fun input_near :: "('e, 'b, 'f, 'v, 'tx) system_env \<Rightarrow> system_input \<Rightarrow> bool" where
  "input_near E (ClientPacket packet peer io) = event_near (se_de_data E) (se_de_coding E) (Packet packet peer io)"
| "input_near E i = True"

inductive system_reachable :: "('e, 'b, 'f, 'v, 'tx) system_env \<Rightarrow> 'e system \<Rightarrow> bool" for E where
  system_new: "store_ok store \<Longrightarrow> system_reachable E (new_system store fs)"
| system_turn: "system_reachable E s \<Longrightarrow> input_near E i \<Longrightarrow> system_step E s i = Inr (s', sent) \<Longrightarrow> system_reachable E s'"

fun system_run :: "('e, 'b, 'f, 'v, 'tx) system_env \<Rightarrow> 'e system \<Rightarrow> system_input list \<Rightarrow>
    panic + 'e system \<times> (bytes \<times> socket_addr) list" where
  "system_run E s [] = Inr (s, [])"
| "system_run E s (i # is) =
     run_bind (system_step E s i) (\<lambda>(s1, sent1).
       run_bind (system_run E s1 is) (\<lambda>(s2, sent2). Inr (s2, sent1 @ sent2)))"

section \<open>Where the contacts come from\<close>

text \<open>
  \<open>P\<close> holds of every contact info in the table, on its way to the client, and behind an entry of the client's
  validators; and the gossip state is as \<open>gossip_ok\<close> says.
\<close>

definition table_from :: "('e contact_info \<Rightarrow> bool) \<Rightarrow> 'e crds_table \<Rightarrow> bool" where
  "table_from P t \<longleftrightarrow> (\<forall>(k, v) \<in> set (ct_entries t). \<forall>ci. cv_data v = ContactInfo ci \<longrightarrow> P ci)"

definition contacts_from :: "('e, 'b, 'f, 'v, 'tx) system_env \<Rightarrow> ('e contact_info \<Rightarrow> bool) \<Rightarrow> 'e system \<Rightarrow> bool" where
  "contacts_from E P s \<longleftrightarrow>
     (\<forall>g. sy_gossip s = Running g \<longrightarrow> gossip_ok (se_identity E) g \<and> table_from P (gs_table g)) \<and>
     (\<forall>ci \<in> set (sy_unsent s) \<union> set (sy_channel s). P ci) \<and>
     (\<forall>(pk, addr) \<in> set (cl_validators (sy_client s)). \<exists>ci. P ci \<and> ci_pubkey ci = pk \<and> socket_by_key ci 4 = Some addr)"

text \<open>The contact infos that an input brings: those of the values of a packet that decodes to a push or a pull response.\<close>

definition brings :: "('e, 'b, 'f, 'v, 'tx) system_env \<Rightarrow> system_input \<Rightarrow> 'e contact_info \<Rightarrow> bool" where
  "brings E i ci \<longleftrightarrow> (\<exists>net bs sender clock msg v. i = GossipTurn net (PacketIn bs sender clock) \<and>
     decode_from (gx_codec (se_gossip E)) bs = Inr msg \<and> v \<in> set (message_values msg) \<and> cv_data v = ContactInfo ci)"

lemma table_from_merge_all:
  "table_from P t \<Longrightarrow> (\<And>v ci. v \<in> set vs \<Longrightarrow> cv_data v = ContactInfo ci \<Longrightarrow> P ci) \<Longrightarrow> table_from P (merge_all t vs)"
proof (induction vs arbitrary: t)
  case (Cons v vs)
  have "table_from P (merged t v)"
    using Cons.prems entries_merged [of t v] unfolding table_from_def by fastforce
  moreover have "P ci" if "w \<in> set vs" "cv_data w = ContactInfo ci" for w ci
    using Cons.prems(2) [of w ci] that by simp
  ultimately show ?case using Cons.IH by simp
qed simp

lemma table_from_prune: "table_from P t \<Longrightarrow> prune clock t = Inr t' \<Longrightarrow> table_from P t'"
  unfolding table_from_def using entries_prune by fast

lemma table_from_contacts: "table_from P t \<Longrightarrow> ci \<in> set (map snd (all_contact_infos t)) \<Longrightarrow> P ci"
  unfolding table_from_def by (force simp: all_contact_infos_iff)

lemma gossip_step_from:
  assumes "gossip_step X net node g i = Inr (g', out)" "table_from P (gs_table g)"
    and "\<And>bs sender clock msg v ci. i = PacketIn bs sender clock \<Longrightarrow> decode_from (gx_codec X) bs = Inr msg \<Longrightarrow>
      v \<in> set (message_values msg) \<Longrightarrow> cv_data v = ContactInfo ci \<Longrightarrow> P ci"
  shows "table_from P (gs_table g') \<and> (\<forall>ci \<in> set (out_contacts out). P ci)"
proof (cases i)
  case (PacketIn bs sender clock)
  then have "packet_step X net node g bs sender clock = Inr (g', out)" using assms(1) by simp
  from packet_step_Inr [OF this] obtain vs where vs: "gs_table g' = merge_all (gs_table g) vs" "out_contacts out = []"
    "vs \<noteq> [] \<longrightarrow> (\<exists>from_key. decode_from (gx_codec X) bs \<in> {Inr (PushMessage from_key vs), Inr (PullResponse from_key vs)})"
    by blast
  have "P ci" if "v \<in> set vs" "cv_data v = ContactInfo ci" for v ci
  proof -
    have "vs \<noteq> []" using that by auto
    then obtain msg where "decode_from (gx_codec X) bs = Inr msg" "message_values msg = vs"
      using vs(3) by (auto simp: message_values_def)
    then show ?thesis using assms(3) [OF PacketIn] that by blast
  qed
  then show ?thesis using table_from_merge_all [OF assms(2)] vs(1,2) by simp
next
  case ReceiveError
  then show ?thesis using assms(1,2) by (auto simp: quiet_def)
next
  case (TimerTick k)
  then obtain g1 where j: "pull_job X net node k g = Inr (g1, out_sent out)" "prune_job k g1 = Inr (g', out_contacts out)"
    using tick_Inr assms(1) by blast
  have "table_from P (gs_table g1)" using pull_job_Inr [OF j(1)] assms(2) by simp
  moreover from this have "table_from P (gs_table g')" if "prune clock (gs_table g1) = Inr (gs_table g')" for clock
    using table_from_prune that by blast
  ultimately show ?thesis
    using prune_job_Inr [OF j(2)] table_from_contacts [of P "gs_table g'"] by (elim disjE exE conjE) simp_all
qed

lemma gossip_ok_slot [simp]: "gossip_ok node (g\<lparr>gs_latest_slot := v\<rparr>) = gossip_ok node g"
  by (simp add: gossip_ok_def)

lemma contacts_from_task:
  assumes "contacts_from E P s" "\<And>ci. brings E (GossipTurn net i) ci \<Longrightarrow> P ci"
  shows "contacts_from E P (turn_task E net i s)"
proof (cases "\<exists>g g' out. sy_gossip s = Running g \<and> sy_unsent s = [] \<and>
    gossip_step (se_gossip E) net (se_identity E) (g\<lparr>gs_latest_slot := cl_latest_slot (sy_client s)\<rparr>) i = Inr (g', out)")
  case False
  then have "turn_task E net i s \<in> {s, s\<lparr>sy_gossip := Ended\<rparr>}"
    by (auto simp: turn_task_def split: gossip_task.split sum.split)
  then show ?thesis using assms(1) by (auto simp: contacts_from_def)
next
  case True
  then obtain g g' out where g: "sy_gossip s = Running g" "sy_unsent s = []"
    "gossip_step (se_gossip E) net (se_identity E) (g\<lparr>gs_latest_slot := cl_latest_slot (sy_client s)\<rparr>) i = Inr (g', out)"
    by blast
  have ok: "gossip_ok (se_identity E) g" "table_from P (gs_table g)" using assms(1) g(1) by (auto simp: contacts_from_def)
  have "table_from P (gs_table g') \<and> (\<forall>ci \<in> set (out_contacts out). P ci)"
    using gossip_step_from [OF g(3), of P] ok(2) assms(2) unfolding brings_def by fastforce
  moreover have "gossip_ok (se_identity E) g'" using gossip_ok_step [OF _ g(3)] ok(1) by simp
  ultimately show ?thesis using assms(1) g by (auto simp: turn_task_def contacts_from_def)
qed

lemma contacts_from_start: "contacts_from E P s \<Longrightarrow> contacts_from E P (start_task E net st s)"
proof -
  assume s: "contacts_from E P s"
  have "gossip_ok (se_identity E) g \<and> table_from P (gs_table g)"
    if "gossip_start (se_gossip E) net (se_identity E) t = Inr (g, sent)" for g t sent
    using gossip_ok_start [OF that] gossip_start_Inr [OF that] by (simp add: table_from_def new_table_def)
  then show ?thesis using s
    by (auto simp: start_task_def contacts_from_def split: gossip_task.split sum.split)
qed

lemma contacts_from_client:
  assumes "contacts_from E P s" "client_turn E s e = Inr (s', sent)"
    and "\<And>pk addr. e = Contact pk (Some addr) \<Longrightarrow> \<exists>ci. P ci \<and> ci_pubkey ci = pk \<and> socket_by_key ci 4 = Some addr"
  shows "contacts_from E P s'"
proof -
  obtain c where c: "client_step (se_externals E) (se_de_data E) (se_de_coding E) (se_our_key E) (sy_client s) e = Inr (c, sent)"
    "s' = s\<lparr>sy_client := c\<rparr>"
    using assms(2) by (auto simp: client_turn_def elim!: run_bind_InrE)
  have "set (cl_validators c) \<subseteq> set (cl_validators (sy_client s)) \<union> {(pk, addr). e = Contact pk (Some addr)}"
    using c(1) set_hash_insert by (cases e) (fastforce elim!: run_bind_InrE split: option.splits if_splits)+
  then show ?thesis using assms(1,3) unfolding contacts_from_def c(2) by fastforce
qed

lemma contacts_from_step:
  assumes "contacts_from E P s" "system_step E s i = Inr (s', sent)" "\<And>ci. brings E i ci \<Longrightarrow> P ci"
  shows "contacts_from E P s'"
proof (cases i)
  case (GossipStart net st)
  then show ?thesis using assms(1,2) contacts_from_start by auto
next
  case (GossipTurn net j)
  then show ?thesis using assms contacts_from_task [OF assms(1), of net j] by simp
next
  case SendContact
  then show ?thesis using assms(1,2) by (auto simp: contacts_from_def split: list.splits if_splits)
next
  case ReceiveContact
  show ?thesis
  proof (cases "sy_channel s")
    case Nil
    then show ?thesis using assms(1,2) ReceiveContact by simp
  next
    case (Cons ci cs)
    then have "contacts_from E P (s\<lparr>sy_channel := cs\<rparr>)" "P ci" using assms(1) by (auto simp: contacts_from_def)
    then show ?thesis using assms(2) ReceiveContact Cons contacts_from_client [of E P "s\<lparr>sy_channel := cs\<rparr>" "contact_event ci" s' sent]
      by (auto simp: contact_event_def)
  qed
qed (use assms contacts_from_client in fastforce)+

lemma contacts_from_new: "contacts_from E P (new_system store fs)"
  by (simp add: contacts_from_def new_system_def new_client_def)

lemma contacts_from_run:
  "contacts_from E P s \<Longrightarrow> system_run E s is = Inr (s', sent) \<Longrightarrow> (\<And>i ci. i \<in> set is \<Longrightarrow> brings E i ci \<Longrightarrow> P ci) \<Longrightarrow>
   contacts_from E P s'"
proof (induction "is" arbitrary: s sent)
  case (Cons i "is")
  then obtain s1 sent1 sent2 where "system_step E s i = Inr (s1, sent1)" "system_run E s1 is = Inr (s', sent2)"
    by (auto elim!: run_bind_InrE)
  then show ?case using Cons contacts_from_step by (metis list.set_intros)
qed simp

section \<open>The client's part is a run of the client\<close>

lemma start_task_client [simp]: "sy_client (start_task E net st s) = sy_client s"
  by (simp add: start_task_def split: gossip_task.split sum.split prod.split)

text \<open>A turn of the gossip task moves the slot as the slot poller would.\<close>

lemma turn_task_client:
  assumes "contacts_from E P s"
  shows "\<exists>slot. client_step X de_data de_coding our_key (sy_client s) (SlotRpc slot) = Inr (sy_client (turn_task E net i s), [])"
proof -
  have same: ?thesis if "sy_client (turn_task E net i s) = sy_client s"
    using that by (intro exI [of _ 0]) simp
  show ?thesis
  proof (cases "\<exists>g g' out. sy_gossip s = Running g \<and> sy_unsent s = [] \<and>
      gossip_step (se_gossip E) net (se_identity E) (g\<lparr>gs_latest_slot := cl_latest_slot (sy_client s)\<rparr>) i = Inr (g', out)")
    case False
    then have "sy_client (turn_task E net i s) = sy_client s"
      by (auto simp: turn_task_def split: gossip_task.split sum.split)
    then show ?thesis by (rule same)
  next
    case True
    then obtain g g' out where g: "sy_gossip s = Running g" "sy_unsent s = []"
      "gossip_step (se_gossip E) net (se_identity E) (g\<lparr>gs_latest_slot := cl_latest_slot (sy_client s)\<rparr>) i = Inr (g', out)"
      by blast
    then have c: "sy_client (turn_task E net i s) = (sy_client s)\<lparr>cl_latest_slot := gs_latest_slot g'\<rparr>"
      by (simp add: turn_task_def)
    have "gossip_ok (se_identity E) g" using assms g(1) by (simp add: contacts_from_def)
    then have "gs_known_peers (g\<lparr>gs_latest_slot := cl_latest_slot (sy_client s)\<rparr>) \<noteq> []" by (auto simp: gossip_ok_def)
    from gossip_step_cases [OF g(3) this]
    have "gs_latest_slot g' = cl_latest_slot (sy_client s) \<or>
        (\<exists>h. gs_latest_slot g' = advance_slot h (cl_latest_slot (sy_client s)))" by auto
    then have "cl_latest_slot (sy_client s) \<le> gs_latest_slot g'" using advance_slot_le by auto
    then show ?thesis unfolding c
      by (intro exI [of _ "gs_latest_slot g'"]) (auto simp: not_less dest: antisym)
  qed
qed

lemma client_turn_reachable:
  assumes "reachable (se_externals E) (se_de_data E) (se_de_coding E) (se_our_key E) (sy_client s)"
    and "event_near (se_de_data E) (se_de_coding E) e" "client_turn E s e = Inr (s', sent)"
  shows "reachable (se_externals E) (se_de_data E) (se_de_coding E) (se_our_key E) (sy_client s')"
  using assms by (auto simp: client_turn_def elim!: run_bind_InrE intro: reachable.turn)

lemma client_of_step:
  assumes "reachable (se_externals E) (se_de_data E) (se_de_coding E) (se_our_key E) (sy_client s)"
    and "contacts_from E P s" "input_near E i" "system_step E s i = Inr (s', sent)"
  shows "reachable (se_externals E) (se_de_data E) (se_de_coding E) (se_our_key E) (sy_client s')"
proof (cases i)
  case (GossipTurn net j)
  obtain slot where slot: "client_step (se_externals E) (se_de_data E) (se_de_coding E) (se_our_key E) (sy_client s) (SlotRpc slot) =
      Inr (sy_client (turn_task E net j s), [])"
    using turn_task_client [OF assms(2)] by blast
  have "reachable (se_externals E) (se_de_data E) (se_de_coding E) (se_our_key E) (sy_client (turn_task E net j s))"
    by (rule reachable.turn [OF assms(1) _ slot]) simp
  then show ?thesis using assms(4) GossipTurn by auto
next
  case ReceiveContact
  show ?thesis
  proof (cases "sy_channel s")
    case Nil
    then show ?thesis using assms(1,4) ReceiveContact by simp
  next
    case (Cons ci cs)
    then show ?thesis
      using assms(1,4) ReceiveContact client_turn_reachable [of E "s\<lparr>sy_channel := cs\<rparr>" "contact_event ci" s' sent]
      by (simp add: contact_event_def)
  qed
next
  case (ClientTimer now env)
  then show ?thesis using client_turn_reachable [OF assms(1), of "Timer now env"] assms(4) by simp
next
  case (ClientPacket packet peer io)
  then show ?thesis using client_turn_reachable [OF assms(1), of "Packet packet peer io"] assms(3,4) by simp
next
  case (PollerSlot slot)
  then show ?thesis using client_turn_reachable [OF assms(1), of "SlotRpc slot"] assms(4) by simp
qed (use assms(1,4) in \<open>auto split: list.splits if_splits\<close>)

lemma reachable_from: "system_reachable E s \<Longrightarrow> contacts_from E (\<lambda>ci. True) s"
  by (induction rule: system_reachable.induct) (auto intro: contacts_from_new contacts_from_step)

section \<open>From a prune to the requests\<close>

definition keep_contact :: "(bytes \<times> socket_addr) list \<Rightarrow> 'e contact_info \<Rightarrow> (bytes \<times> socket_addr) list" where
  "keep_contact m ci = (case socket_by_key ci 4 of None \<Rightarrow> m | Some addr \<Rightarrow> hash_insert (ci_pubkey ci) addr m)"

lemma keep_contact_look:
  "map_of (keep_contact m ci) pk =
    (if pk = ci_pubkey ci \<and> socket_by_key ci 4 \<noteq> None then socket_by_key ci 4 else map_of m pk)"
  by (auto simp: keep_contact_def map_of_hash_insert split: option.split)

lemma keep_contacts_other: "pk \<notin> ci_pubkey ` set cs \<Longrightarrow> map_of (foldl keep_contact m cs) pk = map_of m pk"
  by (induction cs arbitrary: m) (simp_all add: keep_contact_look)

lemma keep_contacts_look:
  "distinct (map ci_pubkey cs) \<Longrightarrow> ci \<in> set cs \<Longrightarrow> socket_by_key ci 4 = Some addr \<Longrightarrow>
   map_of (foldl keep_contact m cs) (ci_pubkey ci) = Some addr"
  by (induction cs arbitrary: m) (auto simp: keep_contacts_other keep_contact_look)

text \<open>Every contact on its way is sent and received.\<close>

definition deliveries :: "nat \<Rightarrow> system_input list" where
  "deliveries n = concat (replicate n [SendContact, ReceiveContact])"

lemma deliveries_run:
  "sy_channel s = [] \<Longrightarrow> system_run E s (deliveries (length (sy_unsent s))) =
     Inr (s\<lparr>sy_unsent := [], sy_client :=
       (sy_client s)\<lparr>cl_validators := foldl keep_contact (cl_validators (sy_client s)) (sy_unsent s)\<rparr>\<rparr>, [])"
proof (induction "sy_unsent s" arbitrary: s)
  case Nil
  then show ?case by (simp add: deliveries_def)
next
  case (Cons ci cs)
  let ?s1 = "s\<lparr>sy_unsent := cs, sy_client := (sy_client s)\<lparr>cl_validators := keep_contact (cl_validators (sy_client s)) ci\<rparr>\<rparr>"
  have "system_step E s SendContact = Inr (s\<lparr>sy_unsent := cs, sy_channel := [ci]\<rparr>, [])"
    using Cons.prems Cons.hyps(2) [symmetric] by (simp add: CHANNEL_CAPACITY_def)
  moreover have "system_step E (s\<lparr>sy_unsent := cs, sy_channel := [ci]\<rparr>) ReceiveContact = Inr (?s1, [])"
    using Cons.prems by (auto simp: client_turn_def contact_event_def keep_contact_def split: option.split)
  moreover have "deliveries (length (sy_unsent s)) = SendContact # ReceiveContact # deliveries (length cs)"
    by (simp add: deliveries_def Cons.hyps(2) [symmetric])
  moreover have "system_run E ?s1 (deliveries (length cs)) = Inr (?s1\<lparr>sy_unsent := [], sy_client :=
       (sy_client ?s1)\<lparr>cl_validators := foldl keep_contact (cl_validators (sy_client ?s1)) cs\<rparr>\<rparr>, [])"
    using Cons.hyps(1) [of ?s1] Cons.prems by simp
  ultimately show ?case by (simp add: Cons.hyps(2) [symmetric])
qed

lemma contact_keys:
  "\<forall>(k, v) \<in> set es. value_pubkey v = k \<Longrightarrow>
   map ci_pubkey (map snd (List.map_filter (\<lambda>(pk, v). case cv_data v of ContactInfo ci \<Rightarrow> Some (pk, ci) | _ \<Rightarrow> None) es)) =
   map fst (filter (\<lambda>(k, v). \<exists>ci. cv_data v = ContactInfo ci) es)"
  by (induction es) (auto simp: map_filter_simps value_pubkey_def split: crds_data.splits)

lemma contact_keys_distinct: "table_ok t \<Longrightarrow> distinct (map ci_pubkey (map snd (all_contact_infos t)))"
  unfolding all_contact_infos_def by (subst contact_keys) (simp_all add: table_ok_def distinct_map_filter)

lemma kept_contact_asked:
  assumes "table_ok t" "\<forall>pk idx. fst (env pk idx) \<noteq> None"
    and "(pk, v) \<in> set (ct_entries t)" "cv_data v = ContactInfo ci" "socket_by_key ci 4 = Some addr" "idx < 64"
  shows "(repair_request our_key pk (the (fst (env pk idx))) (snd (env pk idx)) slot (word_of_nat idx), addr)
    \<in> set (repair_poll our_key env slot (foldl keep_contact validators (map snd (all_contact_infos t))))"
proof -
  let ?cs = "map snd (all_contact_infos t)"
  have "(pk, ci) \<in> set (all_contact_infos t)" using assms(3,4) by (auto simp: all_contact_infos_iff)
  then have "ci \<in> set ?cs" by force
  moreover have "ci_pubkey ci = pk" using assms(1,3,4) by (auto simp: table_ok_def value_pubkey_def)
  ultimately have "map_of (foldl keep_contact validators ?cs) pk = Some addr"
    using keep_contacts_look [OF contact_keys_distinct [OF assms(1)] _ assms(5)] by blast
  then have "(pk, addr) \<in> set (foldl keep_contact validators ?cs)" by (rule map_of_SomeD)
  then show ?thesis unfolding repair_poll_eq [OF assms(2)] using assms(6) by (fastforce simp del: upt_conv_Cons)
qed

lemma system_run_append:
  "system_run E s (is @ js) = run_bind (system_run E s is) (\<lambda>(s1, sent1).
     run_bind (system_run E s1 js) (\<lambda>(s2, sent2). Inr (s2, sent1 @ sent2)))"
  by (induction "is" arbitrary: s) (auto simp: run_bind_def split: sum.splits)

lemma polled_request:
  assumes "(m, addr) \<in> set (repair_poll our_key env slot validators)"
  shows "\<exists>pk idx millis nonce. (pk, addr) \<in> set validators \<and> idx < 64 \<and>
    m = repair_request our_key pk millis nonce slot (word_of_nat idx)"
  using assms by (fastforce simp: repair_poll_def send_repair_request_def NUM_DATA_SHREDS_def NUM_CODE_SHREDS_def split: option.splits)

section \<open>Through the channel in any interleaving\<close>

text \<open>A schedule may do anything but prune once more: a timer turn of the gossip loop comes before 15000 milliseconds have
  passed since the time \<open>t\<close> of the last prune.\<close>

fun no_prune :: "nat \<Rightarrow> system_input \<Rightarrow> bool" where
  "no_prune t (GossipTurn net (TimerTick k)) \<longleftrightarrow> tk_prune_now k - t < 15000"
| "no_prune t i \<longleftrightarrow> True"

definition pruned_at :: "nat \<Rightarrow> 'e system \<Rightarrow> bool" where
  "pruned_at t s \<longleftrightarrow> (case sy_gossip s of Starting \<Rightarrow> False | Running g \<Rightarrow> gs_last_prune g = t | Ended \<Rightarrow> True)"

text \<open>The validators that the client has once all contacts on their way have arrived.\<close>

definition announced :: "'e system \<Rightarrow> (bytes \<times> socket_addr) list" where
  "announced s = foldl keep_contact (cl_validators (sy_client s)) (sy_channel s @ sy_unsent s)"

definition on_way :: "'e system \<Rightarrow> nat" where
  "on_way s = length (sy_channel s) + length (sy_unsent s)"

lemma packet_step_last_prune: "packet_step X net node st bs sender clock = Inr (st', out) \<Longrightarrow> gs_last_prune st' = gs_last_prune st"
  by (auto simp: packet_step_def elim!: run_bind_InrE split: sum.splits failure.splits protocol.splits)

lemma no_prune_turn:
  assumes "gossip_step X net node g i = Inr (g', out)" "no_prune (gs_last_prune g) (GossipTurn net i)"
  shows "gs_last_prune g' = gs_last_prune g \<and> out_contacts out = []"
proof (cases i)
  case (PacketIn bs sender clock)
  then have "packet_step X net node g bs sender clock = Inr (g', out)" using assms(1) by simp
  then show ?thesis using packet_step_Inr packet_step_last_prune by blast
next
  case ReceiveError
  then show ?thesis using assms(1) by (auto simp: quiet_def)
next
  case (TimerTick k)
  then obtain g1 where j: "pull_job X net node k g = Inr (g1, out_sent out)" "prune_job k g1 = Inr (g', out_contacts out)"
    using tick_Inr assms(1) by blast
  moreover have "gs_last_prune g1 = gs_last_prune g" using pull_job_Inr [OF j(1)] by simp
  ultimately show ?thesis using assms(2) TimerTick by (auto simp: prune_job_def)
qed

lemma quiet_task:
  assumes "pruned_at t s" "no_prune t (GossipTurn net i)"
  shows "pruned_at t (turn_task E net i s) \<and> sy_channel (turn_task E net i s) = sy_channel s \<and>
    sy_unsent (turn_task E net i s) = sy_unsent s \<and>
    cl_validators (sy_client (turn_task E net i s)) = cl_validators (sy_client s)"
proof (cases "\<exists>g g' out. sy_gossip s = Running g \<and> sy_unsent s = [] \<and>
    gossip_step (se_gossip E) net (se_identity E) (g\<lparr>gs_latest_slot := cl_latest_slot (sy_client s)\<rparr>) i = Inr (g', out)")
  case False
  then have "turn_task E net i s \<in> {s, s\<lparr>sy_gossip := Ended\<rparr>}"
    by (auto simp: turn_task_def split: gossip_task.split sum.split)
  then show ?thesis using assms(1) by (auto simp: pruned_at_def)
next
  case True
  then obtain g g' out where g: "sy_gossip s = Running g" "sy_unsent s = []"
    "gossip_step (se_gossip E) net (se_identity E) (g\<lparr>gs_latest_slot := cl_latest_slot (sy_client s)\<rparr>) i = Inr (g', out)"
    by blast
  have "gs_last_prune g = t" using assms(1) g(1) by (simp add: pruned_at_def)
  then have "gs_last_prune g' = t \<and> out_contacts out = []"
    using no_prune_turn [OF g(3)] assms(2) by simp
  then show ?thesis using g by (simp add: turn_task_def pruned_at_def)
qed

lemma quiet_start: "pruned_at t s \<Longrightarrow> start_task E net st s = s"
  by (simp add: pruned_at_def start_task_def split: gossip_task.splits)

lemma client_turn_announced:
  assumes "client_turn E s e = Inr (s', sent)"
  shows "sy_gossip s' = sy_gossip s \<and> sy_channel s' = sy_channel s \<and> sy_unsent s' = sy_unsent s \<and>
    cl_validators (sy_client s') = (case e of Contact pk (Some a) \<Rightarrow> hash_insert pk a (cl_validators (sy_client s))
      | _ \<Rightarrow> cl_validators (sy_client s))"
  using assms by (cases e) (auto simp: client_turn_def elim!: run_bind_InrE split: option.splits if_splits)

text \<open>What a step does to the channel: it loses nothing, and it does not grow.\<close>

lemma channel_step:
  assumes "pruned_at t s" "no_prune t i" "system_step E s i = Inr (s', sent)"
  shows "pruned_at t s' \<and> announced s' = announced s \<and> on_way s' \<le> on_way s \<and>
    (sy_channel s \<noteq> [] \<longrightarrow> (if i = ReceiveContact then Suc (on_way s') = on_way s else sy_channel s' \<noteq> [])) \<and>
    (i = SendContact \<longrightarrow> sy_channel s' \<noteq> [] \<or> on_way s' = 0)"
proof (cases i)
  case (GossipStart net st)
  then show ?thesis using assms quiet_start [OF assms(1), of E net st] by auto
next
  case (GossipTurn net j)
  then show ?thesis using assms quiet_task [OF assms(1), of net j E] by (auto simp: announced_def on_way_def)
next
  case SendContact
  then show ?thesis using assms
    by (auto simp: announced_def on_way_def pruned_at_def CHANNEL_CAPACITY_def split: list.splits if_splits)
next
  case ReceiveContact
  show ?thesis
  proof (cases "sy_channel s")
    case Nil
    then show ?thesis using assms ReceiveContact by simp
  next
    case (Cons ci cs)
    then have "client_turn E (s\<lparr>sy_channel := cs\<rparr>) (contact_event ci) = Inr (s', sent)"
      using assms(3) ReceiveContact by simp
    from client_turn_announced [OF this] show ?thesis using assms(1) Cons ReceiveContact
      by (auto simp: announced_def on_way_def pruned_at_def contact_event_def keep_contact_def split: option.splits)
  qed
next
  case (ClientTimer now env)
  then show ?thesis using assms client_turn_announced [of E s "Timer now env" s' sent]
    by (auto simp: announced_def on_way_def pruned_at_def)
next
  case (ClientPacket packet peer io)
  then show ?thesis using assms client_turn_announced [of E s "Packet packet peer io" s' sent]
    by (auto simp: announced_def on_way_def pruned_at_def)
next
  case (PollerSlot slot)
  then show ?thesis using assms client_turn_announced [of E s "SlotRpc slot" s' sent]
    by (auto simp: announced_def on_way_def pruned_at_def)
qed

lemma deliveries_0 [simp]: "deliveries 0 = []"
  by (simp add: deliveries_def)

lemma deliveries_Suc [simp]: "deliveries (Suc n) = SendContact # ReceiveContact # deliveries n"
  by (simp add: deliveries_def)

text \<open>As many sends and receives in turn as there are contacts on their way empty the channel, whatever else happens between
  them: first with a send ahead, then with a receive ahead.\<close>

lemma deliveries_drain:
  assumes "pruned_at t s" "list_all (no_prune t) is" "system_run E s is = Inr (s', sent)"
  shows "(\<forall>n. subseq (deliveries n) is \<and> on_way s \<le> n \<longrightarrow> on_way s' = 0) \<and>
    (\<forall>n. subseq (ReceiveContact # deliveries n) is \<and> on_way s \<le> Suc n \<and> (sy_channel s \<noteq> [] \<or> on_way s \<le> n) \<longrightarrow> on_way s' = 0) \<and>
    announced s' = announced s"
  using assms
proof (induction "is" arbitrary: s sent)
  case Nil
  have "n = 0" if "subseq (deliveries n) []" for n using that by (cases n) simp_all
  then show ?case using Nil by auto
next
  case (Cons i "is")
  then obtain s1 sent1 sent2 where step: "system_step E s i = Inr (s1, sent1)" and run: "system_run E s1 is = Inr (s', sent2)"
    by (auto elim!: run_bind_InrE)
  have quiet: "no_prune t i" "list_all (no_prune t) is" using Cons.prems(2) by simp_all
  note c = channel_step [OF Cons.prems(1) quiet(1) step]
  have IH: "\<And>n. subseq (deliveries n) is \<Longrightarrow> on_way s1 \<le> n \<Longrightarrow> on_way s' = 0"
    "\<And>n. subseq (ReceiveContact # deliveries n) is \<Longrightarrow> on_way s1 \<le> Suc n \<Longrightarrow> sy_channel s1 \<noteq> [] \<or> on_way s1 \<le> n \<Longrightarrow> on_way s' = 0"
    "announced s' = announced s1"
    using Cons.IH [OF _ quiet(2) run] c by blast+
  have send: "on_way s' = 0" if "subseq (deliveries n) (i # is)" "on_way s \<le> n" for n
  proof (cases n)
    case 0
    then show ?thesis using IH(1) [of 0] c that by simp
  next
    case (Suc m)
    show ?thesis
    proof (cases "i = SendContact")
      case True
      then have "subseq (ReceiveContact # deliveries m) is" using that(1) Suc by simp
      then show ?thesis using IH(2) c that(2) Suc True by fastforce
    next
      case False
      then have "subseq (deliveries n) is" using that(1) Suc by (auto elim: list_emb.cases)
      then show ?thesis using IH(1) c that(2) by fastforce
    qed
  qed
  have receive: "on_way s' = 0"
    if "subseq (ReceiveContact # deliveries n) (i # is)" "on_way s \<le> Suc n" "sy_channel s \<noteq> [] \<or> on_way s \<le> n" for n
  proof (cases "i = ReceiveContact")
    case True
    then have "subseq (deliveries n) is" using that(1) by simp
    moreover have "on_way s1 \<le> n" using c that(2,3) True by auto
    ultimately show ?thesis by (rule IH(1))
  next
    case False
    then have "subseq (ReceiveContact # deliveries n) is" using that(1) by (auto elim: list_emb.cases)
    moreover have "on_way s1 \<le> Suc n" "sy_channel s1 \<noteq> [] \<or> on_way s1 \<le> n" using c that(2,3) False by auto
    ultimately show ?thesis by (rule IH(2))
  qed
  have "announced s' = announced s" using IH(3) c by simp
  then show ?case using send receive by blast
qed

section \<open>A run\<close>

text \<open>Every datagram of this gossip network is a push of one contact info, whose repair socket is 10.0.0.1:8012.\<close>

definition push_ext :: "(unit, unit, nat) gossip_ext" where
  "push_ext = example_ext\<lparr>gx_codec := (gx_codec example_ext)\<lparr>cd_de_protocol :=
     (\<lambda>bs. Some (PushMessage (replicate 32 9) [unsigned_new_data (ContactInfo example_contact)]))\<rparr>\<rparr>"

definition example_env :: "(unit, unit, nat, unit, bytes) system_env" where
  "example_env = \<lparr> se_gossip = push_ext, se_identity = gossip_example_node, se_externals = example_externals,
     se_de_data = le_data_header, se_de_coding = le_coding_header, se_our_key = example_key \<rparr>"

definition prune_tick :: timer_input where
  "prune_tick = \<lparr> tk_pull_now = 5000, tk_pulled_at = 5001, tk_timestamp = 1700000020000, tk_micros = Some 1700000020000000,
     tk_prune_now = 20002, tk_pruned_at = 20003, tk_secs = Some 1000 \<rparr>"

definition contact_state :: "u64 \<Rightarrow> unit gossip_state" where
  "contact_state slot = started_state\<lparr>gs_table := \<lparr> ct_entries = [(replicate 32 7, unsigned_new_data (ContactInfo example_contact))] \<rparr>,
     gs_latest_slot := slot\<rparr>"

definition example_system :: "unit system" where
  "example_system = (new_system (empty_store ''data'') Map.empty)\<lparr>sy_gossip := Running (contact_state 300),
     sy_client := (new_client (new_node (empty_store ''data'') Map.empty))\<lparr>cl_latest_slot := 300\<rparr>\<rparr>"

definition repair_socket :: socket_addr where
  "repair_socket = \<lparr> sa_ip = V4 0x0A000001, sa_port = 8012 \<rparr>"

lemma example_repair_socket: "socket_by_key example_contact 4 = Some repair_socket"
  by (simp add: contact_info_of_lite_def example_lite_def socket_by_key_def checked_add_u16_def get_at_def repair_socket_def)

lemma push_ext_requests: "create_pull_request_message push_ext = create_pull_request_message example_ext"
proof -
  have "max_bloom_bytes_cache push_ext = max_bloom_bytes_cache example_ext"
    by (simp add: max_bloom_bytes_cache_def cache_entry_def [abs_def] push_ext_def)
  then show ?thesis
    by (intro ext) (simp add: create_pull_request_message_def get_max_bloom_filter_bytes_def push_ext_def)
qed

lemma example_value_wt: "value_wt (unsigned_new_data (ContactInfo example_contact))"
proof -
  have "length (ci_cache (contact_info_of_lite l)) = SOCKET_CACHE_SIZE" for l :: "unit contact_info_lite"
    by (simp add: contact_info_of_lite_def)
  moreover have "length (ci_pubkey example_contact) = 32" by (simp add: contact_info_of_lite_def example_lite_def)
  ultimately show ?thesis by (simp add: value_wt_def unsigned_new_data_def value_pubkey_def)
qed

lemma push_ext_codec_wt: "codec_wt (gx_codec push_ext)"
  using example_codec_wt example_value_wt by (simp add: codec_wt_def push_ext_def message_values_def)

lemma push_started: "\<exists>sent. gossip_start push_ext (\<lambda>b a. True) gossip_example_node example_start = Inr (started_state, sent)"
proof -
  obtain sent where s: "gossip_start example_ext (\<lambda>b a. True) gossip_example_node example_start = Inr (started_state, sent)"
    using example_started by blast
  have "send_ping push_ext = send_ping example_ext"
    by (intro ext) (simp add: send_ping_def encode_to_def push_ext_def)
  moreover have "own_contact push_ext = own_contact example_ext"
    by (intro ext) (simp add: own_contact_def push_ext_def)
  moreover have "report_request push_ext bs = Inr ()" for bs
    by (simp add: report_request_def decode_from_def push_ext_def)
  ultimately show ?thesis using s
    by (auto simp: gossip_start_def example_start_def handshake_no_answer initial_wait_no_answer push_ext_requests
        elim!: run_bind_InrE)
qed

section \<open>Properties\<close>

text \<open>C8. In every reachable state of the whole system the client's part is a state that the client reaches alone, with
  contacts, timers, packets and slots as its events: whatever is shown of the reachable states of the client holds in
  the system.\<close>

theorem system_refines_client:
  assumes "system_reachable E s"
  shows "reachable (se_externals E) (se_de_data E) (se_de_coding E) (se_our_key E) (sy_client s)"
  using assms
proof (induction rule: system_reachable.induct)
  case (system_new store fs)
  then show ?case by (simp add: new_system_def reachable.start)
next
  case (system_turn s i s' sent)
  then show ?case using client_of_step reachable_from by blast
qed

text \<open>C6. Every repair request that the node sends goes to the repair socket of a contact info that came in a gossip packet
  which decodes to a push or a pull response; it is 160 bytes, and names the key of that contact info and the node's
  latest slot and the index of one of the first 64 shreds of the slot: what lies beyond them is never asked for.\<close>

theorem requests_go_to_gossiped_contacts:
  assumes "system_run E (new_system store fs) is = Inr (s, sent0)" "codec_wt (gx_codec (se_gossip E))" "key_ok (se_our_key E)"
    and "system_step E s (ClientTimer now env) = Inr (s', sent)" "(m, addr) \<in> set sent"
  shows "\<exists>i ci w. i \<in> set is \<and> brings E i ci \<and> socket_by_key ci 4 = Some addr \<and> length m = 160 \<and>
    read_window_index m = Some w \<and> wi_recipient w = ci_pubkey ci \<and> wi_slot w = cl_latest_slot (sy_client s) \<and>
    wi_shred_index w < 64"
proof -
  have "contacts_from E (\<lambda>ci. \<exists>i \<in> set is. brings E i ci) s"
    by (rule contacts_from_run [OF contacts_from_new assms(1)]) (rule bexI)
  moreover have "(m, addr) \<in> set (repair_poll (se_our_key E) env (cl_latest_slot (sy_client s)) (cl_validators (sy_client s)))"
    using assms(4,5) by (auto simp: client_turn_def split: if_splits)
  from polled_request [OF this] obtain pk idx millis nonce where v: "(pk, addr) \<in> set (cl_validators (sy_client s))"
    "m = repair_request (se_our_key E) pk millis nonce (cl_latest_slot (sy_client s)) (word_of_nat idx)" and idx: "idx < 64"
    by (elim exE conjE)
  ultimately obtain i ci where ci: "i \<in> set is" "brings E i ci" "ci_pubkey ci = pk" "socket_by_key ci 4 = Some addr"
    unfolding contacts_from_def by fast
  obtain bs msg v where b: "decode_from (gx_codec (se_gossip E)) bs = Inr msg" "v \<in> set (message_values msg)" "cv_data v = ContactInfo ci"
    using ci(2) unfolding brings_def by blast
  then have "\<exists>from_key. decode_from (gx_codec (se_gossip E)) bs \<in>
      {Inr (PushMessage from_key (message_values msg)), Inr (PullResponse from_key (message_values msg))}"
    by (cases msg) (auto simp: message_values_def)
  then have "length pk = 32" using decoded_wt [OF assms(2) _ b(2)] b(3) ci(3) by (auto simp: value_wt_def value_pubkey_def)
  moreover have "(word_of_nat idx :: u64) < 64" using idx by (simp add: word_less_nat_alt unat_of_nat)
  ultimately show ?thesis
    using repair_request_read [OF assms(3) _ v(2)] ci by (auto simp: read_window_index_def split: if_splits)
qed

text \<open>The example's contact goes into the table, out of the prune and to the client.\<close>

definition ready_system :: "unit system" where
  "ready_system = example_system\<lparr>sy_gossip := Running ((contact_state 300)\<lparr>gs_last_prune := 20003,
       gs_known_peers := \<lparr> sa_ip = V4 0x7F000001, sa_port = 8000 \<rparr> # gs_known_peers (contact_state 300)\<rparr>),
     sy_client := (sy_client example_system)\<lparr>cl_validators := [(replicate 32 7, repair_socket)]\<rparr>\<rparr>"

lemma example_value_fields:
  "cv_data (unsigned_new_data d) = d" "value_pubkey (unsigned_new_data (ContactInfo example_contact)) = replicate 32 7"
  "value_wallclock (unsigned_new_data (ContactInfo example_contact)) = 1000"
  by (simp_all add: unsigned_new_data_def value_pubkey_def value_wallclock_def contact_info_of_lite_def example_lite_def)

lemma example_gossip_addr: "gossip_addr example_contact = Some \<lparr> sa_ip = V4 0x7F000001, sa_port = 8000 \<rparr>"
  by (simp add: gossip_addr_def contact_info_of_lite_def example_lite_def socket_by_key_def checked_add_u16_def get_at_def)

lemma example_prune:
  "prune_job prune_tick (contact_state 300) = Inr ((contact_state 300)\<lparr>gs_last_prune := 20003,
     gs_known_peers := \<lparr> sa_ip = V4 0x7F000001, sa_port = 8000 \<rparr> # gs_known_peers (contact_state 300)\<rparr>, [example_contact])"
  by (simp add: prune_job_def prune_tick_def contact_state_def started_state_def prune_def now_secs_def example_value_fields
      get_highest_slot_def get_contact_infos_def all_contact_infos_def map_filter_def data_slot_def data_gossip_addr_def
      advance_slot_def extend_peers_def example_gossip_addr gossip_example_node_def)

lemma example_tick_step:
  "gossip_step push_ext net gossip_example_node (contact_state 300) (TimerTick prune_tick) =
     Inr ((contact_state 300)\<lparr>gs_last_prune := 20003,
       gs_known_peers := \<lparr> sa_ip = V4 0x7F000001, sa_port = 8000 \<rparr> # gs_known_peers (contact_state 300)\<rparr>,
       \<lparr> out_sent = [], out_events = [], out_contacts = [example_contact] \<rparr>)"
proof -
  have "pull_job push_ext net gossip_example_node prune_tick (contact_state 300) = Inr (contact_state 300, [])"
    by (simp add: pull_job_def prune_tick_def contact_state_def started_state_def)
  then show ?thesis using example_prune by simp
qed

text \<open>C5. From gossip to repair, in any interleaving. Let the gossip task run in a state that its invariant allows, let nothing be
  unsent from an earlier prune, and let a timer turn of the gossip loop do a prune that is due (15 s after the last).
  Let any events follow it, in any order and number, that leave the node running: packets, timers, slots, sends, receives,
  further turns of the gossip loop, as long as no second prune is due (less than 15 s since the first by the clock of the
  turn), and as long as, as a subsequence of them, a send and a receive come in turn as many times as there are contacts in
  what the prune announces and already in the channel. Then a timer of the client that comes next and is due (5 s after its
  last poll, the latest slot known and not 0, the system clock readable) asks every contact of the pruned table that has a socket
  of key 4, where the client takes the repair address from, at that socket, for each of the indices 0 to 63 of the latest
  slot. The code asks for 64 indices, where two design notes say 32.\<close>

theorem pruned_contacts_are_asked:
  assumes "sy_gossip s = Running g" "gossip_ok (se_identity E) g" "sy_unsent s = []"
    and "gossip_step (se_gossip E) net (se_identity E) (g\<lparr>gs_latest_slot := cl_latest_slot (sy_client s)\<rparr>) (TimerTick k) = Inr (g', out)"
    and "15000 \<le> tk_prune_now k - gs_last_prune g"
    and "list_all (no_prune (gs_last_prune g')) is"
    and "subseq (deliveries (length (sy_channel s) + length (out_contacts out))) is"
    and "system_run E s (GossipTurn net (TimerTick k) # is) = Inr (s', sent0)"
    and "0 < cl_latest_slot (sy_client s')" "5000 \<le> now - cl_last_repair_poll (sy_client s')" "\<forall>pk idx. fst (env pk idx) \<noteq> None"
  shows "\<exists>s'' sent. system_step E s' (ClientTimer now env) = Inr (s'', sent) \<and>
    (\<forall>(pk, v) \<in> set (ct_entries (gs_table g')). \<forall>ci addr. \<forall>idx < 64. cv_data v = ContactInfo ci \<and> socket_by_key ci 4 = Some addr \<longrightarrow>
      (repair_request (se_our_key E) pk (the (fst (env pk idx))) (snd (env pk idx)) (cl_latest_slot (sy_client s')) (word_of_nat idx), addr)
        \<in> set sent)"
proof -
  let ?g = "g\<lparr>gs_latest_slot := cl_latest_slot (sy_client s)\<rparr>"
  obtain g1 where j: "pull_job (se_gossip E) net (se_identity E) k ?g = Inr (g1, out_sent out)" "prune_job k g1 = Inr (g', out_contacts out)"
    using tick_Inr [OF assms(4)] by blast
  then have contacts: "out_contacts out = map snd (all_contact_infos (gs_table g'))"
    using pull_job_Inr [OF j(1)] assms(5) by (auto simp: prune_job_def elim!: run_bind_InrE)
  have ok: "table_ok (gs_table g')" using gossip_ok_step [OF _ assms(4)] assms(2) by (simp add: gossip_ok_def)
  define s1 where "s1 = s\<lparr>sy_gossip := Running g', sy_unsent := out_contacts out,
      sy_client := (sy_client s)\<lparr>cl_latest_slot := gs_latest_slot g'\<rparr>\<rparr>"
  define before where "before = foldl keep_contact (cl_validators (sy_client s)) (sy_channel s)"
  have "system_step E s (GossipTurn net (TimerTick k)) = Inr (s1, [])"
    using assms(1,3,4) by (simp add: turn_task_def s1_def del: gossip_step.simps)
  then obtain sent1 where run: "system_run E s1 is = Inr (s', sent1)"
    using assms(8) by (auto simp del: system_step.simps elim!: run_bind_InrE)
  have "pruned_at (gs_last_prune g') s1" "on_way s1 \<le> length (sy_channel s) + length (out_contacts out)"
    "announced s1 = foldl keep_contact before (out_contacts out)"
    by (simp_all add: s1_def pruned_at_def on_way_def announced_def before_def)
  with deliveries_drain [OF _ assms(6) run] assms(7)
  have "on_way s' = 0" "announced s' = foldl keep_contact before (out_contacts out)" by auto
  then have "cl_validators (sy_client s') = foldl keep_contact before (map snd (all_contact_infos (gs_table g')))"
    by (simp add: on_way_def announced_def contacts)
  with kept_contact_asked [OF ok assms(11)] show ?thesis
    using assms(9,10) by (fastforce simp: client_turn_def REPAIR_POLL_MILLIS_def)
qed

text \<open>The same contact is announced while an earlier announcement of it is still in the channel, and the poller's slot comes
  between the sends and the receives.\<close>

definition busy_system :: "unit system" where
  "busy_system = example_system\<lparr>sy_channel := [example_contact]\<rparr>"

definition example_schedule :: "system_input list" where
  "example_schedule = [SendContact, PollerSlot 301, ReceiveContact, GossipTurn (\<lambda>b a. True) ReceiveError, SendContact, ReceiveContact]"

definition asked_state :: "unit gossip_state" where
  "asked_state = (contact_state 300)\<lparr>gs_last_prune := 20003,
     gs_known_peers := \<lparr> sa_ip = V4 0x7F000001, sa_port = 8000 \<rparr> # gs_known_peers (contact_state 300)\<rparr>"

definition asked_system :: "unit system" where
  "asked_system = busy_system\<lparr>sy_gossip := Running (asked_state\<lparr>gs_latest_slot := 301\<rparr>), sy_channel := [],
     sy_client := (sy_client busy_system)\<lparr>cl_latest_slot := 301, cl_validators := [(replicate 32 7, repair_socket)]\<rparr>\<rparr>"

lemma example_schedule_run:
  "system_run example_env busy_system (GossipTurn (\<lambda>b a. True) (TimerTick prune_tick) # example_schedule) = Inr (asked_system, [])"
proof -
  have env: "se_gossip example_env = push_ext" "se_identity example_env = gossip_example_node" by (simp_all add: example_env_def)
  have key: "kp_pubkey example_keypair = replicate 32 7" by (simp add: example_keypair_def)
  have slot: "(contact_state 300)\<lparr>gs_latest_slot := 300\<rparr> = contact_state 300" by (simp add: contact_state_def)
  have tick: "system_step example_env busy_system (GossipTurn (\<lambda>b a. True) (TimerTick prune_tick)) =
      Inr (busy_system\<lparr>sy_gossip := Running asked_state, sy_unsent := [example_contact]\<rparr>, [])"
    using example_tick_step [of "\<lambda>b a. True"] slot
    by (simp add: turn_task_def env busy_system_def example_system_def new_system_def new_client_def asked_state_def contact_state_def
        del: gossip_step.simps)
  show ?thesis
    unfolding example_schedule_def system_run.simps(2) [of _ _ "GossipTurn _ (TimerTick _)"] tick
    by (simp add: client_turn_def turn_task_def contact_event_def example_repair_socket key env quiet_def CHANNEL_CAPACITY_def
        busy_system_def asked_system_def example_system_def new_system_def new_client_def)
qed

theorem pruned_contacts_are_asked_witness:
  "\<exists>s' sent. system_run example_env busy_system (GossipTurn (\<lambda>b a. True) (TimerTick prune_tick) # example_schedule @
      [ClientTimer 6000 (\<lambda>_ _. (Some 1700000000000, 5))]) = Inr (s', sent) \<and>
    (repair_request example_key (replicate 32 7) 1700000000000 5 301 (word_of_nat 63), repair_socket) \<in> set sent"
proof -
  define env :: "bytes \<Rightarrow> nat \<Rightarrow> nat option \<times> u32" where "env = (\<lambda>_ _. (Some 1700000000000, 5))"
  have e: "sy_gossip busy_system = Running (contact_state 300)" "sy_unsent busy_system = []" "sy_channel busy_system = [example_contact]"
    "cl_latest_slot (sy_client busy_system) = 300" "(contact_state 300)\<lparr>gs_latest_slot := 300\<rparr> = contact_state 300"
    "gs_last_prune (contact_state 300) = 0"
    "se_gossip example_env = push_ext" "se_identity example_env = gossip_example_node" "se_our_key example_env = example_key"
    by (simp_all add: busy_system_def example_system_def new_system_def new_client_def contact_state_def started_state_def example_env_def)
  have s': "cl_latest_slot (sy_client asked_system) = 301" "cl_last_repair_poll (sy_client asked_system) = 0"
    by (simp_all add: asked_system_def busy_system_def example_system_def new_system_def new_client_def)
  have table: "(replicate 32 7, unsigned_new_data (ContactInfo example_contact)) \<in> set (ct_entries (gs_table asked_state))"
    by (simp add: asked_state_def contact_state_def)
  have ok: "gossip_ok gossip_example_node (contact_state 300)"
    by (simp add: gossip_ok_def contact_state_def started_state_def table_ok_def example_value_fields)
  have tick: "gossip_step push_ext (\<lambda>b a. True) gossip_example_node (contact_state 300) (TimerTick prune_tick) =
      Inr (asked_state, \<lparr> out_sent = [], out_events = [], out_contacts = [example_contact] \<rparr>)"
    unfolding asked_state_def by (rule example_tick_step)
  have two: "length [example_contact] + length (out_contacts \<lparr> out_sent = [], out_events = [], out_contacts = [example_contact] \<rparr>) = Suc (Suc 0)"
    by simp
  have schedule: "15000 \<le> tk_prune_now prune_tick - 0" "list_all (no_prune (gs_last_prune asked_state)) example_schedule"
    "subseq (deliveries (Suc (Suc 0))) example_schedule"
    by (simp_all add: prune_tick_def example_schedule_def)
  have times: "(0::u64) < 301" "5000 \<le> 6000 - (0::nat)" "\<forall>pk idx. fst (env pk idx) \<noteq> None" by (simp_all add: env_def)
  obtain s'' sent where run: "system_step example_env asked_system (ClientTimer 6000 env) = Inr (s'', sent)"
    and asked: "\<forall>(pk, v) \<in> set (ct_entries (gs_table asked_state)). \<forall>ci addr. \<forall>idx < 64. cv_data v = ContactInfo ci \<and> socket_by_key ci 4 = Some addr \<longrightarrow>
      (repair_request example_key pk (the (fst (env pk idx))) (snd (env pk idx)) 301 (word_of_nat idx), addr) \<in> set sent"
    using pruned_contacts_are_asked [of busy_system "contact_state 300" example_env, unfolded e, OF refl ok refl tick schedule(1,2)
        schedule(3) [folded two] example_schedule_run, unfolded s', OF times]
    by (elim exE conjE) (rule that)
  have "\<forall>idx < 64. (repair_request example_key (replicate 32 7) 1700000000000 5 301 (word_of_nat idx), repair_socket) \<in> set sent"
    using bspec [OF asked table] example_repair_socket by (simp add: example_value_fields(1) env_def)
  then have "(repair_request example_key (replicate 32 7) 1700000000000 5 301 (word_of_nat 63), repair_socket) \<in> set sent"
    by (elim allE [of _ 63]) (rule mp, simp_all)
  moreover have "system_run example_env busy_system (GossipTurn (\<lambda>b a. True) (TimerTick prune_tick) # example_schedule @
      [ClientTimer 6000 env]) = Inr (s'', sent)"
    unfolding append_Cons [symmetric] system_run_append example_schedule_run using run by simp
  ultimately show ?thesis unfolding env_def by (intro exI conjI)
qed

theorem system_refines_client_witness:
  "reachable example_externals le_data_header le_coding_header example_key
     ((new_client (new_node (empty_store ''data'') Map.empty))\<lparr>cl_latest_slot := 300\<rparr> :: socket_addr client)"
proof -
  let ?s = "new_system (empty_store ''data'') Map.empty :: unit system"
  have "system_reachable example_env ?s" by (rule system_new) (rule empty_store_ok)
  then have "system_reachable example_env (?s\<lparr>sy_client := (sy_client ?s)\<lparr>cl_latest_slot := 300\<rparr>\<rparr>)"
    by (rule system_turn [where i = "PollerSlot 300" and sent = "[]"]) (simp_all add: client_turn_def new_system_def new_client_def)
  from system_refines_client [OF this] show ?thesis by (simp add: example_env_def new_system_def)
qed

text \<open>The start of the gossip task, the slot poller, one push, and the prune up to the client.\<close>

definition example_inputs :: "system_input list" where
  "example_inputs =
     [GossipStart (\<lambda>b a. True) example_start, PollerSlot 300,
      GossipTurn (\<lambda>b a. True) (PacketIn [] SOCKET_ADDR_UNSPECIFIED (\<lambda>k. Some 1)),
      GossipTurn (\<lambda>b a. True) (TimerTick prune_tick), SendContact, ReceiveContact]"

lemma example_push:
  "gossip_step push_ext net gossip_example_node (started_state\<lparr>gs_latest_slot := 300\<rparr>)
     (PacketIn [] SOCKET_ADDR_UNSPECIFIED (\<lambda>k. Some 1)) = Inr (g', out) \<Longrightarrow>
   g' = contact_state 300 \<and> out_contacts out = []"
proof -
  assume s: "gossip_step push_ext net gossip_example_node (started_state\<lparr>gs_latest_slot := 300\<rparr>)
     (PacketIn [] SOCKET_ADDR_UNSPECIFIED (\<lambda>k. Some 1)) = Inr (g', out)"
  have d: "decode_from (gx_codec push_ext) [] = Inr (PushMessage (replicate 32 9) [unsigned_new_data (ContactInfo example_contact)])"
    by (simp add: decode_from_def push_ext_def)
  have "merge_all new_table [unsigned_new_data (ContactInfo example_contact)] =
      \<lparr> ct_entries = [(replicate 32 7, unsigned_new_data (ContactInfo example_contact))] \<rparr>"
    by (simp add: merge_value_def new_table_def example_value_fields)
  moreover have "get_contact_infos \<lparr> ct_entries = [(replicate 32 7, unsigned_new_data (ContactInfo example_contact))] \<rparr> =
      [(replicate 32 7, \<lparr> sa_ip = V4 0x7F000001, sa_port = 8000 \<rparr>)]"
    by (simp add: get_contact_infos_def map_filter_def data_gossip_addr_def example_value_fields example_gossip_addr)
  ultimately show ?thesis using s
    by (auto simp: packet_step_def d handle_def contact_state_def started_state_def extend_peers_def peers_of_def
        gossip_example_node_def example_keypair_def elim!: run_bind_InrE)
qed

lemma example_run: "system_run example_env (new_system (empty_store ''data'') Map.empty) example_inputs = Inr (ready_system, [])"
proof -
  let ?s0 = "new_system (empty_store ''data'') Map.empty :: unit system"
  let ?s1 = "?s0\<lparr>sy_gossip := Running started_state\<rparr>"
  let ?s2 = "?s1\<lparr>sy_client := (sy_client ?s1)\<lparr>cl_latest_slot := 300\<rparr>\<rparr>"
  have env: "se_gossip example_env = push_ext" "se_identity example_env = gossip_example_node" by (simp_all add: example_env_def)
  have "example_start\<lparr>st_latest_slot := 0\<rparr> = example_start" by (simp add: example_start_def)
  then have step1: "system_step example_env ?s0 (GossipStart (\<lambda>b a. True) example_start) = Inr (?s1, [])"
    using push_started by (auto simp: start_task_def env new_system_def new_client_def)
  have step2: "system_step example_env ?s1 (PollerSlot 300) = Inr (?s2, [])"
    by (simp add: client_turn_def new_system_def new_client_def)
  obtain g' out where push: "gossip_step push_ext (\<lambda>b a. True) gossip_example_node (started_state\<lparr>gs_latest_slot := 300\<rparr>)
     (PacketIn [] SOCKET_ADDR_UNSPECIFIED (\<lambda>k. Some 1)) = Inr (g', out)"
    using handle_values_ok [of "\<lambda>k. Some 1" "PushMessage (replicate 32 9) [unsigned_new_data (ContactInfo example_contact)]"
        "replicate 32 9" "[unsigned_new_data (ContactInfo example_contact)]" push_ext "\<lambda>b a. True" example_keypair SOCKET_ADDR_UNSPECIFIED new_table]
    by (auto simp: packet_step_def decode_from_def push_ext_def started_state_def gossip_example_node_def)
  have step3: "system_step example_env ?s2 (GossipTurn (\<lambda>b a. True) (PacketIn [] SOCKET_ADDR_UNSPECIFIED (\<lambda>k. Some 1))) =
      Inr (example_system, [])"
    using push example_push [OF push]
    by (simp add: turn_task_def env new_system_def new_client_def example_system_def contact_state_def del: gossip_step.simps)
  let ?s4 = "ready_system\<lparr>sy_unsent := [example_contact], sy_client := sy_client example_system\<rparr>"
  have "(contact_state 300)\<lparr>gs_latest_slot := 300\<rparr> = contact_state 300" by (simp add: contact_state_def)
  then have step4: "system_step example_env example_system (GossipTurn (\<lambda>b a. True) (TimerTick prune_tick)) = Inr (?s4, [])"
    using example_tick_step [of "\<lambda>b a. True"]
    by (simp add: turn_task_def env example_system_def new_system_def new_client_def ready_system_def contact_state_def
        del: gossip_step.simps)
  have key: "kp_pubkey example_keypair = replicate 32 7" by (simp add: example_keypair_def)
  have two: "deliveries (length (sy_unsent ?s4)) = [SendContact, ReceiveContact]" by (simp add: deliveries_def)
  have "sy_channel ?s4 = []" by (simp add: ready_system_def example_system_def new_system_def)
  from deliveries_run [OF this, of example_env, unfolded two]
  have step5: "system_run example_env ?s4 [SendContact, ReceiveContact] = Inr (ready_system, [])"
    by (simp add: ready_system_def example_system_def new_system_def new_client_def keep_contact_def key example_repair_socket
        del: system_run.simps)
  show ?thesis
    unfolding example_inputs_def system_run.simps(2) [of _ _ "GossipStart _ _"] system_run.simps(2) [of _ _ "PollerSlot _"]
      system_run.simps(2) [of _ _ "GossipTurn _ _"] step1 step2 step3 step4 run_bind_Inr prod.case step5 by simp
qed

theorem requests_go_to_gossiped_contacts_witness:
  "\<exists>sent. system_step example_env ready_system (ClientTimer 6000 (\<lambda>_ _. (Some 1700000000000, 5))) = Inr (ready_system
     \<lparr>sy_client := (sy_client ready_system)\<lparr>cl_last_repair_poll := 6000\<rparr>\<rparr>, sent) \<and>
   (\<exists>m i ci. (m, repair_socket) \<in> set sent \<and> i \<in> set example_inputs \<and> brings example_env i ci \<and> length m = 160)"
proof -
  let ?env = "\<lambda>_ _. (Some 1700000000000, 5)"
  let ?sent = "repair_poll example_key ?env 300 [(replicate 32 7, repair_socket)]"
  have step: "system_step example_env ready_system (ClientTimer 6000 ?env) =
      Inr (ready_system\<lparr>sy_client := (sy_client ready_system)\<lparr>cl_last_repair_poll := 6000\<rparr>\<rparr>, ?sent)"
    by (simp add: client_turn_def ready_system_def example_system_def new_system_def new_client_def example_env_def REPAIR_POLL_MILLIS_def)
  have m: "(repair_request example_key (replicate 32 7) 1700000000000 5 300 (word_of_nat 0), repair_socket) \<in> set ?sent"
    by (simp add: repair_poll_eq image_iff del: upt_conv_Cons) (rule bexI [of _ 0], simp_all)
  have "codec_wt (gx_codec (se_gossip example_env))" "key_ok (se_our_key example_env)"
    using push_ext_codec_wt example_key_ok by (simp_all add: example_env_def)
  from requests_go_to_gossiped_contacts [OF example_run this step m] show ?thesis using step m by blast
qed

end
