(* ===== verification/Collector.thy ===== *)
theory Collector
  imports Pipeline
begin

text \<open>
  What the node promises to its peers: it collects the shreds of a set, in any order and with repetitions, and when it
  has as many different ones as the set has data shreds it stores the set's block and forgets the set. The abstract
  machine \<open>collect\<close> keeps, for every set, the rows received; \<open>tracks\<close> relates it to the node, whose every event it
  simulates, as long as every shred that comes is a row of a well-formed set, the slots stay in one window of the ring
  buffer and the file writes succeed (\<open>run_ok\<close>). What the sets contain is a map from their identifiers to \<open>shred_set\<close>s, which a
  sender makes by \<open>encode\<close>.
\<close>

section \<open>Sets of shreds\<close>

record shred_set =
  ss_data :: "bytes list"
  ss_code :: "bytes list"
  ss_entries :: "entry list"

text \<open>The data shreds carry a serialised entry stream and padding; the code shreds are their encoding.\<close>

definition set_ok :: "shred_set \<Rightarrow> bool" where
  "set_ok S \<longleftrightarrow> cauchy_dims (length (ss_data S)) (length (ss_code S)) \<and>
     (\<exists>sz. shreds_of_size (length (ss_data S)) sz (ss_data S)) \<and>
     encode (ss_data S) (generate_cauchy_matrix (length (ss_data S)) (length (ss_code S))) (length (ss_code S)) = Inr (ss_code S) \<and>
     length (concat (ss_data S)) \<le> usize_max \<and> ss_entries S \<noteq> [] \<and> length (ss_entries S) \<le> 1000000 \<and>
     (\<forall>e \<in> set (ss_entries S). entry_ok e) \<and> (\<exists>pad. concat (ss_data S) = stream_bytes (ss_entries S) @ pad)"

text \<open>The row of a shred in its set: data shreds come first.\<close>

fun shred_row :: "shred \<Rightarrow> nat" where
  "shred_row (MerkleData ch h root ps data) = unat (ch_index ch - ch_fec_set_index ch)"
| "shred_row (MerkleCode ch h root ps code) = unat (cdh_num_data_shreds h) + unat (cdh_position h)"

fun belongs :: "shred_set \<Rightarrow> shred \<Rightarrow> bool" where
  "belongs S (MerkleData ch h root ps data) \<longleftrightarrow>
     length (ss_data S) = NUM_DATA_SHREDS \<and> length (ss_code S) = NUM_CODE_SHREDS \<and>
     (let r = unat (ch_index ch - ch_fec_set_index ch) in r < length (ss_data S) \<and> data = ss_data S ! r)"
| "belongs S (MerkleCode ch h root ps code) \<longleftrightarrow>
     length (ss_data S) = unat (cdh_num_data_shreds h) \<and> length (ss_code S) = unat (cdh_num_coding_shreds h) \<and>
     unat (cdh_position h) < length (ss_code S) \<and> code = ss_code S ! unat (cdh_position h)"

lemma belongs_dims: "belongs S s \<Longrightarrow> shred_num_data s = length (ss_data S) \<and> shred_num_code s = length (ss_code S)"
  by (cases s) (simp_all add: Let_def)

section \<open>The rows of a batch\<close>

definition present_rows :: "fec_batch \<Rightarrow> nat set" where
  "present_rows b = set (data_rows b) \<union> (+) (fb_num_data b) ` set (code_rows b)"

lemma card_present_rows: "batch_ok b \<Longrightarrow> card (present_rows b) = received_count b"
proof -
  assume ok: "batch_ok b"
  have "distinct (data_rows b)" "distinct (code_rows b)" by (simp_all add: data_rows_def code_rows_def)
  then have "card (set (data_rows b)) = count_some (fb_data_shreds b)"
    "card ((+) (fb_num_data b) ` set (code_rows b)) = count_some (fb_code_shreds b)"
    using rows_length [OF ok] by (simp_all add: distinct_card card_image)
  moreover have "set (data_rows b) \<inter> (+) (fb_num_data b) ` set (code_rows b) = {}" by (auto simp: data_rows_def)
  ultimately show ?thesis by (simp add: present_rows_def card_Un_disjoint received_count_def)
qed

lemma finite_present_rows [simp]: "finite (present_rows b)"
  by (simp add: present_rows_def)

lemma present_rows_new [simp]: "present_rows (new_batch slot fec n m) = {}"
  by (simp add: present_rows_def data_rows_def code_rows_def new_batch_def)

lemma present_rows_parent [simp]: "present_rows (b\<lparr>fb_parent_slot := p\<rparr>) = present_rows b"
  by (simp add: present_rows_def data_rows_def code_rows_def)

lemma present_rows_iff:
  "r \<in> present_rows b \<longleftrightarrow> r < fb_num_data b \<and> fb_data_shreds b ! r \<noteq> None \<or>
     fb_num_data b \<le> r \<and> r - fb_num_data b < fb_num_code b \<and> fb_code_shreds b ! (r - fb_num_data b) \<noteq> None"
  by (auto simp: present_rows_def data_rows_def code_rows_def image_iff intro: bexI [where x = "r - fb_num_data b"])

lemma present_rows_data:
  "batch_ok b \<Longrightarrow> unat i < fb_num_data b \<Longrightarrow> present_rows (fst (add_data_shred b i x)) = insert (unat i) (present_rows b)"
  by (rule set_eqI) (auto simp: present_rows_iff add_data_shred_def batch_ok_def nth_list_update)

lemma present_rows_code:
  "batch_ok b \<Longrightarrow> unat i < fb_num_code b \<Longrightarrow>
   present_rows (fst (add_code_shred b i x)) = insert (fb_num_data b + unat i) (present_rows b)"
  by (rule set_eqI) (auto simp: present_rows_iff add_code_shred_def batch_ok_def nth_list_update)

lemma batch_of_new: "batch_of data code (new_batch slot fec (length data) (length code))"
  by (simp add: batch_of_def batch_ok_new) (simp add: new_batch_def)

lemma batch_of_data:
  "batch_of data code b \<Longrightarrow> x = data ! unat i \<Longrightarrow> batch_of data code (fst (add_data_shred b i x))"
  by (auto simp: batch_of_def add_frame batch_ok_add) (auto simp: add_data_shred_def batch_ok_def nth_list_update split: if_splits)

lemma batch_of_code:
  "batch_of data code b \<Longrightarrow> x = code ! unat i \<Longrightarrow> batch_of data code (fst (add_code_shred b i x))"
  by (auto simp: batch_of_def add_frame batch_ok_add) (auto simp: add_code_shred_def batch_ok_def nth_list_update split: if_splits)

lemma batch_of_parent [simp]: "batch_of data code (b\<lparr>fb_parent_slot := p\<rparr>) = batch_of data code b"
  by (simp add: batch_of_def batch_ok_parent)

lemma unat_position: "unat (ucast (p :: u16) :: u32) = unat p"
  using unsigned_less [of p, where 'a = nat] by (simp add: unsigned_ucast_eq take_bit_nat_eq_self_iff)

text \<open>A shred of a set puts its row into the set's batch.\<close>

lemma shred_added:
  assumes "belongs S s" "batch_of (ss_data S) (ss_code S) b"
  shows "batch_of (ss_data S) (ss_code S) (add_to_batch s b)"
    and "present_rows (add_to_batch s b) = insert (shred_row s) (present_rows b)"
proof -
  have ok: "batch_ok b" "length (ss_data S) = fb_num_data b" "length (ss_code S) = fb_num_code b"
    using assms(2) by (simp_all add: batch_of_def)
  show "batch_of (ss_data S) (ss_code S) (add_to_batch s b)"
    using assms by (cases s) (auto simp: Let_def batch_of_data batch_of_code unat_position)
  show "present_rows (add_to_batch s b) = insert (shred_row s) (present_rows b)"
    using assms(1) ok by (cases s) (auto simp: Let_def present_rows_data present_rows_code unat_position)
qed

text \<open>A batch that holds exactly these rows of a set; a set without rows has no batch.\<close>

fun batch_tracked :: "shred_set \<Rightarrow> fec_batch option \<Rightarrow> nat set \<Rightarrow> bool" where
  "batch_tracked S None R \<longleftrightarrow> R = {}"
| "batch_tracked S (Some b) R \<longleftrightarrow> batch_of (ss_data S) (ss_code S) b \<and> present_rows b = R"

lemma updated_batch_rows:
  assumes "belongs S s" "batch_tracked S (nd_batches node (shred_erasure_set_id s)) R"
  shows "batch_of (ss_data S) (ss_code S) (updated_batch node s)"
    and "present_rows (updated_batch node s) = insert (shred_row s) R"
proof -
  have "batch_of (ss_data S) (ss_code S) (batch_entry node s) \<and> present_rows (batch_entry node s) = R"
    using assms belongs_dims [OF assms(1)] batch_of_new [of "ss_data S" "ss_code S"]
    by (auto simp: batch_entry_def Let_def split: option.splits)
  then show "batch_of (ss_data S) (ss_code S) (updated_batch node s)"
    "present_rows (updated_batch node s) = insert (shred_row s) R"
    using shred_added [OF assms(1)] by (simp_all add: updated_batch_def)
qed

section \<open>The abstract machine\<close>

record collector =
  cr_rows :: "erasure_set_id \<Rightarrow> nat set"
  cr_done :: "u64 \<Rightarrow> erasure_set_id option"
  cr_count :: nat

definition empty_collector :: collector where
  "empty_collector = \<lparr> cr_rows = (\<lambda>i. {}), cr_done = (\<lambda>slot. None), cr_count = 0 \<rparr>"

definition collect :: "(erasure_set_id \<Rightarrow> nat) \<Rightarrow> collector \<Rightarrow> shred \<Rightarrow> collector" where
  "collect need k s =
     (let i = shred_erasure_set_id s; R = insert (shred_row s) (cr_rows k i)
      in if need i \<le> card R
         then k\<lparr>cr_rows := (cr_rows k)(i := {}), cr_done := (cr_done k)(es_slot i \<mapsto> i), cr_count := cr_count k + 1\<rparr>
         else k\<lparr>cr_rows := (cr_rows k)(i := R)\<rparr>)"

definition collect_all :: "(erasure_set_id \<Rightarrow> nat) \<Rightarrow> collector \<Rightarrow> shred list \<Rightarrow> collector" where
  "collect_all need k ss = foldl (collect need) k ss"

lemma collect_all_simps [simp]:
  "collect_all need k [] = k" "collect_all need k (s # ss) = collect_all need (collect need k s) ss"
  "collect_all need k (ss @ ts) = collect_all need (collect_all need k ss) ts"
  by (simp_all add: collect_all_def)

text \<open>The block of a set is stored, in the ring buffer and in the files.\<close>

definition holds_block :: "('v, 'tx) externals \<Rightarrow> node \<Rightarrow> u64 \<Rightarrow> shred_set \<Rightarrow> bool" where
  "holds_block X node slot S \<longleftrightarrow>
     (\<exists>d. get (as_ring_buffer node) slot = Inr (Some d) \<and>
        sd_merkle_root d = Some (mt_root (merkle_new (x_sha256 X) (concat (map en_transactions (ss_entries S))))) \<and>
        sd_entries d = or_else (x_ser_entries X (ss_entries S)) [] \<and>
        sd_num_transactions d = length (concat (map en_transactions (ss_entries S)))) \<and>
     load_slot (as_files node) (as_file_store node) slot = Some (concat (ss_data S))"

text \<open>The slots of a run lie within one window of the ring buffer.\<close>

definition in_window :: "u64 \<Rightarrow> u64 \<Rightarrow> bool" where
  "in_window lo slot \<longleftrightarrow> unat lo \<le> unat slot \<and> unat slot < unat lo + 500 \<and> unat slot + 500 < usize_max"

definition tracks :: "('v, 'tx) externals \<Rightarrow> (erasure_set_id \<Rightarrow> shred_set) \<Rightarrow> u64 \<Rightarrow> node \<Rightarrow> collector \<Rightarrow> bool" where
  "tracks X sets lo node k \<longleftrightarrow> node_ok X node \<and> rb_capacity (as_ring_buffer node) = 500 \<and>
     unat (rb_head (as_ring_buffer node)) \<le> unat lo \<and>
     (\<forall>i. batch_tracked (sets i) (nd_batches node i) (cr_rows k i)) \<and>
     (\<forall>slot i. cr_done k slot = Some i \<longrightarrow> in_window lo slot \<and> holds_block X node slot (sets i))"

definition needed :: "(erasure_set_id \<Rightarrow> shred_set) \<Rightarrow> erasure_set_id \<Rightarrow> nat" where
  "needed sets i = length (ss_data (sets i))"

text \<open>A shred of a run: it belongs to its set, which is well-formed, and the slot is in the window.\<close>

definition shred_fits :: "(erasure_set_id \<Rightarrow> shred_set) \<Rightarrow> u64 \<Rightarrow> shred \<Rightarrow> bool" where
  "shred_fits sets lo s \<longleftrightarrow> belongs (sets (shred_erasure_set_id s)) s \<and> set_ok (sets (shred_erasure_set_id s)) \<and>
     in_window lo (shred_slot s)"

section \<open>The simulation\<close>

lemma set_recovers:
  assumes "set_ok S" "batch_of (ss_data S) (ss_code S) b"
  shows "try_recover b = Inr (if length (ss_data S) \<le> card (present_rows b) then Some (ss_data S) else None)"
proof -
  have b: "batch_ok b" "length (ss_data S) = fb_num_data b" "length (ss_code S) = fb_num_code b"
    using assms(2) by (simp_all add: batch_of_def)
  obtain sz where "shreds_of_size (fb_num_data b) sz (ss_data S)" using assms(1) b by (auto simp: set_ok_def)
  moreover have "cauchy_dims (fb_num_data b) (fb_num_code b)"
    "encode (ss_data S) (generate_cauchy_matrix (fb_num_data b) (fb_num_code b)) (fb_num_code b) = Inr (ss_code S)"
    using assms(1) b by (simp_all add: set_ok_def)
  ultimately show ?thesis
    using try_recover_encoded [of b _ "ss_data S" "ss_code S"] try_recover_waits [of b] assms(2) b
    by (simp add: card_present_rows not_le)
qed

lemma set_deshreds:
  "set_ok S \<Longrightarrow> deshred_into_txs (ss_data S) =
     Some \<lparr> dr_entries = ss_entries S, dr_transactions = concat (map en_transactions (ss_entries S)) \<rparr>"
  unfolding set_ok_def by (elim conjE exE) (rule deshred_stream)

text \<open>What a completed batch changes: one slot of the stores, and the counter.\<close>

lemma process_shred_stores:
  assumes ok: "node_ok X node" and near: "slot_near node s" and window: "rb_head (as_ring_buffer node) \<le> shred_slot s"
    and rec: "try_recover (updated_batch node s) = Inr (Some data)" "deshred_into_txs data = Some result"
    and io: "io_write_data io = None" "io_write_meta io = None"
  obtains node' where "process_shred X io node s = Inr node'"
    "nd_batches node' = (nd_batches node)(shred_erasure_set_id s := None)"
    "put (as_ring_buffer node) (block_of X (updated_batch node s) result) = Inr (as_ring_buffer node')"
    "\<And>slot. load_slot (as_files node') (as_file_store node') slot =
       (if slot = shred_slot s then Some (concat data) else load_slot (as_files node) (as_file_store node) slot)"
    "ps_total_blocks_recovered (as_stats node') = ps_total_blocks_recovered (as_stats node) + 1"
proof -
  let ?b = "updated_batch node s" and ?n = "with_shred node s" and ?i = "shred_erasure_set_id s"
  have ring: "ring_ok (as_ring_buffer ?n)" and st: "store_ok (as_file_store ?n)" and bs: "batches_ok (nd_batches node)"
    using ok by (simp_all add: node_ok_def)
  have slot: "fb_slot ?b = shred_slot s" by (rule updated_batch_ok(2) [OF bs])
  have low: "unat (fb_slot ?b) + rb_capacity (as_ring_buffer ?n) < usize_max"
    using near slot by (simp add: slot_near_def)
  obtain r stats fs store saved where p: "publish X io ?n ?b data result =
      Inr (?n\<lparr>as_ring_buffer := r, as_files := fs, as_file_store := store, as_stats := stats\<rparr>)"
    "put (as_ring_buffer ?n) (block_of X ?b result) = Inr r"
    "save_slot (io_write_data io) (io_write_meta io) (as_files ?n) (as_file_store ?n) (fb_slot ?b) (concat data)
      = (fs, store, saved)"
    "ps_total_blocks_recovered stats = ps_total_blocks_recovered (as_stats ?n) + 1"
    using publish_ok [OF ring low] by blast
  have saved: "saved = Inr ()" using p(3) by (simp add: io save_slot_ok)
  have load: "load_slot fs store k = (if k = shred_slot s then Some (concat data)
      else load_slot (as_files node) (as_file_store node) k)" for k
    using load_after_save [OF st, of "as_files ?n" "fb_slot ?b" "concat data" fs store k] p(3)
    by (simp add: io saved slot)
  have total: "ps_total_blocks_recovered (as_stats ?n) = ps_total_blocks_recovered (as_stats node)"
    by (simp add: with_shred_def note_batch_def)
  show ?thesis
    by (rule that [of "?n\<lparr>as_ring_buffer := r, as_files := fs, as_file_store := store,
      as_stats := stats, nd_batches := (nd_batches ?n)(?i := None)\<rparr>"])
      (use process_shred_recovers [OF rec(1), of X io] p load total in \<open>simp_all add: rec(2)\<close>)
qed

lemma window_apart:
  assumes "in_window lo a" "in_window lo b" "a \<noteq> b"
  shows "unat a mod 500 \<noteq> unat b mod 500" "\<not> unat a + 500 \<le> unat b"
proof -
  have ne: "unat a \<noteq> unat b" using assms(3) by (simp add: word_unat_eq_iff)
  show "\<not> unat a + 500 \<le> unat b" using assms(1,2) by (simp add: in_window_def)
  have "\<not> unat b + 500 \<le> unat a" using assms(1,2) by (simp add: in_window_def)
  then show "unat a mod 500 \<noteq> unat b mod 500"
    using \<open>\<not> unat a + 500 \<le> unat b\<close> ne mod_less_dist [of "unat a" "unat b" 500] mod_less_dist [of "unat b" "unat a" 500]
    by (metis nat_neq_iff)
qed

lemma completed_ring:
  assumes "ring_ok b" "rb_capacity b = 500" "unat (rb_head b) \<le> unat lo" "in_window lo (sd_slot d)" "put b d = Inr b'"
  shows "ring_ok b' \<and> rb_capacity b' = 500 \<and> unat (rb_head b') \<le> unat lo \<and> get b' (sd_slot d) = Inr (Some d)"
    and "\<And>slot. in_window lo slot \<Longrightarrow> slot \<noteq> sd_slot d \<Longrightarrow> get b' slot = get b slot"
proof -
  have fit: "slot_fits b (sd_slot d) d" using assms(2,4) by (simp add: slot_fits_def in_window_def)
  note w = put_window [OF assms(1) fit assms(5)] and ok' = put_keeps_ok [OF assms(1) fit assms(5)]
    and m = ring_map_put [OF assms(1) fit assms(5)]
  have "unat (rb_head b) \<le> unat (sd_slot d)" using assms(3,4) by (simp add: in_window_def)
  then have "get b' (sd_slot d) = Inr (Some d)" by (simp add: get_ring_map [OF ok'] m word_le_nat_alt)
  moreover have "unat (rb_head b') \<le> unat lo" using assms(2,3,4) w(1) by (auto simp: in_window_def)
  ultimately show "ring_ok b' \<and> rb_capacity b' = 500 \<and> unat (rb_head b') \<le> unat lo \<and> get b' (sd_slot d) = Inr (Some d)"
    using ok' w(3) assms(2) by simp
  show "get b' slot = get b slot" if "in_window lo slot" "slot \<noteq> sd_slot d" for slot
    using window_apart [OF that(1) assms(4) that(2)] that(2)
    by (simp add: get_ring_map [OF ok'] get_ring_map [OF assms(1)] m assms(2))
qed

lemma slot_of_set: "es_slot (shred_erasure_set_id s) = shred_slot s"
  by (simp add: shred_erasure_set_id_def shred_slot_def)

lemma tracksD:
  assumes "tracks X sets lo node k"
  shows "node_ok X node" "rb_capacity (as_ring_buffer node) = 500" "unat (rb_head (as_ring_buffer node)) \<le> unat lo"
    and "batch_tracked (sets i) (nd_batches node i) (cr_rows k i)"
    and "cr_done k slot = Some i \<Longrightarrow> in_window lo slot \<and> holds_block X node slot (sets i)"
  using assms by (simp_all add: tracks_def)

lemma block_held:
  assumes "set_ok S" "get (as_ring_buffer node) slot = Inr (Some (block_of X b
      \<lparr> dr_entries = ss_entries S, dr_transactions = concat (map en_transactions (ss_entries S)) \<rparr>))"
    and "load_slot (as_files node) (as_file_store node) slot = Some (concat (ss_data S))"
  shows "holds_block X node slot S"
  using assms by (simp add: holds_block_def block_of_def Let_def)

text \<open>One shred: a batch that still waits, and a batch that is complete.\<close>

lemma tracks_waits:
  assumes t: "tracks X sets lo node k" and s: "shred_fits sets lo s"
    and few: "card (insert (shred_row s) (cr_rows k (shred_erasure_set_id s))) < needed sets (shred_erasure_set_id s)"
  shows "process_shred X io node s = Inr (with_shred node s) \<and> tracks X sets lo (with_shred node s) (collect (needed sets) k s)"
proof
  let ?i = "shred_erasure_set_id s"
  let ?S = "sets ?i"
  have S: "belongs ?S s" "set_ok ?S" "in_window lo (shred_slot s)" using s by (simp_all add: shred_fits_def)
  note rows = updated_batch_rows [OF S(1) tracksD(4) [OF t]]
  have none: "try_recover (updated_batch node s) = Inr None"
    using set_recovers [OF S(2) rows(1)] few rows(2) by (simp add: needed_def)
  then show run: "process_shred X io node s = Inr (with_shred node s)" by (rule process_shred_waits)
  have near: "slot_near node s" using S(3) tracksD(2) [OF t] by (simp add: slot_near_def in_window_def)
  have "node_ok X (with_shred node s)" using process_shred_keeps_ok [OF tracksD(1) [OF t] near run] by blast
  moreover have "collect (needed sets) k s = k\<lparr>cr_rows := (cr_rows k)(?i := insert (shred_row s) (cr_rows k ?i))\<rparr>"
    using few by (simp add: collect_def Let_def)
  ultimately show "tracks X sets lo (with_shred node s) (collect (needed sets) k s)"
    using t rows unfolding tracks_def holds_block_def by simp
qed

lemma tracks_completes:
  assumes t: "tracks X sets lo node k" and s: "shred_fits sets lo s"
    and enough: "needed sets (shred_erasure_set_id s) \<le> card (insert (shred_row s) (cr_rows k (shred_erasure_set_id s)))"
    and io: "io_write_data io = None" "io_write_meta io = None"
  shows "\<exists>node'. process_shred X io node s = Inr node' \<and> tracks X sets lo node' (collect (needed sets) k s) \<and>
    ps_total_blocks_recovered (as_stats node') = ps_total_blocks_recovered (as_stats node) + 1"
proof -
  let ?i = "shred_erasure_set_id s"
  let ?S = "sets ?i" and ?b = "updated_batch node s"
  let ?r = "\<lparr> dr_entries = ss_entries ?S, dr_transactions = concat (map en_transactions (ss_entries ?S)) \<rparr>"
  have S: "belongs ?S s" "set_ok ?S" "in_window lo (shred_slot s)" using s by (simp_all add: shred_fits_def)
  note T = tracksD [OF t]
  note rows = updated_batch_rows [OF S(1) T(4)]
  have rec: "try_recover ?b = Inr (Some (ss_data ?S))"
    using set_recovers [OF S(2) rows(1)] enough rows(2) by (simp add: needed_def)
  have near: "slot_near node s" using S(3) T(2) by (simp add: slot_near_def in_window_def)
  have head: "rb_head (as_ring_buffer node) \<le> shred_slot s" using T(3) S(3) by (simp add: in_window_def word_le_nat_alt)
  obtain node' where n: "process_shred X io node s = Inr node'"
    "nd_batches node' = (nd_batches node)(?i := None)" "put (as_ring_buffer node) (block_of X ?b ?r) = Inr (as_ring_buffer node')"
    "\<And>slot. load_slot (as_files node') (as_file_store node') slot =
       (if slot = shred_slot s then Some (concat (ss_data ?S)) else load_slot (as_files node) (as_file_store node) slot)"
    "ps_total_blocks_recovered (as_stats node') = ps_total_blocks_recovered (as_stats node) + 1"
    using process_shred_stores [OF T(1) near head rec set_deshreds [OF S(2)] io] by blast
  have ok: "node_ok X node'" using process_shred_keeps_ok [OF T(1) near n(1)] by blast
  have "fb_slot ?b = shred_slot s" using T(1) updated_batch_ok(2) by (simp add: node_ok_def)
  then have sd: "sd_slot (block_of X ?b ?r) = shred_slot s" by (simp add: block_of_def Let_def)
  have ring: "ring_ok (as_ring_buffer node)" using T(1) by (simp add: node_ok_def)
  have win: "in_window lo (sd_slot (block_of X ?b ?r))" using S(3) sd by simp
  note r = completed_ring [OF ring T(2,3) win n(3), unfolded sd]
  have held: "holds_block X node' (shred_slot s) ?S"
    by (rule block_held [OF S(2)]) (use r(1) n(4) in auto)
  have other: "holds_block X node' slot (sets j)" if "slot \<noteq> shred_slot s" "cr_done k slot = Some j" for slot j
    using T(5) [OF that(2)] r(2) [of slot] that(1) n(4) by (simp add: holds_block_def)
  have "collect (needed sets) k s = k\<lparr>cr_rows := (cr_rows k)(?i := {}), cr_done := (cr_done k)(shred_slot s \<mapsto> ?i),
      cr_count := cr_count k + 1\<rparr>"
    using enough by (simp add: collect_def Let_def slot_of_set)
  then have "tracks X sets lo node' (collect (needed sets) k s)"
    unfolding tracks_def using ok r(1) T(4) T(5) n(2) held other S(3) by (simp split: if_split)
  then show ?thesis using n(1,5) by blast
qed

lemma tracks_shred:
  assumes "tracks X sets lo node k" "shred_fits sets lo s" "io_write_data io = None" "io_write_meta io = None"
  shows "\<exists>node'. process_shred X io node s = Inr node' \<and> tracks X sets lo node' (collect (needed sets) k s) \<and>
    ps_total_blocks_recovered (as_stats node') + word_of_nat (cr_count k) =
      ps_total_blocks_recovered (as_stats node) + word_of_nat (cr_count (collect (needed sets) k s))"
proof (cases "needed sets (shred_erasure_set_id s) \<le> card (insert (shred_row s) (cr_rows k (shred_erasure_set_id s)))")
  case True
  then show ?thesis using tracks_completes [OF assms(1,2) True assms(3,4)]
    by (auto simp: collect_def Let_def)
next
  case False
  then show ?thesis using tracks_waits [OF assms(1,2), of io] 
    by (auto simp: collect_def Let_def with_shred_def note_batch_def)
qed

section \<open>Runs of the client\<close>

text \<open>The client over a list of events; what it sends is left out.\<close>

definition feed :: "('v, 'tx) externals \<Rightarrow> (bytes \<Rightarrow> data_shred_header option) \<Rightarrow> (bytes \<Rightarrow> coding_shred_header option) \<Rightarrow>
    signing_key \<Rightarrow> 'a client \<Rightarrow> 'a event list \<Rightarrow> panic + 'a client" where
  "feed X de_data de_coding our_key c events =
     run_fold (\<lambda>c e. run_bind (client_step X de_data de_coding our_key c e) (\<lambda>(c', sent). Inr c')) c events"

fun event_shred :: "(bytes \<Rightarrow> data_shred_header option) \<Rightarrow> (bytes \<Rightarrow> coding_shred_header option) \<Rightarrow> 'a event \<Rightarrow> shred option" where
  "event_shred de_data de_coding (Packet packet peer io) = packet_shred de_data de_coding packet"
| "event_shred de_data de_coding e = None"

fun writes_succeed :: "'a event \<Rightarrow> bool" where
  "writes_succeed (Packet packet peer io) \<longleftrightarrow> io_write_data io = None \<and> io_write_meta io = None"
| "writes_succeed e \<longleftrightarrow> True"

definition shreds_in :: "(bytes \<Rightarrow> data_shred_header option) \<Rightarrow> (bytes \<Rightarrow> coding_shred_header option) \<Rightarrow> 'a event list \<Rightarrow> shred list" where
  "shreds_in de_data de_coding events = List.map_filter (event_shred de_data de_coding) events"

lemma shreds_in_simps [simp]:
  "shreds_in de_data de_coding [] = []"
  "shreds_in de_data de_coding (e # es) =
     (case event_shred de_data de_coding e of None \<Rightarrow> shreds_in de_data de_coding es
      | Some s \<Rightarrow> s # shreds_in de_data de_coding es)"
  by (simp_all add: shreds_in_def map_filter_simps split: option.split)

lemma handle_packet_shred:
  "packet_shred de_data de_coding packet = Some s \<Longrightarrow> process_shred X io node s = Inr node' \<Longrightarrow>
   handle_packet X de_data de_coding our_key io node packet peer = Inr (node', [])"
  by (auto simp: handle_packet_def packet_shred_def take_shred_def split: option.splits response.splits)

lemma handle_packet_other:
  "packet_shred de_data de_coding packet = None \<Longrightarrow>
   \<exists>sent. handle_packet X de_data de_coding our_key io node packet peer = Inr (node, sent)"
  by (auto simp: handle_packet_def packet_shred_def take_shred_def split: option.splits response.splits)

lemma client_step_other:
  assumes "event_shred de_data de_coding e = None"
  shows "\<exists>c' sent. client_step X de_data de_coding our_key c e = Inr (c', sent) \<and> cl_node c' = cl_node c"
proof (cases e)
  case (Packet packet peer io)
  then show ?thesis using assms handle_packet_other [of de_data de_coding packet X our_key io "cl_node c" peer] by auto
qed (auto split: option.split)

lemma client_step_tracks:
  assumes "tracks X sets lo (cl_node c) k" "\<And>s. event_shred de_data de_coding e = Some s \<Longrightarrow> shred_fits sets lo s"
    and "writes_succeed e" "k' = (case event_shred de_data de_coding e of None \<Rightarrow> k | Some s \<Rightarrow> collect (needed sets) k s)"
  shows "\<exists>c' sent. client_step X de_data de_coding our_key c e = Inr (c', sent) \<and> tracks X sets lo (cl_node c') k' \<and>
    ps_total_blocks_recovered (as_stats (cl_node c')) + word_of_nat (cr_count k) =
      ps_total_blocks_recovered (as_stats (cl_node c)) + word_of_nat (cr_count k')"
proof (cases "event_shred de_data de_coding e")
  case None
  then show ?thesis using assms client_step_other [OF None, of X our_key c] by auto
next
  case (Some s)
  then obtain packet peer io where e: "e = Packet packet peer io" "packet_shred de_data de_coding packet = Some s"
    by (cases e) simp_all
  obtain node' where n: "process_shred X io (cl_node c) s = Inr node'" "tracks X sets lo node' (collect (needed sets) k s)"
    "ps_total_blocks_recovered (as_stats node') + word_of_nat (cr_count k) =
      ps_total_blocks_recovered (as_stats (cl_node c)) + word_of_nat (cr_count (collect (needed sets) k s))"
    using tracks_shred [OF assms(1) assms(2) [OF Some], of io] assms(3) e by auto
  then show ?thesis using handle_packet_shred [OF e(2) n(1), of our_key peer] assms(4) Some by (simp add: e(1))
qed

definition run_ok :: "(bytes \<Rightarrow> data_shred_header option) \<Rightarrow> (bytes \<Rightarrow> coding_shred_header option) \<Rightarrow>
    (erasure_set_id \<Rightarrow> shred_set) \<Rightarrow> u64 \<Rightarrow> 'a event list \<Rightarrow> bool" where
  "run_ok de_data de_coding sets lo events \<longleftrightarrow>
     list_all writes_succeed events \<and> list_all (shred_fits sets lo) (shreds_in de_data de_coding events)"

lemma counts_add: "a1 + k = a + k1 \<Longrightarrow> b + k1 = a1 + k2 \<Longrightarrow> b + k = a + k2" for a :: "'a :: ab_group_add"
proof -
  assume "a1 + k = a + k1" "b + k1 = a1 + k2"
  then have "a1 = a + k1 - k" "b = a1 + k2 - k1" by (simp_all add: eq_diff_eq)
  then show "b + k = a + k2" by simp
qed

lemma feed_tracks:
  "tracks X sets lo (cl_node c) k \<Longrightarrow> run_ok de_data de_coding sets lo events \<Longrightarrow>
   \<exists>c'. feed X de_data de_coding our_key c events = Inr c' \<and>
     tracks X sets lo (cl_node c') (collect_all (needed sets) k (shreds_in de_data de_coding events)) \<and>
     ps_total_blocks_recovered (as_stats (cl_node c')) + word_of_nat (cr_count k) =
       ps_total_blocks_recovered (as_stats (cl_node c)) +
       word_of_nat (cr_count (collect_all (needed sets) k (shreds_in de_data de_coding events)))"
proof (induction events arbitrary: c k)
  case (Cons e events)
  let ?k = "case event_shred de_data de_coding e of None \<Rightarrow> k | Some s \<Rightarrow> collect (needed sets) k s"
  have fits: "shred_fits sets lo s" if "event_shred de_data de_coding e = Some s" for s
    using Cons.prems(2) that by (simp add: run_ok_def)
  have w: "writes_succeed e" using Cons.prems(2) by (simp add: run_ok_def)
  obtain c1 sent where c1: "client_step X de_data de_coding our_key c e = Inr (c1, sent)" "tracks X sets lo (cl_node c1) ?k"
    "ps_total_blocks_recovered (as_stats (cl_node c1)) + word_of_nat (cr_count k) =
      ps_total_blocks_recovered (as_stats (cl_node c)) + word_of_nat (cr_count ?k)"
    using client_step_tracks [OF Cons.prems(1) fits w refl] by blast
  have "run_ok de_data de_coding sets lo events" using Cons.prems(2) by (auto simp: run_ok_def split: option.splits)
  from Cons.IH [OF c1(2) this] obtain c' where c': "feed X de_data de_coding our_key c1 events = Inr c'"
    "tracks X sets lo (cl_node c') (collect_all (needed sets) ?k (shreds_in de_data de_coding events))"
    "ps_total_blocks_recovered (as_stats (cl_node c')) + word_of_nat (cr_count ?k) =
       ps_total_blocks_recovered (as_stats (cl_node c1)) +
       word_of_nat (cr_count (collect_all (needed sets) ?k (shreds_in de_data de_coding events)))" by blast
  have "feed X de_data de_coding our_key c (e # events) = Inr c'" using c1(1) c'(1) by (simp add: feed_def)
  moreover have "collect_all (needed sets) ?k (shreds_in de_data de_coding events) =
      collect_all (needed sets) k (shreds_in de_data de_coding (e # events))"
    by (simp split: option.split)
  ultimately show ?case using c'(2) counts_add [OF c1(3) c'(3)] by auto
qed (simp add: feed_def)

lemma new_client_node [simp]: "cl_node (new_client node) = node"
  by (simp add: new_client_def)

lemma tracks_new:
  assumes "store_ok store"
  shows "tracks X sets lo (new_node store fs) empty_collector"
  using node_ok_new [OF assms, of X fs]
  by (simp add: tracks_def empty_collector_def) (simp add: new_node_def new_ring_buffer_def)

lemma tracks_new_client: "store_ok store \<Longrightarrow> tracks X sets lo (cl_node (new_client (new_node store fs))) empty_collector"
  unfolding new_client_node by (rule tracks_new)

lemma new_node_count: "ps_total_blocks_recovered (as_stats (new_node store fs)) = 0"
  by (simp add: new_node_def new_shared_stats_def)

lemma feed_new:
  assumes "store_ok store" "run_ok de_data de_coding sets lo events"
    and k: "k = collect_all (needed sets) empty_collector (shreds_in de_data de_coding events)"
  shows "\<exists>c'. feed X de_data de_coding our_key (new_client (new_node store fs)) events = Inr c' \<and>
    tracks X sets lo (cl_node c') k \<and> ps_total_blocks_recovered (as_stats (cl_node c')) = word_of_nat (cr_count k)"
proof -
  have "cr_count empty_collector = 0" by (simp add: empty_collector_def)
  moreover note feed_tracks [OF tracks_new_client [OF assms(1)] assms(2), where our_key = our_key]
  ultimately show ?thesis unfolding k by (simp add: new_node_count)
qed

section \<open>What the machine does\<close>

definition rows_of :: "erasure_set_id \<Rightarrow> shred list \<Rightarrow> nat set" where
  "rows_of i ss = shred_row ` {s \<in> set ss. shred_erasure_set_id s = i}"

lemma rows_of_simps [simp]:
  "rows_of i [] = {}"
  "rows_of i (s # ss) = (if shred_erasure_set_id s = i then insert (shred_row s) (rows_of i ss) else rows_of i ss)"
  by (auto simp: rows_of_def)

lemma finite_rows_of [simp]: "finite (rows_of i ss)"
  by (simp add: rows_of_def)

text \<open>In a slot of one set only that set completes.\<close>

definition only_set :: "erasure_set_id \<Rightarrow> shred list \<Rightarrow> bool" where
  "only_set i ss \<longleftrightarrow> (\<forall>s \<in> set ss. shred_slot s = es_slot i \<longrightarrow> shred_erasure_set_id s = i)"

lemma only_set_simps [simp]:
  "only_set i []" "only_set i (s # ss) \<longleftrightarrow> (shred_slot s = es_slot i \<longrightarrow> shred_erasure_set_id s = i) \<and> only_set i ss"
  by (auto simp: only_set_def)

lemma done_stays: "cr_done k (es_slot i) = Some i \<Longrightarrow> only_set i ss \<Longrightarrow> cr_done (collect_all need k ss) (es_slot i) = Some i"
proof (induction ss arbitrary: k)
  case (Cons s ss)
  have "cr_done (collect need k s) (es_slot i) = Some i"
    using Cons.prems by (auto simp: collect_def Let_def slot_of_set)
  then show ?case using Cons by simp
qed simp

lemma enough_rows_complete:
  "finite (cr_rows k i) \<Longrightarrow> card (cr_rows k i) < need i \<Longrightarrow> only_set i ss \<Longrightarrow>
   need i \<le> card (cr_rows k i \<union> rows_of i ss) \<Longrightarrow> cr_done (collect_all need k ss) (es_slot i) = Some i"
proof (induction ss arbitrary: k)
  case (Cons s ss)
  show ?case
  proof (cases "shred_erasure_set_id s = i")
    case False
    then have "cr_rows (collect need k s) i = cr_rows k i" by (simp add: collect_def Let_def)
    then show ?thesis using Cons.IH [of "collect need k s"] Cons.prems False by simp
  next
    case True
    show ?thesis
    proof (cases "need i \<le> card (insert (shred_row s) (cr_rows k i))")
      case full: True
      then have "cr_done (collect need k s) (es_slot i) = Some i" using True by (simp add: collect_def Let_def)
      then show ?thesis using done_stays [of "collect need k s" i ss need] Cons.prems(3) by simp
    next
      case False
      then have "cr_rows (collect need k s) i = insert (shred_row s) (cr_rows k i)" using True by (simp add: collect_def Let_def)
      then show ?thesis using Cons.IH [of "collect need k s"] Cons.prems False True by simp
    qed
  qed
qed simp

text \<open>Different shreds of one set complete it once per \<open>need i\<close> of them.\<close>

lemma count_completions:
  "finite (cr_rows k i) \<Longrightarrow> card (cr_rows k i) < need i \<Longrightarrow> distinct (map shred_row ss) \<Longrightarrow>
   cr_rows k i \<inter> shred_row ` set ss = {} \<Longrightarrow> \<forall>s \<in> set ss. shred_erasure_set_id s = i \<Longrightarrow>
   cr_count (collect_all need k ss) = cr_count k + (card (cr_rows k i) + length ss) div need i"
proof (induction ss arbitrary: k)
  case (Cons s ss)
  have card: "card (insert (shred_row s) (cr_rows k i)) = card (cr_rows k i) + 1"
    using Cons.prems(1,4) by simp
  have s: "shred_erasure_set_id s = i" using Cons.prems(5) by simp
  show ?case
  proof (cases "need i \<le> card (insert (shred_row s) (cr_rows k i))")
    case True
    then have full: "card (cr_rows k i) + 1 = need i" using card Cons.prems(2) by simp
    have "cr_rows (collect need k s) i = {}" "cr_count (collect need k s) = cr_count k + 1"
      using True s by (simp_all add: collect_def Let_def)
    then have "cr_count (collect_all need k (s # ss)) = cr_count k + 1 + length ss div need i"
      using Cons.IH [of "collect need k s"] Cons.prems by simp
    also have "\<dots> = cr_count k + (need i + length ss) div need i" using full by (subst div_add_self1) simp_all
    also have "need i + length ss = card (cr_rows k i) + length (s # ss)" using full by simp
    finally show ?thesis .
  next
    case False
    then have "cr_rows (collect need k s) i = insert (shred_row s) (cr_rows k i)" "cr_count (collect need k s) = cr_count k"
      using s by (simp_all add: collect_def Let_def)
    then show ?thesis using Cons.IH [of "collect need k s"] Cons.prems False card by simp
  qed
qed simp

lemma rows_untouched: "rows_of i ss = {} \<Longrightarrow> cr_rows (collect_all need k ss) i = cr_rows k i"
  by (induction ss arbitrary: k) (auto simp: collect_def Let_def split: if_splits)

section \<open>Enough shreds of a set\<close>

lemma enough_complete:
  assumes "set_ok (sets i)" "needed sets i \<le> card (rows_of i ss)" "only_set i ss"
  shows "cr_done (collect_all (needed sets) empty_collector ss) (es_slot i) = Some i"
proof -
  have "0 < needed sets i" using assms(1) by (simp add: needed_def set_ok_def cauchy_dims_def)
  then show ?thesis using assms(2,3) by (intro enough_rows_complete) (simp_all add: empty_collector_def)
qed

section \<open>A set of 32 and 32 shreds\<close>

definition example_payloads :: "u8 \<Rightarrow> bytes list" where
  "example_payloads v = (stream_bytes [example_entry] @ replicate 842 0) # replicate 31 (replicate 1107 v)"

definition example_set :: "u8 \<Rightarrow> shred_set" where
  "example_set v = \<lparr> ss_data = example_payloads v,
     ss_code = projr (encode (example_payloads v) (generate_cauchy_matrix 32 32) 32), ss_entries = [example_entry] \<rparr>"

definition example_id :: "u32 \<Rightarrow> erasure_set_id" where
  "example_id f = \<lparr> es_slot = 9, es_fec_set_index = f \<rparr>"

text \<open>The sets of slot 9 carry the same entries and differ in the padding.\<close>

definition example_sets :: "erasure_set_id \<Rightarrow> shred_set" where
  "example_sets i = example_set (ucast (es_fec_set_index i))"

definition example_shred :: "u32 \<Rightarrow> nat \<Rightarrow> shred" where
  "example_shred f r =
     (let S = example_sets (example_id f);
          ch = \<lparr> ch_signature = replicate 64 1, ch_shred_variant = (if r < 32 then 0x90 else 0x60), ch_slot = 9,
            ch_index = f + word_of_nat r, ch_version = 7, ch_fec_set_index = f \<rparr>
      in if r < 32
         then MerkleData ch \<lparr> dh_parent_offset = 1, dh_flags = 0, dh_size = 1195 \<rparr> (replicate 32 4) [] (ss_data S ! r)
         else MerkleCode ch \<lparr> cdh_num_data_shreds = 32, cdh_num_coding_shreds = 32, cdh_position = word_of_nat (r - 32) \<rparr>
           (replicate 32 4) [] (ss_code S ! (r - 32)))"

definition example_packets :: "u32 \<Rightarrow> nat list \<Rightarrow> nat event list" where
  "example_packets f rs = map (\<lambda>r. Packet (shred_bytes (example_shred f r) [] @ u32_le 5) 0 quiet_io) rs"

lemma example_payload_size: "shreds_of_size 32 1107 (example_payloads v)"
  by (simp add: shreds_of_size_def example_payloads_def example_stream_length)

lemma example_set_code:
  "shreds_of_size 32 1107 (ss_code (example_set v))"
  "encode (example_payloads v) (generate_cauchy_matrix 32 32) 32 = Inr (ss_code (example_set v))"
proof -
  have "cauchy_dims 32 32" by (simp add: cauchy_dims_def)
  then obtain code where "encode (example_payloads v) (generate_cauchy_matrix 32 32) 32 = Inr code" "shreds_of_size 32 1107 code"
    using rs.enc_total [OF _ example_payload_size] by blast
  then show "shreds_of_size 32 1107 (ss_code (example_set v))"
    "encode (example_payloads v) (generate_cauchy_matrix 32 32) 32 = Inr (ss_code (example_set v))"
    by (simp_all add: example_set_def)
qed

lemma example_set_data [simp]: "ss_data (example_set v) = (example_payloads v)" "ss_entries (example_set v) = [example_entry]"
  by (simp_all add: example_set_def)

lemma length_example_set [simp]: "length (example_payloads v) = 32" "length (ss_code (example_set v)) = 32"
  using example_payload_size example_set_code(1) by (simp_all add: shreds_of_size_def)

lemma example_sets_simps [simp]:
  "ss_data (example_sets i) = example_payloads (ucast (es_fec_set_index i))" "ss_entries (example_sets i) = [example_entry]"
  "length (ss_code (example_sets i)) = 32" "shreds_of_size 32 1107 (ss_code (example_sets i))"
  by (simp_all add: example_sets_def example_set_code)

lemma example_set_ok: "set_ok (example_set v)"
proof -
  have "length (concat (example_payloads v)) \<le> usize_max"
    by (simp add: example_payloads_def example_stream_length usize_max_def length_concat sum_list_replicate)
  moreover have "concat (example_payloads v) = stream_bytes [example_entry] @ replicate 842 0 @ concat (replicate 31 (replicate 1107 v))"
    by (simp add: example_payloads_def)
  ultimately show ?thesis
    using example_payload_size example_set_code(2) example_entry_ok
    by (auto simp: set_ok_def cauchy_dims_def)
qed

lemma example_sets_ok: "set_ok (example_sets i)"
  using example_set_ok by (simp add: example_sets_def)

lemma example_row_small: "r < 64 \<Longrightarrow> unat (word_of_nat r :: u32) = r" "r < 64 \<Longrightarrow> unat (word_of_nat r :: u16) = r"
  by (simp_all add: unat_of_nat)

lemma example_position: "32 \<le> r \<Longrightarrow> r < 64 \<Longrightarrow> unat (word_of_nat r - 32 :: u16) = r - 32"
  using example_row_small(2) [of "r - 32"] by (simp add: of_nat_diff)

lemma example_shred_id [simp]: "shred_erasure_set_id (example_shred f r) = example_id f" "shred_slot (example_shred f r) = 9"
  by (simp_all add: example_shred_def shred_erasure_set_id_def shred_slot_def example_id_def Let_def)

lemma example_shred_row: "r < 64 \<Longrightarrow> shred_row (example_shred f r) = r"
  using example_row_small(1) [of r] example_position [of r] by (simp add: example_shred_def Let_def)

lemma example_shred_belongs: "r < 64 \<Longrightarrow> belongs (example_sets (example_id f)) (example_shred f r)"
proof (cases "r < 32")
  case True
  then show ?thesis using example_row_small(1) [of r]
    by (simp add: example_shred_def Let_def NUM_DATA_SHREDS_def NUM_CODE_SHREDS_def)
next
  case False
  moreover assume "r < 64"
  ultimately have "r - 32 < 32" "unat (word_of_nat r - 32 :: u16) = r - 32" using example_position [of r] by simp_all
  then show ?thesis using False by (simp add: example_shred_def Let_def)
qed

lemma example_shred_ok: "r < 64 \<Longrightarrow> shred_ok (example_shred f r) False"
proof -
  have nth: "length (ss ! j) = 1107" if "shreds_of_size 32 1107 ss" "j < 32" for ss and j :: nat
    using that by (simp add: shreds_of_size_def)
  assume "r < 64"
  then have "r < 32 \<Longrightarrow> length (ss_data (example_sets (example_id f)) ! r) = 1107"
    "length (ss_code (example_sets (example_id f)) ! (r - 32)) = 1107"
    using nth [OF example_payload_size] nth [OF example_sets_simps(4)] by simp_all
  then show ?thesis by (simp add: example_shred_def shred_ok_def Let_def code_length_def shred_sizes)
qed

lemma example_packet_shred:
  "r < 64 \<Longrightarrow> packet_shred le_data_header le_coding_header (shred_bytes (example_shred f r) [] @ u32_le 5) =
    Some (example_shred f r)"
proof -
  assume r: "r < 64"
  let ?bs = "shred_bytes (example_shred f r) []"
  have parse: "parse_from_bytes le_data_header le_coding_header (?bs @ []) = Some (example_shred f r)"
    by (rule shred_roundtrip [OF le_data_header_ok le_coding_header_ok example_shred_ok [OF r]]) simp
  then have "\<not> length ?bs < 83" using parse_short [of ?bs] by auto
  moreover have "hd ?bs = 1" by (simp add: shred_bytes_def example_shred_def common_header_bytes_def Let_def)
  ultimately have "?bs \<noteq> []" "take 4 ?bs \<noteq> [0, 0, 0, 0]" by (cases ?bs; auto)+
  then have "parse_response (?bs @ u32_le 5) = Some (ShredResponse ?bs 5)" by (intro parse_response_shred) simp_all
  then show ?thesis using parse by (simp add: packet_shred_def)
qed

lemma example_shreds_in:
  "\<forall>r \<in> set rs. r < 64 \<Longrightarrow>
   shreds_in le_data_header le_coding_header (example_packets f rs) = map (example_shred f) rs"
  by (induction rs) (simp_all add: example_packets_def example_packet_shred)

lemma example_packets_run:
  assumes "\<forall>r \<in> set rs. r < 64"
  shows "run_ok le_data_header le_coding_header example_sets 0 (example_packets f rs)"
proof -
  have "shred_fits example_sets 0 (example_shred f r)" if "r < 64" for r
    using that by (simp add: shred_fits_def example_shred_belongs example_sets_ok in_window_def usize_max_def)
  then show ?thesis using assms
    by (simp add: run_ok_def example_shreds_in list_all_iff) (auto simp: example_packets_def quiet_io_def)
qed

lemma example_rows:
  "\<forall>r \<in> set rs. r < 64 \<Longrightarrow> rows_of (example_id f) (map (example_shred f) rs) = set rs"
  by (induction rs) (simp_all add: example_shred_row)

lemma example_only: "only_set (example_id f) (map (example_shred f) rs)"
  by (simp add: only_set_def)

section \<open>Properties\<close>

text \<open>The node is an erasure-tolerant store of blocks. From an empty start, let any events come: contacts, timers,
  pings, junk, and packets that carry shreds of well-formed sets, in any order and with repetitions. When they
  carry as many different shreds of a set as it has data shreds, and no other set names its slot, then no event
  panics and at the end the slot holds the block of the set, with the Merkle root and the entries that the sender
  encoded, in the ring buffer and in the files.\<close>

theorem any_packets_publish_block:
  assumes "store_ok store" "set_ok (sets i)" "run_ok de_data de_coding sets lo events"
    and "needed sets i \<le> card (rows_of i (shreds_in de_data de_coding events))"
    and "only_set i (shreds_in de_data de_coding events)"
  shows "\<exists>c'. feed X de_data de_coding our_key (new_client (new_node store fs)) events = Inr c' \<and>
    holds_block X (cl_node c') (es_slot i) (sets i)"
proof -
  let ?k = "collect_all (needed sets) empty_collector (shreds_in de_data de_coding events)"
  obtain c' where c': "feed X de_data de_coding our_key (new_client (new_node store fs)) events = Inr c'"
      "tracks X sets lo (cl_node c') ?k"
    using feed_new [OF assms(1,3) refl] by blast
  have "cr_done ?k (es_slot i) = Some i" by (rule enough_complete [OF assms(2,4,5)])
  then show ?thesis using c' tracksD(5) by blast
qed

text \<open>The 32 code shreds alone, after two data shreds and the repetition of one of them.\<close>

theorem any_packets_publish_block_witness:
  "\<exists>c'. feed example_externals le_data_header le_coding_header example_key
      (new_client (new_node (empty_store ''data'') Map.empty))
      (SlotRpc 9 # example_packets 64 ([3, 7, 3] @ [34..<64])) = Inr c' \<and>
    load_slot (as_files (cl_node c')) (as_file_store (cl_node c')) 9 = Some (concat (example_payloads 64))"
proof -
  let ?rs = "[3, 7, 3] @ [34..<64]"
  have small: "\<forall>r \<in> set ?rs. r < 64" by auto
  have card: "card (set ?rs) = 32" by (simp add: card_insert_if)
  have "run_ok le_data_header le_coding_header example_sets 0 (SlotRpc 9 # example_packets 64 ?rs)"
    using example_packets_run [OF small] by (simp add: run_ok_def)
  moreover have "shreds_in le_data_header le_coding_header (SlotRpc 9 # example_packets 64 ?rs) =
      map (example_shred 64) ?rs"
    using example_shreds_in [OF small] by simp
  moreover have "needed example_sets (example_id 64) \<le> card (rows_of (example_id 64) (map (example_shred 64) ?rs))"
    unfolding example_rows [OF small] card by (simp add: needed_def)
  ultimately have "\<exists>c'. feed example_externals le_data_header le_coding_header example_key
      (new_client (new_node (empty_store ''data'') Map.empty))
      (SlotRpc 9 # example_packets 64 ?rs) = Inr c' \<and>
      holds_block example_externals (cl_node c') (es_slot (example_id 64)) (example_sets (example_id 64))"
    by (intro any_packets_publish_block [OF empty_store_ok example_sets_ok]) (simp_all add: example_only)
  then show ?thesis by (auto simp: holds_block_def example_id_def)
qed

text \<open>C2. Refinement, for runs of honest shreds: over a run of the client in which (1) every shred that parses out of a packet
  belongs to the well-formed set that its identifier names (its payload is a row of that set's encoding and its
  dimensions are the set's), (2) the slots of all these shreds lie in one window of 500, below the top of the range, and (3) every
  file write succeeds - and which is otherwise any list of contacts, timers, slots and packets -
  the node does what the abstract machine does with the shreds. No event panics; every set's batch holds exactly the rows
  of the machine, every slot that the machine has completed holds the block of its last completed set, and the
  counter of recovered blocks counts the completions. Shreds that belong to no such set are not covered: uneven ones
  can make recovery panic (\<open>uneven_shreds_panic\<close>).\<close>

theorem node_refines_collector:
  assumes "store_ok store" "run_ok de_data de_coding sets lo events"
    and "k = collect_all (needed sets) empty_collector (shreds_in de_data de_coding events)"
  shows "\<exists>c'. feed X de_data de_coding our_key (new_client (new_node store fs)) events = Inr c' \<and>
    tracks X sets lo (cl_node c') k \<and> ps_total_blocks_recovered (as_stats (cl_node c')) = word_of_nat (cr_count k)"
  using assms by (rule feed_new)

theorem node_refines_collector_witness:
  "\<exists>c'. feed example_externals le_data_header le_coding_header example_key
      (new_client (new_node (empty_store ''data'') Map.empty)) (example_packets 64 [40, 1, 40]) = Inr c' \<and>
    batch_tracked (example_sets (example_id 64)) (nd_batches (cl_node c') (example_id 64)) {1, 40}"
proof -
  let ?ss = "map (example_shred 64) [40, 1, 40]" and ?need = "needed example_sets"
  have "run_ok le_data_header le_coding_header example_sets 0 (example_packets 64 [40, 1, 40])"
    by (rule example_packets_run) simp
  from node_refines_collector [OF empty_store_ok [of "''data''"] this refl, where our_key = example_key and X = example_externals and fs = Map.empty]
  obtain c' where c': "feed example_externals le_data_header le_coding_header example_key
      (new_client (new_node (empty_store ''data'') Map.empty)) (example_packets 64 [40, 1, 40]) = Inr c'"
    "tracks example_externals example_sets 0 (cl_node c') (collect_all ?need empty_collector ?ss)"
    using example_shreds_in [of "[40, 1, 40]"] by auto
  have "cr_rows (collect_all ?need empty_collector ?ss) (example_id 64) = {1, 40}"
    by (simp add: collect_def Let_def needed_def empty_collector_def example_shred_row card_insert_if) blast
  then show ?thesis using c'(1) tracksD(4) [OF c'(2), of "example_id 64"] by auto
qed

text \<open>C35. A set is not remembered once it is published: of shreds of one set that all differ, every \<open>n\<close> of them (\<open>n\<close> is
  the number of data shreds) publish its block again. The 32 and 32 shreds that the node asks for give the block twice,
  and the counter of recovered blocks reads 2.\<close>

theorem set_published_again:
  assumes "store_ok store" "set_ok (sets i)" "run_ok de_data de_coding sets lo events"
    and "shreds_in de_data de_coding events = ss" "list_all (\<lambda>s. shred_erasure_set_id s = i) ss"
    and "distinct (map shred_row ss)"
  shows "\<exists>c'. feed X de_data de_coding our_key (new_client (new_node store fs)) events = Inr c' \<and>
    ps_total_blocks_recovered (as_stats (cl_node c')) = word_of_nat (length ss div needed sets i)"
proof -
  have "0 < needed sets i" using assms(2) by (simp add: needed_def set_ok_def cauchy_dims_def)
  then have "cr_count (collect_all (needed sets) empty_collector ss) = length ss div needed sets i"
    using count_completions [of empty_collector i "needed sets" ss] assms(5,6)
    by (simp add: empty_collector_def list_all_iff)
  then show ?thesis using feed_new [OF assms(1,3) refl, of X our_key fs] assms(4) by auto
qed

theorem set_published_again_witness:
  "\<exists>c'. feed example_externals le_data_header le_coding_header example_key
      (new_client (new_node (empty_store ''data'') Map.empty)) (example_packets 64 [0..<64]) = Inr c' \<and>
    ps_total_blocks_recovered (as_stats (cl_node c')) = 2"
proof -
  let ?ss = "map (example_shred 64) [0..<64]"
  have run: "run_ok le_data_header le_coding_header example_sets 0 (example_packets 64 [0..<64])"
    by (rule example_packets_run) simp
  have "shreds_in le_data_header le_coding_header (example_packets 64 [0..<64]) = ?ss"
    by (rule example_shreds_in) simp
  moreover have "map shred_row ?ss = [0..<64]" unfolding map_map by (rule map_idI) (simp add: example_shred_row)
  then have "distinct (map shred_row ?ss)" by (simp only: distinct_upt)
  moreover have "list_all (\<lambda>s. shred_erasure_set_id s = (example_id 64)) ?ss" by (simp add: list_all_iff)
  ultimately show ?thesis
    using set_published_again [OF empty_store_ok example_sets_ok run, of ?ss "example_id 64", where our_key = example_key and X = example_externals]
    by (simp add: needed_def del: upt_rec_numeral)
qed

text \<open>C36. A slot keeps one block: when the shreds of one set of a slot have published its block and later those of another
  set of the slot arrive, the second block takes the place of the first in the ring buffer and in the file.\<close>

theorem later_set_replaces_block:
  assumes "store_ok store" "set_ok (sets i)" "set_ok (sets j)" "es_slot i = es_slot j"
    and "concat (ss_data (sets i)) \<noteq> concat (ss_data (sets j))"
    and "run_ok de_data de_coding sets lo events1" "run_ok de_data de_coding sets lo events2"
    and "needed sets i \<le> card (rows_of i (shreds_in de_data de_coding events1))" "only_set i (shreds_in de_data de_coding events1)"
    and "needed sets j \<le> card (rows_of j (shreds_in de_data de_coding events2))" "only_set j (shreds_in de_data de_coding events2)"
  shows "\<exists>c1 c2. feed X de_data de_coding our_key (new_client (new_node store fs)) events1 = Inr c1 \<and>
    holds_block X (cl_node c1) (es_slot i) (sets i) \<and> feed X de_data de_coding our_key c1 events2 = Inr c2 \<and>
    holds_block X (cl_node c2) (es_slot i) (sets j) \<and> \<not> holds_block X (cl_node c2) (es_slot i) (sets i)"
proof -
  let ?need = "needed sets" and ?ss1 = "shreds_in de_data de_coding events1" and ?ss2 = "shreds_in de_data de_coding events2"
  let ?k1 = "collect_all ?need empty_collector ?ss1"
  obtain c1 where c1: "feed X de_data de_coding our_key (new_client (new_node store fs)) events1 = Inr c1"
      "tracks X sets lo (cl_node c1) ?k1"
    using feed_tracks [OF tracks_new_client [OF assms(1)] assms(6)] by blast
  obtain c2 where c2: "feed X de_data de_coding our_key c1 events2 = Inr c2"
      "tracks X sets lo (cl_node c2) (collect_all ?need ?k1 ?ss2)"
    using feed_tracks [OF c1(2) assms(7)] by blast
  have pos: "0 < ?need i" "0 < ?need j" using assms(2,3) by (simp_all add: needed_def set_ok_def cauchy_dims_def)
  have done1: "cr_done ?k1 (es_slot i) = Some i"
    using assms(8,9) pos by (intro enough_rows_complete) (simp_all add: empty_collector_def)
  have "i \<noteq> j" using assms(5) by auto
  then have "rows_of j ?ss1 = {}" using assms(4,9) by (auto simp: rows_of_def only_set_def simp flip: slot_of_set)
  then have "cr_rows ?k1 j = {}" by (simp add: rows_untouched empty_collector_def)
  then have "cr_done (collect_all ?need ?k1 ?ss2) (es_slot j) = Some j"
    using assms(10,11) pos by (intro enough_rows_complete) simp_all
  then have "holds_block X (cl_node c2) (es_slot i) (sets j)" using tracksD(5) [OF c2(2)] assms(4) by simp
  moreover from this have "\<not> holds_block X (cl_node c2) (es_slot i) (sets i)" using assms(5) by (auto simp: holds_block_def)
  ultimately show ?thesis using c1(1) c2(1) tracksD(5) [OF c1(2) done1] by blast
qed

text \<open>The sets 0 and 32 of slot 9, each by its 32 data shreds; both carry the same entries.\<close>

theorem later_set_replaces_block_witness:
  "\<exists>c1 c2. feed example_externals le_data_header le_coding_header example_key
      (new_client (new_node (empty_store ''data'') Map.empty)) (example_packets 0 [0..<32]) = Inr c1 \<and>
    feed example_externals le_data_header le_coding_header example_key c1 (example_packets 32 [0..<32]) = Inr c2 \<and>
    \<not> holds_block example_externals (cl_node c2) 9 (example_sets (example_id 0))"
proof -
  have small: "\<forall>r \<in> set [0..<32]. r < 64" by simp
  have enough: "needed example_sets (example_id f) \<le>
      card (rows_of (example_id f) (shreds_in le_data_header le_coding_header (example_packets f [0..<32])))" for f
    unfolding example_shreds_in [OF small] example_rows [OF small] by (simp add: needed_def del: upt_rec_numeral)
  have only: "only_set (example_id f) (shreds_in le_data_header le_coding_header (example_packets f [0..<32]))" for f
    unfolding example_shreds_in [OF small] by (rule example_only)
  have padding: "set (concat (replicate 31 (replicate 1107 v))) = {v}" for v :: u8 by simp
  then have "concat (replicate 31 (replicate 1107 0)) \<noteq> concat (replicate 31 (replicate 1107 (32 :: u8)))"
    using padding [of 0] padding [of 32] by fastforce
  then have differ: "concat (ss_data (example_sets (example_id 0))) \<noteq> concat (ss_data (example_sets (example_id 32)))"
    by (simp add: example_id_def example_payloads_def)
  show ?thesis
    using later_set_replaces_block [OF empty_store_ok [of "''data''"] example_sets_ok example_sets_ok _ differ example_packets_run [OF small]
        example_packets_run [OF small] enough only enough only, where X = example_externals and our_key = example_key
        and fs = Map.empty]
    by (auto simp: example_id_def)
qed

end
