(* ===== verification/PublicAddress.thy ===== *)
theory PublicAddress
  imports GossipTypes
begin

text \<open>
  The address that the gossip loop publishes (\<^verbatim>\<open>dc-gossip/src/lib.rs\<close>, \<open>fetch_public_ip\<close> and the line that parses its
  result with the port). A string is a list of characters up to U+00FF. The parser is that of the standard library's
  \<open>SocketAddr\<close>: first the dotted form, then the one in brackets; the text between the brackets and what follows is read
  by the argument \<open>de_v6\<close>.
\<close>

section \<open>The code\<close>

definition ENDPOINTS :: "string list" where
  "ENDPOINTS = [''https://api.ipify.org'', ''https://icanhazip.com'', ''https://ifconfig.me/ip'']"

text \<open>What a request comes to: a response with a body, one without, an error, or five seconds without a response.\<close>

datatype http_outcome = Body string | NoBody | RequestFailed | RequestTimedOut

text \<open>\<open>str::trim\<close>.\<close>

definition is_whitespace :: "char \<Rightarrow> bool" where
  "is_whitespace c \<longleftrightarrow> (let n = (of_char c :: nat) in (9 \<le> n \<and> n \<le> 13) \<or> n = 32 \<or> n = 0x85 \<or> n = 0xA0)"

definition trim :: "string \<Rightarrow> string" where
  "trim s = rev (dropWhile is_whitespace (rev (dropWhile is_whitespace s)))"

fun first_address :: "(string \<Rightarrow> http_outcome) \<Rightarrow> string list \<Rightarrow> string" where
  "first_address http [] = ''0.0.0.0''"
| "first_address http (url # urls) =
     (case http url of
        Body t \<Rightarrow> if trim t \<noteq> [] then trim t else first_address http urls
      | _ \<Rightarrow> first_address http urls)"

definition fetch_public_ip :: "(string \<Rightarrow> http_outcome) \<Rightarrow> string" where
  "fetch_public_ip http = first_address http ENDPOINTS"

text \<open>The readers of the parser: a number with an optional limit of digits and a bound, a character, the four octets, the
  port.\<close>

definition is_digit :: "char \<Rightarrow> bool" where "is_digit c \<longleftrightarrow> digit_of c \<noteq> None"

definition digits_value :: "string \<Rightarrow> nat" where
  "digits_value ds = foldl (\<lambda>n c. n * 10 + the (digit_of c)) 0 ds"

definition read_number :: "nat option \<Rightarrow> bool \<Rightarrow> nat \<Rightarrow> string \<Rightarrow> (nat \<times> string) option" where
  "read_number max_digits allow_zero_prefix bound s =
     (let ds = takeWhile is_digit s
      in if (case max_digits of None \<Rightarrow> False | Some m \<Rightarrow> m < length ds) then None
         else if ds = [] then None
         else if \<not> allow_zero_prefix \<and> hd ds = CHR ''0'' \<and> 1 < length ds then None
         else if digits_value ds < bound then Some (digits_value ds, dropWhile is_digit s) else None)"

definition read_given_char :: "char \<Rightarrow> string \<Rightarrow> string option" where
  "read_given_char c s = (case s of [] \<Rightarrow> None | x # rest \<Rightarrow> if x = c then Some rest else None)"

definition read_octet :: "string \<Rightarrow> (nat \<times> string) option" where
  "read_octet = read_number (Some 3) False 256"

definition next_octet :: "string \<Rightarrow> (nat \<times> string) option" where
  "next_octet s = Option.bind (read_given_char CHR ''.'' s) read_octet"

definition read_ipv4 :: "string \<Rightarrow> (u32 \<times> string) option" where
  "read_ipv4 s =
     Option.bind (read_octet s) (\<lambda>(a, s1). Option.bind (next_octet s1) (\<lambda>(b, s2).
     Option.bind (next_octet s2) (\<lambda>(c, s3). Option.bind (next_octet s3) (\<lambda>(d, s4).
       Some (word_of_nat (((a * 256 + b) * 256 + c) * 256 + d), s4)))))"

definition read_port :: "string \<Rightarrow> (u16 \<times> string) option" where
  "read_port s = Option.bind (read_given_char CHR '':'' s) (\<lambda>s1.
     Option.bind (read_number None True 65536 s1) (\<lambda>(n, s2). Some (word_of_nat n, s2)))"

definition read_socket_v4 :: "string \<Rightarrow> (socket_addr \<times> string) option" where
  "read_socket_v4 s = Option.bind (read_ipv4 s) (\<lambda>(ip, s1). Option.bind (read_port s1) (\<lambda>(port, s2).
     Some (\<lparr> sa_ip = V4 ip, sa_port = port \<rparr>, s2)))"

definition read_socket :: "(string \<Rightarrow> (socket_addr \<times> string) option) \<Rightarrow> string \<Rightarrow> (socket_addr \<times> string) option" where
  "read_socket de_v6 s =
     (case read_socket_v4 s of Some r \<Rightarrow> Some r | None \<Rightarrow> Option.bind (read_given_char CHR ''['' s) de_v6)"

definition parse_socket_addr :: "(string \<Rightarrow> (socket_addr \<times> string) option) \<Rightarrow> string \<Rightarrow> socket_addr option" where
  "parse_socket_addr de_v6 s = (case read_socket de_v6 s of Some (a, []) \<Rightarrow> Some a | _ \<Rightarrow> None)"

definition published_addr :: "(string \<Rightarrow> (socket_addr \<times> string) option) \<Rightarrow> (string \<Rightarrow> http_outcome) \<Rightarrow> u16 \<Rightarrow> failure + socket_addr" where
  "published_addr de_v6 http gossip_port =
     or_fail AddrParseFailed (parse_socket_addr de_v6 (fetch_public_ip http @ '':'' @ decimal (unat gossip_port)))"

section \<open>Digits\<close>

lemma digit_char_digit: "d < 10 \<Longrightarrow> is_digit (digit_char d)"
  by (simp add: is_digit_def digit_of_char)

lemma decimal_digits: "c \<in> set (decimal n) \<Longrightarrow> is_digit c"
  using set_decimal [of n] digit_char_digit by auto

lemma digits_value_snoc: "d < 10 \<Longrightarrow> digits_value (ds @ [digit_char d]) = digits_value ds * 10 + d"
  by (simp add: digits_value_def digit_of_char)

lemma digits_value_decimal: "digits_value (decimal n) = n"
proof (induction n rule: decimal.induct)
  case (1 n)
  then show ?case
  proof (cases "n < 10")
    case True
    then show ?thesis using digits_value_snoc [of n "[]"] by (simp add: decimal.simps [of n] digits_value_def digit_of_char)
  next
    case False
    then have "digits_value (decimal n) = n div 10 * 10 + n mod 10"
      using 1 by (simp add: decimal.simps [of n] digits_value_snoc)
    then show ?thesis by simp
  qed
qed

lemma hd_decimal: "0 < n \<Longrightarrow> hd (decimal n) \<noteq> CHR ''0''"
proof (induction n rule: decimal.induct)
  case (1 n)
  show ?case
  proof (cases "n < 10")
    case True
    moreover have "digit_of CHR ''0'' = Some 0" by (simp add: digit_of_def)
    ultimately have "digit_char n \<noteq> CHR ''0''" using 1(2) digit_of_char [of n] by auto
    then show ?thesis using True by (simp add: decimal.simps [of n])
  next
    case False
    then show ?thesis using 1(1) by (simp add: decimal.simps [of n] hd_append)
  qed
qed

lemma decimal_zero: "decimal 0 = ''0''"
  by (simp add: decimal.simps [of 0] digit_char_def char_of_eq_iff)

lemma length_decimal: "n < 10 ^ k \<Longrightarrow> 0 < k \<Longrightarrow> length (decimal n) \<le> k"
proof (induction k arbitrary: n)
  case (Suc k)
  show ?case
  proof (cases "n < 10")
    case False
    then have "n div 10 < 10 ^ k" "0 < k" using Suc.prems(1) by (cases k; auto)+
    then show ?thesis using Suc.IH [of "n div 10"] False by (simp add: decimal.simps [of n])
  qed (simp add: decimal.simps [of n])
qed simp

text \<open>A printed number is read back, up to what cannot be a digit of it.\<close>

lemma read_decimal:
  assumes "n < bound" "rest = [] \<or> \<not> is_digit (hd rest)" "\<And>m. max_digits = Some m \<Longrightarrow> length (decimal n) \<le> m"
  shows "read_number max_digits allow_zero_prefix bound (decimal n @ rest) = Some (n, rest)"
proof -
  have all: "\<forall>c \<in> set (decimal n). is_digit c" using decimal_digits by blast
  then have run: "takeWhile is_digit (decimal n @ rest) = decimal n" "dropWhile is_digit (decimal n @ rest) = rest"
    using assms(2) by (cases rest; simp add: takeWhile_append2 dropWhile_append2)+
  have "hd (decimal n) = CHR ''0'' \<longrightarrow> length (decimal n) = 1" using hd_decimal [of n] decimal_zero by (cases "n = 0") auto
  then show ?thesis
    using assms(1,3) by (auto simp: read_number_def Let_def run digits_value_decimal split: option.split)
qed

section \<open>Addresses\<close>

definition show_ipv4 :: "nat \<Rightarrow> nat \<Rightarrow> nat \<Rightarrow> nat \<Rightarrow> string" where
  "show_ipv4 a b c d = decimal a @ ''.'' @ decimal b @ ''.'' @ decimal c @ ''.'' @ decimal d"

lemma separators: "\<not> is_digit CHR ''.''" "\<not> is_digit CHR '':''"
  by (simp_all add: is_digit_def digit_of_def)

lemma read_octet_decimal: "n < 256 \<Longrightarrow> rest = [] \<or> \<not> is_digit (hd rest) \<Longrightarrow> read_octet (decimal n @ rest) = Some (n, rest)"
  unfolding read_octet_def using length_decimal [of n 3] by (intro read_decimal) simp_all

lemma next_octet_decimal:
  "n < 256 \<Longrightarrow> rest = [] \<or> \<not> is_digit (hd rest) \<Longrightarrow> next_octet (CHR ''.'' # decimal n @ rest) = Some (n, rest)"
  by (simp add: next_octet_def read_given_char_def read_octet_decimal)

lemma read_ipv4_show:
  assumes "a < 256" "b < 256" "c < 256" "d < 256" "rest = [] \<or> \<not> is_digit (hd rest)"
  shows "read_ipv4 (show_ipv4 a b c d @ rest) = Some (word_of_nat (((a * 256 + b) * 256 + c) * 256 + d), rest)"
  using assms by (simp add: read_ipv4_def show_ipv4_def read_octet_decimal next_octet_decimal separators)

lemma read_port_decimal: "read_port (CHR '':'' # decimal (unat (port :: u16))) = Some (port, [])"
proof -
  have "unat port < 65536" using unsigned_less [of port, where 'a = nat] by simp
  then have "read_number None True 65536 (decimal (unat port) @ []) = Some (unat port, [])" by (intro read_decimal) simp_all
  then show ?thesis by (simp add: read_port_def read_given_char_def)
qed

lemma digit_not_whitespace: "is_digit c \<Longrightarrow> \<not> is_whitespace c"
  by (auto simp: is_digit_def digit_of_def is_whitespace_def Let_def split: if_splits)

lemma trim_keeps:
  assumes "list_all is_whitespace ws1" "list_all is_whitespace ws2" "s \<noteq> []" "\<not> is_whitespace (hd s)" "\<not> is_whitespace (last s)"
  shows "trim (ws1 @ s @ ws2) = s"
proof -
  have drop: "dropWhile is_whitespace (ws @ x) = x" if "list_all is_whitespace ws" "x \<noteq> []" "\<not> is_whitespace (hd x)" for ws x
    using that by (cases x) (simp_all add: dropWhile_append2 list_all_iff)
  have "rev (s @ ws2) = rev ws2 @ rev s" "hd (rev s) = last s" using assms(3) by (simp_all add: hd_rev)
  then show ?thesis using assms drop [of ws1 "s @ ws2"] drop [of "rev ws2" "rev s"] by (simp add: trim_def list_all_iff)
qed

section \<open>Texts that are no dotted address\<close>

text \<open>What a reader takes has no colon in it.\<close>

lemma taken_digits: "read_number max_digits zero bound s = Some (n, rest) \<Longrightarrow> \<exists>p. s = p @ rest \<and> CHR '':'' \<notin> set p"
proof -
  assume "read_number max_digits zero bound s = Some (n, rest)"
  then have "rest = dropWhile is_digit s" by (auto simp: read_number_def Let_def split: if_splits option.splits)
  moreover have "CHR '':'' \<notin> set (takeWhile is_digit s)" using separators(2) by (auto dest: set_takeWhileD)
  ultimately show ?thesis by (intro exI [of _ "takeWhile is_digit s"]) simp
qed

lemma taken_char: "read_given_char c s = Some rest \<longleftrightarrow> s = c # rest"
  by (auto simp: read_given_char_def split: list.splits)

lemma taken_next: "next_octet s = Some (n, rest) \<Longrightarrow> \<exists>p. s = p @ rest \<and> CHR '':'' \<notin> set p"
proof -
  assume "next_octet s = Some (n, rest)"
  then obtain s1 where "s = CHR ''.'' # s1" "read_octet s1 = Some (n, rest)"
    by (auto simp: next_octet_def taken_char bind_eq_Some_conv)
  moreover then obtain p where "s1 = p @ rest" "CHR '':'' \<notin> set p" using taken_digits unfolding read_octet_def by blast
  ultimately show ?thesis by (intro exI [of _ "CHR ''.'' # p"]) simp
qed

lemma taken_ipv4:
  assumes "read_ipv4 s = Some (ip, rest)"
  shows "\<exists>p. s = p @ rest \<and> CHR '':'' \<notin> set p"
proof -
  obtain a s1 b s2 c s3 d where o: "read_octet s = Some (a, s1)" "next_octet s1 = Some (b, s2)"
    "next_octet s2 = Some (c, s3)" "next_octet s3 = Some (d, rest)"
    using assms by (auto simp: read_ipv4_def bind_eq_Some_conv)
  obtain p0 where "s = p0 @ s1" "CHR '':'' \<notin> set p0" using taken_digits o(1) unfolding read_octet_def by blast
  moreover obtain p1 where "s1 = p1 @ s2" "CHR '':'' \<notin> set p1" using taken_next [OF o(2)] by blast
  moreover obtain p2 where "s2 = p2 @ s3" "CHR '':'' \<notin> set p2" using taken_next [OF o(3)] by blast
  moreover obtain p3 where "s3 = p3 @ rest" "CHR '':'' \<notin> set p3" using taken_next [OF o(4)] by blast
  ultimately show ?thesis by (intro exI [of _ "p0 @ p1 @ p2 @ p3"]) simp
qed

lemma one_colon:
  assumes "read_socket_v4 s = Some (a, [])"
  shows "count_list s CHR '':'' = 1"
proof -
  obtain ip s1 port where r: "read_ipv4 s = Some (ip, s1)" "read_port s1 = Some (port, [])"
    using assms by (auto simp: read_socket_v4_def bind_eq_Some_conv)
  obtain p where p: "s = p @ s1" "CHR '':'' \<notin> set p" using taken_ipv4 [OF r(1)] by blast
  obtain n ds where ds: "s1 = CHR '':'' # ds" "read_number None True 65536 ds = Some (n, [])"
    using r(2) by (auto simp: read_port_def taken_char bind_eq_Some_conv)
  have "CHR '':'' \<notin> set ds" using taken_digits [OF ds(2)] by auto
  then show ?thesis using p ds(1) by (simp add: count_list_0_iff)
qed

section \<open>Properties\<close>

text \<open>Whatever white space a service puts around it, a dotted address is parsed back with the gossip port: the node
  publishes the address that the first service with a non-empty answer reports.\<close>

theorem dotted_answer_published:
  assumes "http ''https://api.ipify.org'' = Body (ws1 @ show_ipv4 a b c d @ ws2)"
    and "list_all is_whitespace ws1" "list_all is_whitespace ws2" "a < 256" "b < 256" "c < 256" "d < 256"
  shows "published_addr de_v6 http port =
    Inr \<lparr> sa_ip = V4 (word_of_nat (((a * 256 + b) * 256 + c) * 256 + d)), sa_port = port \<rparr>"
proof -
  let ?s = "show_ipv4 a b c d"
  have "hd ?s = hd (decimal a)" "last ?s = last (decimal d)" by (simp_all add: show_ipv4_def hd_append)
  then have "\<not> is_whitespace (hd ?s)" "\<not> is_whitespace (last ?s)"
    using decimal_digits [of "hd (decimal a)" a] decimal_digits [of "last (decimal d)" d] digit_not_whitespace by simp_all
  then have "trim (ws1 @ ?s @ ws2) = ?s" using assms(2,3) by (intro trim_keeps) (simp_all add: show_ipv4_def)
  then have "fetch_public_ip http = ?s" using assms(1) by (simp add: fetch_public_ip_def ENDPOINTS_def show_ipv4_def)
  moreover have "read_socket_v4 (?s @ CHR '':'' # decimal (unat port)) =
      Some (\<lparr> sa_ip = V4 (word_of_nat (((a * 256 + b) * 256 + c) * 256 + d)), sa_port = port \<rparr>, [])"
    using read_ipv4_show [OF assms(4-7)] by (simp add: read_socket_v4_def separators read_port_decimal)
  ultimately show ?thesis by (simp add: published_addr_def parse_socket_addr_def read_socket_def)
qed

theorem dotted_answer_published_witness:
  "published_addr (\<lambda>s. None) (\<lambda>url. Body (''  '' @ show_ipv4 192 0 2 33 @ [CHR 0x0A])) 8001 =
   Inr \<lparr> sa_ip = V4 0xC0000221, sa_port = 8001 \<rparr>"
  using dotted_answer_published [of "\<lambda>url. Body (''  '' @ show_ipv4 192 0 2 33 @ [CHR 0x0A])" "''  ''" 192 0 2 33 "[CHR 0x0A]" "\<lambda>s. None" 8001]
  by (simp add: is_whitespace_def)

text \<open>A service that answers with an IPv6 address stops the gossip task: the address is put before the port without
  brackets, which is no socket address, and the error ends the loop. The fallback 0.0.0.0 is only taken when no
  service answers.\<close>

theorem ipv6_answer_stops_gossip:
  assumes "http ''https://api.ipify.org'' = Body t" "trim t = s" "CHR '':'' \<in> set s" "hd s \<noteq> CHR ''[''"
  shows "published_addr de_v6 http port = Inl (Failed AddrParseFailed) \<and>
    published_addr de_v6 (\<lambda>url. RequestTimedOut) port = Inr \<lparr> sa_ip = V4 0, sa_port = port \<rparr>"
proof (rule conjI)
  have "s \<noteq> []" using assms(3) by auto
  then have ip: "fetch_public_ip http = s" using assms(1,2) by (simp add: fetch_public_ip_def ENDPOINTS_def)
  let ?s = "s @ '':'' @ decimal (unat port)"
  have "0 < count_list s CHR '':''" using assms(3) by (metis count_list_0_iff not_gr_zero)
  then have "count_list ?s CHR '':'' \<noteq> 1" by simp
  then have v4: "read_socket_v4 ?s \<noteq> Some (x, [])" for x using one_colon by blast
  have "read_given_char CHR ''['' ?s = None" using \<open>s \<noteq> []\<close> assms(4) by (cases s) (simp_all add: read_given_char_def)
  then have "parse_socket_addr de_v6 ?s = None"
    using v4 by (auto simp: parse_socket_addr_def read_socket_def split: option.splits list.splits)
  then show "published_addr de_v6 http port = Inl (Failed AddrParseFailed)" by (simp add: published_addr_def ip)
  have "''0.0.0.0'' = show_ipv4 0 0 0 0" by (simp add: show_ipv4_def decimal_zero)
  then have "read_socket_v4 (''0.0.0.0'' @ CHR '':'' # decimal (unat port)) = Some (\<lparr> sa_ip = V4 0, sa_port = port \<rparr>, [])"
    using read_ipv4_show [of 0 0 0 0 "CHR '':'' # decimal (unat port)"] by (simp add: read_socket_v4_def separators read_port_decimal)
  then show "published_addr de_v6 (\<lambda>url. RequestTimedOut) port = Inr \<lparr> sa_ip = V4 0, sa_port = port \<rparr>"
    by (simp add: published_addr_def fetch_public_ip_def ENDPOINTS_def parse_socket_addr_def read_socket_def)
qed

theorem ipv6_answer_stops_gossip_witness:
  "published_addr (\<lambda>s. None) (\<lambda>url. Body ''2001:db8::1'') 8001 = Inl (Failed AddrParseFailed)"
  using ipv6_answer_stops_gossip [of "\<lambda>url. Body ''2001:db8::1''" "''2001:db8::1''" "''2001:db8::1''" "\<lambda>s. None" 8001]
  by (simp add: trim_def is_whitespace_def)

end
