(* ===== verification/Transport.thy ===== *)
theory Transport
  imports GossipTypes
begin

text \<open>
  The socket (\<^verbatim>\<open>dc-gossip/src/transport.rs\<close>) and the client of the address service (\<^verbatim>\<open>dc-gossip/src/ip_echo.rs\<close>), which
  the program does not call. What the operating system does is an argument: the datagram that \<open>recv_from\<close> takes, whether
  a \<open>send_to\<close> succeeds, the bytes that a stream has at a \<open>read\<close>. bincode's writer and reader of the two messages are
  arguments as well.
\<close>

section \<open>The code\<close>

datatype net_error = BindFailed | SendFailed | ReceiveFailed | ConnectFailed | WriteFailed | ReadFailed | BadMessage

definition net_result :: "net_error \<Rightarrow> 'a option \<Rightarrow> net_error + 'a" where
  "net_result e x = (case x of None \<Rightarrow> Inl e | Some y \<Rightarrow> Inr y)"

record transport =
  tr_local :: socket_addr

definition new_transport :: "socket_addr option \<Rightarrow> net_error + transport" where
  "new_transport bound = run_bind (net_result BindFailed bound) (\<lambda>addr. Inr \<lparr> tr_local = addr \<rparr>)"

definition transport_send :: "(bytes \<Rightarrow> socket_addr \<Rightarrow> nat option) \<Rightarrow> bytes \<Rightarrow> socket_addr \<Rightarrow> net_error + unit" where
  "transport_send send_to data to = run_bind (net_result SendFailed (send_to data to)) (\<lambda>n. Inr ())"

definition RECV_BUFFER :: nat where "RECV_BUFFER = 65535"

text \<open>\<open>recv_from\<close> writes the datagram, cut to the buffer, over the front of the buffer, and returns what it wrote.\<close>

definition recv_from :: "bytes \<Rightarrow> bytes \<Rightarrow> bytes \<times> nat" where
  "recv_from buffer datagram =
     (let n = min (length datagram) (length buffer) in (take n datagram @ drop n buffer, n))"

definition transport_recv :: "(bytes \<times> socket_addr) option \<Rightarrow> net_error + bytes \<times> socket_addr" where
  "transport_recv arrived = run_bind (net_result ReceiveFailed arrived) (\<lambda>(datagram, addr).
     let (buffer, n) = recv_from (replicate RECV_BUFFER 0) datagram in Inr (take n buffer, addr))"

definition local_addr :: "transport \<Rightarrow> net_error + socket_addr" where
  "local_addr t = Inr (tr_local t)"

record echo_message =
  em_tcp_ports :: "u16 list"
  em_udp_ports :: "u16 list"

record echo_response =
  er_address :: ip_addr
  er_shred_version :: u16

definition echo_request :: echo_message where
  "echo_request = \<lparr> em_tcp_ports = [0, 0, 0, 0], em_udp_ports = [8001, 0, 0, 0] \<rparr>"

text \<open>\<open>available\<close> is what the stream has when it is read, once; \<open>read\<close> takes as much of it as the buffer holds.\<close>

definition get_cluster_info :: "(echo_message \<Rightarrow> bytes option) \<Rightarrow> (bytes \<Rightarrow> echo_response option) \<Rightarrow> bool \<Rightarrow>
    (bytes \<Rightarrow> bool) \<Rightarrow> bytes option \<Rightarrow> net_error + echo_response" where
  "get_cluster_info ser de connected written available =
     (if \<not> connected then Inl ConnectFailed
      else run_bind (net_result BadMessage (ser echo_request)) (\<lambda>bs.
        if \<not> written bs then Inl WriteFailed
        else run_bind (net_result ReadFailed available) (\<lambda>segment.
          let (response_buf, bytes_read) = recv_from (replicate 1024 0) segment
          in net_result BadMessage (de (take bytes_read response_buf)))))"

section \<open>What arrives\<close>

lemma net_result_simps [simp]: "net_result e None = Inl e" "net_result e (Some x) = Inr x"
  by (simp_all add: net_result_def)

lemma recv_from_taken: "recv_from buffer d = (b, n) \<Longrightarrow> take n b = take (length buffer) d"
  by (auto simp: recv_from_def Let_def min_def)

text \<open>A UDP datagram has at most 65507 bytes, so that it arrives whole.\<close>

lemma recv_whole: "length d \<le> 65507 \<Longrightarrow> transport_recv (Some (d, a)) = Inr (d, a)"
  using recv_from_taken [of "replicate RECV_BUFFER 0" d] by (auto simp: transport_recv_def RECV_BUFFER_def split: prod.split)

text \<open>One \<open>read\<close> is made: a response that comes in two segments is read up to the end of the first.\<close>

lemma one_segment_read:
  assumes "ser echo_request = Some bs" "written bs" "length segment \<le> 1024"
  shows "get_cluster_info ser de True written (Some segment) = net_result BadMessage (de segment)"
proof -
  obtain b n where r: "recv_from (replicate 1024 0) segment = (b, n)" by force
  then show ?thesis using assms recv_from_taken [OF r] by (simp add: get_cluster_info_def)
qed

end
