(* ===== verification/GossipMain.thy ===== *)
theory GossipMain
  imports GossipLoop
begin

text \<open>
  The stand-alone gossip client (\<^verbatim>\<open>dc-gossip/src/main.rs\<close>), which prints what it finds. It differs from the loop of
  the node: any failure to receive resends the ping, the first wait is six attempts, and a pull every five
  seconds sends one request, for the first partition, to every peer. There is no channel and no slot.
\<close>

section \<open>The code\<close>

text \<open>An attempt of the handshake; \<open>token\<close> is the one of the ping that would be sent again.\<close>

definition main_attempt :: "('e, 'b, 'f) gossip_ext \<Rightarrow> (bytes \<Rightarrow> socket_addr \<Rightarrow> bool) \<Rightarrow> gossip_node \<Rightarrow>
    (bytes \<times> socket_addr) option \<Rightarrow> bytes \<Rightarrow> failure + bool \<times> (bytes \<times> socket_addr) list" where
  "main_attempt X net node received token =
     (case received of
        Some (bs, sender) \<Rightarrow>
          run_bind (decode_from (gx_codec X) bs) (\<lambda>msg.
            case msg of PongMessage pong \<Rightarrow> Inr (True, []) | _ \<Rightarrow> Inr (False, []))
      | None \<Rightarrow> run_bind (send_ping X net node token) (\<lambda>sent. Inr (False, sent)))"

fun main_handshake :: "('e, 'b, 'f) gossip_ext \<Rightarrow> (bytes \<Rightarrow> socket_addr \<Rightarrow> bool) \<Rightarrow> gossip_node \<Rightarrow> nat \<Rightarrow>
    (nat \<Rightarrow> (bytes \<times> socket_addr) option) \<Rightarrow> (nat \<Rightarrow> bytes) \<Rightarrow> failure + bool \<times> (bytes \<times> socket_addr) list" where
  "main_handshake X net node 0 received tokens = Inr (False, [])"
| "main_handshake X net node (Suc attempts) received tokens =
     run_bind (main_attempt X net node (received 0) (tokens 0)) (\<lambda>(pong_received, sent).
       if pong_received then Inr (True, sent)
       else run_bind (main_handshake X net node attempts (\<lambda>i. received (Suc i)) (\<lambda>i. tokens (Suc i)))
         (\<lambda>(ok, more_sent). Inr (ok, sent @ more_sent)))"

definition listen_attempt :: "('e, 'b, 'f) gossip_ext \<Rightarrow> (bytes \<Rightarrow> socket_addr \<Rightarrow> bool) \<Rightarrow> gossip_node \<Rightarrow>
    (bytes \<times> socket_addr) option \<Rightarrow> failure + (bytes \<times> socket_addr) list" where
  "listen_attempt X net node received =
     (case received of
        Some (bs, sender) \<Rightarrow>
          (case decode_from (gx_codec X) bs of
             Inl (Panicked p) \<Rightarrow> Inl (Panicked p)
           | Inl (Failed e) \<Rightarrow> Inr []
           | Inr (PingMessage ping) \<Rightarrow> send_pong X net (gn_keypair node) ping sender
           | Inr msg \<Rightarrow> Inr [])
      | None \<Rightarrow> Inr [])"

fun main_listen :: "('e, 'b, 'f) gossip_ext \<Rightarrow> (bytes \<Rightarrow> socket_addr \<Rightarrow> bool) \<Rightarrow> gossip_node \<Rightarrow> nat \<Rightarrow>
    (nat \<Rightarrow> (bytes \<times> socket_addr) option) \<Rightarrow> failure + (bytes \<times> socket_addr) list" where
  "main_listen X net node 0 received = Inr []"
| "main_listen X net node (Suc windows) received =
     run_bind (listen_attempt X net node (received 0)) (\<lambda>sent.
       run_bind (main_listen X net node windows (\<lambda>i. received (Suc i))) (\<lambda>more_sent. Inr (sent @ more_sent)))"

record 'e main_state =
  ms_table :: "'e crds_table"
  ms_known_peers :: "socket_addr list"
  ms_last_pull :: nat
  ms_last_prune :: nat

record main_input =
  mi_ping_token :: bytes
  mi_handshake :: "nat \<Rightarrow> (bytes \<times> socket_addr) option"
  mi_tokens :: "nat \<Rightarrow> bytes"
  mi_timestamp :: u64
  mi_micros :: "nat option"
  mi_listen :: "nat \<Rightarrow> (bytes \<times> socket_addr) option"
  mi_pull_started :: nat
  mi_prune_started :: nat

definition main_start :: "('e, 'b, 'f) gossip_ext \<Rightarrow> (bytes \<Rightarrow> socket_addr \<Rightarrow> bool) \<Rightarrow> gossip_node \<Rightarrow> main_input \<Rightarrow>
    failure + 'e main_state \<times> (bytes \<times> socket_addr) list" where
  "main_start X net node m =
     run_bind (send_ping X net node (mi_ping_token m)) (\<lambda>sent1.
     run_bind (main_handshake X net node 10 (mi_handshake m) (mi_tokens m)) (\<lambda>(pong_received, sent2).
     run_bind (own_contact X node (mi_timestamp m) (mi_micros m)) (\<lambda>contact_info.
     run_bind (create_pull_request_message X contact_info (gn_keypair node)) (\<lambda>initial_pull.
     run_bind (send_checked net initial_pull (gn_entrypoint node)) (\<lambda>sent3.
     run_bind (main_listen X net node 6 (mi_listen m)) (\<lambda>sent4. Inr
       (\<lparr> ms_table = new_table, ms_known_peers = [gn_entrypoint node], ms_last_pull = mi_pull_started m,
          ms_last_prune = mi_prune_started m \<rparr>,
        sent1 @ sent2 @ sent3 @ sent4)))))))"

text \<open>The packet arm.\<close>

definition main_packet :: "('e, 'b, 'f) gossip_ext \<Rightarrow> (bytes \<Rightarrow> socket_addr \<Rightarrow> bool) \<Rightarrow> gossip_node \<Rightarrow> 'e main_state \<Rightarrow>
    bytes \<Rightarrow> socket_addr \<Rightarrow> (bytes \<Rightarrow> nat option) \<Rightarrow> failure + 'e main_state \<times> (bytes \<times> socket_addr) list" where
  "main_packet X net node st bs sender clock =
     (case decode_from (gx_codec X) bs of
        Inl (Panicked p) \<Rightarrow> Inl (Panicked p)
      | Inl (Failed e) \<Rightarrow> Inr (st, [])
      | Inr (PingMessage ping) \<Rightarrow> run_bind (send_pong X net (gn_keypair node) ping sender) (\<lambda>sent. Inr (st, sent))
      | Inr (PongMessage pong) \<Rightarrow> Inr (st, [])
      | Inr msg \<Rightarrow>
          run_bind (handle X net clock (gn_keypair node) msg sender (ms_table st)) (\<lambda>h. Inr
            (st\<lparr>ms_table := hd_table h, ms_known_peers := extend_peers (ms_known_peers st) (hd_new_peers h)\<rparr>, hd_sent h)))"

text \<open>The timer's jobs; \<open>mt_row_clock\<close> is the clock at each printed row.\<close>

record main_timer =
  mt_pull_now :: nat
  mt_pulled_at :: nat
  mt_timestamp :: u64
  mt_micros :: "nat option"
  mt_prune_now :: nat
  mt_pruned_at :: nat
  mt_secs :: "nat option"
  mt_row_clock :: "bytes \<Rightarrow> nat option"

definition main_pull :: "('e, 'b, 'f) gossip_ext \<Rightarrow> (bytes \<Rightarrow> socket_addr \<Rightarrow> bool) \<Rightarrow> gossip_node \<Rightarrow> main_timer \<Rightarrow>
    'e main_state \<Rightarrow> failure + 'e main_state \<times> (bytes \<times> socket_addr) list" where
  "main_pull X net node k st =
     (if 5000 \<le> mt_pull_now k - ms_last_pull st
      then let known = (if ms_known_peers st = [] then [gn_entrypoint node] else ms_known_peers st);
               st' = st\<lparr>ms_known_peers := known, ms_last_pull := mt_pulled_at k\<rparr>
           in run_bind (own_contact X node (mt_timestamp k) (mt_micros k)) (\<lambda>contact_info.
                case create_pull_request_message X contact_info (gn_keypair node) of
                  Inl (Panicked p) \<Rightarrow> Inl (Panicked p)
                | Inl (Failed e) \<Rightarrow> Inr (st', [])
                | Inr bs \<Rightarrow> Inr (st', filter (\<lambda>(m, a). net m a) (map (\<lambda>peer. (bs, peer)) known)))
      else Inr (st, []))"

definition main_prune :: "main_timer \<Rightarrow> 'e main_state \<Rightarrow> failure + 'e main_state \<times> u64 list" where
  "main_prune k st =
     (if 30000 \<le> mt_prune_now k - ms_last_prune st
      then run_bind (prune (mt_secs k) (ms_table st)) (\<lambda>table.
        let infos = get_contact_infos table
        in run_bind (if infos \<noteq> [] then run_map (\<lambda>(pk, ci). contact_age (mt_row_clock k pk) ci) (all_contact_infos table)
                     else Inr []) (\<lambda>rows. Inr
          (st\<lparr>ms_table := table, ms_known_peers := extend_peers (ms_known_peers st) (map snd infos),
              ms_last_prune := mt_pruned_at k\<rparr>, rows)))
      else Inr (st, []))"

datatype main_turn = MainPacket bytes socket_addr "bytes \<Rightarrow> nat option" | MainReceiveError | MainTick main_timer

fun main_step :: "('e, 'b, 'f) gossip_ext \<Rightarrow> (bytes \<Rightarrow> socket_addr \<Rightarrow> bool) \<Rightarrow> gossip_node \<Rightarrow> 'e main_state \<Rightarrow>
    main_turn \<Rightarrow> failure + 'e main_state \<times> (bytes \<times> socket_addr) list" where
  "main_step X net node st (MainPacket bs sender clock) = main_packet X net node st bs sender clock"
| "main_step X net node st MainReceiveError = Inr (st, [])"
| "main_step X net node st (MainTick k) =
     run_bind (main_pull X net node k st) (\<lambda>(st1, sent).
       run_bind (main_prune k st1) (\<lambda>(st2, rows). Inr (st2, sent)))"

section \<open>The start\<close>

lemma main_handshake_sent: "main_handshake X net node n received tokens = Inr (ok, sent) \<Longrightarrow> length sent \<le> n"
proof (induction n arbitrary: received tokens ok sent)
  case (Suc n)
  then obtain b s where a: "main_attempt X net node (received 0) (tokens 0) = Inr (b, s)"
    by (auto elim!: run_bind_InrE)
  then have s: "length s \<le> 1"
    by (auto simp: main_attempt_def send_ping_def send_checked_Inr elim!: run_bind_InrE split: option.splits protocol.splits)
  show ?case
  proof (cases b)
    case True
    then show ?thesis using Suc.prems a s by simp
  next
    case False
    then obtain rest where "main_handshake X net node n (\<lambda>i. received (Suc i)) (\<lambda>i. tokens (Suc i)) = Inr (ok, rest)" "sent = s @ rest"
      using Suc.prems a by (auto elim!: run_bind_InrE)
    then show ?thesis using Suc.IH s by fastforce
  qed
qed simp

lemma main_listen_sent: "main_listen X net node n received = Inr sent \<Longrightarrow> length sent \<le> n"
proof (induction n arbitrary: received sent)
  case (Suc n)
  then obtain s rest where a: "listen_attempt X net node (received 0) = Inr s"
      "main_listen X net node n (\<lambda>i. received (Suc i)) = Inr rest" "sent = s @ rest"
    by (auto elim!: run_bind_InrE)
  then have "length s \<le> 1"
    by (auto simp: listen_attempt_def send_pong_Inr split: option.splits sum.splits failure.splits protocol.splits)
  then show ?case using Suc.IH [OF a(2)] a(3) by simp
qed simp

lemma main_start_Inr:
  assumes "main_start X net node m = Inr (st, sent)"
  shows "st = \<lparr> ms_table = new_table, ms_known_peers = [gn_entrypoint node], ms_last_pull = mi_pull_started m,
      ms_last_prune = mi_prune_started m \<rparr> \<and> length sent \<le> 18"
  using assms by (fastforce simp: main_start_def send_ping_def send_checked_Inr elim!: run_bind_InrE
      dest: main_handshake_sent main_listen_sent)

section \<open>Runs\<close>

inductive main_reachable :: "('e, 'b, 'f) gossip_ext \<Rightarrow> gossip_node \<Rightarrow> 'e main_state \<Rightarrow> bool" for X node where
  main_started: "main_start X net node m = Inr (st, sent) \<Longrightarrow> main_reachable X node st"
| main_turned: "main_reachable X node st \<Longrightarrow> main_step X net node st i = Inr (st', sent) \<Longrightarrow> main_reachable X node st'"

definition main_ok :: "gossip_node \<Rightarrow> 'e main_state \<Rightarrow> bool" where
  "main_ok node st \<longleftrightarrow> table_ok (ms_table st) \<and> distinct (ms_known_peers st) \<and> gn_entrypoint node \<in> set (ms_known_peers st)"

lemmas extend_peers_keeps = set_extend_peers distinct_extend_peers

lemma main_packet_ok: "main_ok node st \<Longrightarrow> main_packet X net node st bs sender clock = Inr (st', sent) \<Longrightarrow> main_ok node st'"
  by (auto simp: main_packet_def main_ok_def extend_peers_keeps elim!: run_bind_InrE dest!: handle_table
      intro: table_ok_merge_all split: sum.splits failure.splits protocol.splits)

lemma main_pull_ok: "main_ok node st \<Longrightarrow> main_pull X net node k st = Inr (st', sent) \<Longrightarrow> main_ok node st'"
  by (auto simp: main_pull_def main_ok_def Let_def elim!: run_bind_InrE split: if_splits sum.splits failure.splits)

lemma main_prune_ok: "main_ok node st \<Longrightarrow> main_prune k st = Inr (st', rows) \<Longrightarrow> main_ok node st'"
  by (auto simp: main_prune_def main_ok_def Let_def extend_peers_keeps elim!: run_bind_InrE dest: table_ok_prune split: if_splits)

lemma main_step_ok: "main_ok node st \<Longrightarrow> main_step X net node st i = Inr (st', sent) \<Longrightarrow> main_ok node st'"
  by (cases i) (auto elim!: run_bind_InrE intro: main_packet_ok main_pull_ok main_prune_ok)

lemma main_reachable_ok: "main_reachable X node st \<Longrightarrow> main_ok node st"
proof (induction rule: main_reachable.induct)
  case (main_started net m st sent)
  then show ?case by (auto dest!: main_start_Inr simp: main_ok_def table_ok_new)
qed (rule main_step_ok)

section \<open>The request of a round\<close>

lemma single_request_mask:
  assumes "create_pull_request_message X ci kp = Inr bs"
  shows "\<exists>f v. cd_ser_protocol (gx_codec X) (PullRequest f v) = Some bs \<and>
    (unat (cf_mask_bits f) \<le> 63 \<longrightarrow>
      (\<forall>h. mask_matches (cf_mask f) (cf_mask_bits f) h \<longleftrightarrow> drop_bit (64 - unat (cf_mask_bits f)) h = 0))"
proof -
  obtain n f v where f: "new_filter (gx_f64 X) (gx_bloom X 0) n 0 = Inr f" "cd_ser_protocol (gx_codec X) (PullRequest f v) = Some bs"
    using assms by (auto simp: create_pull_request_message_def or_fail_Inr elim!: run_bind_InrE split: if_splits)
  have bits: "cf_mask_bits f = mask_bits_for (gx_f64 X) n 0"
    using f(1) new_seeded_mask_bits by (auto simp: new_filter_def)
  have "mask_matches (cf_mask f) (cf_mask_bits f) h \<longleftrightarrow> drop_bit (64 - unat (cf_mask_bits f)) h = 0"
    if b: "unat (cf_mask_bits f) \<le> 63" for h
  proof -
    obtain bloom where "new_seeded (gx_f64 X) (gx_bloom X 0) n 0 0 = Inr
        \<lparr> cf_filter = bloom, cf_mask = push_bit (64 - unat (cf_mask_bits f)) 0 OR drop_bit (unat (cf_mask_bits f)) (- 1),
          cf_mask_bits = cf_mask_bits f \<rparr>"
      using new_seeded_eq [OF bits b, of 0 "gx_bloom X 0"] by auto
    then have "f = \<lparr> cf_filter = bloom, cf_mask = push_bit (64 - unat (cf_mask_bits f)) 0 OR drop_bit (unat (cf_mask_bits f)) (- 1),
          cf_mask_bits = cf_mask_bits f \<rparr>"
      using f(1) by (simp only: new_filter_def sum.inject)
    from arg_cong [OF this, of cf_mask]
    have "cf_mask f = push_bit (64 - unat (cf_mask_bits f)) 0 OR drop_bit (unat (cf_mask_bits f)) (- 1)" by simp
    then show ?thesis using mask_matches_iff [of "unat (cf_mask_bits f)" 0 h] b by (simp add: mask_matches_def)
  qed
  then show ?thesis using f(2) by blast
qed

section \<open>Properties\<close>

text \<open>A due pull of the stand-alone client sends one and the same request to every peer, the entrypoint among them, and
  the request is always for the first partition: only hashes whose top bits are all zero match its mask, so that the
  other partitions are never asked for.\<close>

theorem main_asks_first_partition:
  assumes "main_reachable X node st" "main_step X net node st (MainTick k) = Inr (st', sent)"
    and "5000 \<le> mt_pull_now k - ms_last_pull st"
    and "own_contact X node (mt_timestamp k) (mt_micros k) = Inr ci"
    and "create_pull_request_message X ci (gn_keypair node) = Inr bs"
  shows "sent = filter (\<lambda>(m, a). net m a) (map (\<lambda>peer. (bs, peer)) (ms_known_peers st)) \<and>
    gn_entrypoint node \<in> set (ms_known_peers st) \<and>
    (\<exists>f v. cd_ser_protocol (gx_codec X) (PullRequest f v) = Some bs \<and>
      (unat (cf_mask_bits f) \<le> 63 \<longrightarrow>
        (\<forall>h. mask_matches (cf_mask f) (cf_mask_bits f) h \<longleftrightarrow> drop_bit (64 - unat (cf_mask_bits f)) h = 0)))"
proof -
  have entry: "gn_entrypoint node \<in> set (ms_known_peers st)" using main_reachable_ok [OF assms(1)] by (simp add: main_ok_def)
  then have "ms_known_peers st \<noteq> []" by auto
  then have "sent = filter (\<lambda>(m, a). net m a) (map (\<lambda>peer. (bs, peer)) (ms_known_peers st))"
    using assms(2-5) by (auto simp: main_pull_def elim!: run_bind_InrE)
  then show ?thesis using entry single_request_mask [OF assms(5)] by (intro conjI)
qed

definition example_main_input :: main_input where
  "example_main_input = \<lparr> mi_ping_token = replicate 32 1, mi_handshake = (\<lambda>i. None), mi_tokens = (\<lambda>i. replicate 32 2),
     mi_timestamp = 1700000000000, mi_micros = Some 1700000000000000, mi_listen = (\<lambda>i. None), mi_pull_started = 0,
     mi_prune_started = 0 \<rparr>"

definition example_main_tick :: main_timer where
  "example_main_tick = \<lparr> mt_pull_now = 6000, mt_pulled_at = 6001, mt_timestamp = 1700000006000,
     mt_micros = Some 1700000006000000, mt_prune_now = 6002, mt_pruned_at = 6003, mt_secs = Some 1700000006,
     mt_row_clock = (\<lambda>pk. None) \<rparr>"

definition main_started_state :: "unit main_state" where
  "main_started_state = \<lparr> ms_table = new_table, ms_known_peers = [gn_entrypoint gossip_example_node], ms_last_pull = 0, ms_last_prune = 0 \<rparr>"

lemma main_handshake_no_answer:
  "send_ping X net node token = Inr sent \<Longrightarrow>
   \<exists>sents. main_handshake X net node n (\<lambda>i. None) (\<lambda>i. token) = Inr (False, sents)"
  by (induction n) (auto simp: main_attempt_def)

lemma main_listen_no_answer: "main_listen X net node n (\<lambda>i. None) = Inr []"
  by (induction n) (simp_all add: listen_attempt_def)

lemma example_ping: "\<exists>sent. send_ping example_ext (\<lambda>b a. True) gossip_example_node token = Inr sent"
  by (simp add: send_ping_def send_checked_def encode_to_def example_ext_def)

lemma example_main_reachable: "main_reachable example_ext gossip_example_node main_started_state"
proof -
  obtain sent1 where s1: "send_ping example_ext (\<lambda>b a. True) gossip_example_node (replicate 32 1) = Inr sent1"
    using example_ping by blast
  obtain sent2 where s2: "main_handshake example_ext (\<lambda>b a. True) gossip_example_node 10 (\<lambda>i. None) (\<lambda>i. replicate 32 2) = Inr (False, sent2)"
    using example_ping main_handshake_no_answer by blast
  obtain ci where ci: "own_contact example_ext gossip_example_node 1700000000000 (Some 1700000000000000) = Inr ci"
    using example_own_contact [of 1700000000000000] by auto
  obtain bs where "create_pull_request_message example_ext ci example_keypair = Inr bs"
    using example_request_total(2) [OF ci] by blast
  then have "main_start example_ext (\<lambda>b a. True) gossip_example_node example_main_input =
      Inr (main_started_state, sent1 @ sent2 @ [(bs, gn_entrypoint gossip_example_node)])"
    using s1 s2 ci by (simp add: main_start_def example_main_input_def main_started_state_def send_checked_def
        main_listen_no_answer gossip_example_node_def)
  then show ?thesis by (rule main_started)
qed

theorem main_asks_first_partition_witness:
  "\<exists>st' bs. main_step example_ext (\<lambda>b a. True) gossip_example_node main_started_state (MainTick example_main_tick) =
     Inr (st', [(bs, gn_entrypoint gossip_example_node)])"
proof -
  obtain ci where ci: "own_contact example_ext gossip_example_node (mt_timestamp example_main_tick) (mt_micros example_main_tick) = Inr ci"
    using example_own_contact [of 1700000006000000] by (auto simp: example_main_tick_def)
  then obtain bs where bs: "create_pull_request_message example_ext ci (gn_keypair gossip_example_node) = Inr bs"
    using example_request_total(2) [of "mt_timestamp example_main_tick"]
    by (auto simp: example_main_tick_def gossip_example_node_def)
  have due: "5000 \<le> mt_pull_now example_main_tick - ms_last_pull main_started_state"
    by (simp add: example_main_tick_def main_started_state_def)
  have "\<exists>st' sent. main_step example_ext (\<lambda>b a. True) gossip_example_node main_started_state (MainTick example_main_tick) = Inr (st', sent)"
    using ci bs due by (simp add: main_pull_def) (simp add: main_prune_def example_main_tick_def main_started_state_def)
  then obtain st' sent where step: "main_step example_ext (\<lambda>b a. True) gossip_example_node main_started_state (MainTick example_main_tick) =
      Inr (st', sent)" by blast
  then have "sent = [(bs, gn_entrypoint gossip_example_node)]"
    using main_asks_first_partition [OF example_main_reachable step due ci bs] by (simp add: main_started_state_def)
  then show ?thesis using step by blast
qed

end
