(* ===== verification/SelfTest.thy ===== *)
theory SelfTest
  imports GossipMain
begin

text \<open>
  The report of \<^verbatim>\<open>--self-test\<close> (\<^verbatim>\<open>dc-gossip/src/main.rs\<close>): the sizes and the bytes of a contact info at each level of
  the encoding, a round trip, the node's own signature and the size of a request. What is printed before an error is
  part of the result. The writers of bincode that only the report uses are the record \<open>report_ext\<close>.
\<close>

section \<open>The code\<close>

record 'e report_ext =
  rx_contact :: "'e contact_info \<Rightarrow> bytes option"
  rx_version :: "'e \<Rightarrow> bytes option"
  rx_addrs :: "ip_addr list \<Rightarrow> bytes option"
  rx_sockets :: "socket_entry list \<Rightarrow> bytes option"
  rx_value :: "'e crds_value \<Rightarrow> bytes option"

text \<open>A report is what was printed and how it ended.\<close>

type_synonym report = "string list \<times> (failure + unit)"

definition say :: "string \<Rightarrow> report \<Rightarrow> report" where
  "say s r = (s # fst r, snd r)"

definition attempt :: "failure + 'a \<Rightarrow> ('a \<Rightarrow> report) \<Rightarrow> report" where
  "attempt x f = (case x of Inl e \<Rightarrow> ([], Inl e) | Inr y \<Rightarrow> f y)"

fun join :: "string \<Rightarrow> string list \<Rightarrow> string" where
  "join sep [] = []"
| "join sep [s] = s"
| "join sep (s # t # ss) = s @ sep @ join sep (t # ss)"

definition hex_digit :: "nat \<Rightarrow> char" where
  "hex_digit d = (if d < 10 then digit_char d else char_of (97 + (d - 10)))"

definition byte_hex :: "u8 \<Rightarrow> string" where
  "byte_hex b = [hex_digit (unat b div 16), hex_digit (unat b mod 16)]"

definition hex_bytes :: "bytes \<Rightarrow> string" where
  "hex_bytes bs = join '' '' (map byte_hex bs)"

text \<open>The format \<open>{:02x?}\<close> of a slice.\<close>

definition debug_hex :: "bytes \<Rightarrow> string" where
  "debug_hex bs = ''['' @ join '', '' (map byte_hex bs) @ '']''"

definition slice_to :: "bytes \<Rightarrow> nat \<Rightarrow> failure + bytes" where
  "slice_to bs n = (if n \<le> length bs then Inr (take n bs) else Inl (Panicked IndexOutOfBounds))"

definition newline :: string where "newline = [CHR 0x0A]"

definition report_size :: "string \<Rightarrow> bytes \<Rightarrow> report \<Rightarrow> report" where
  "report_size what bs r = say (what @ '': '' @ decimal (length bs) @ '' bytes'') (say (''Hex: '' @ hex_bytes bs) r)"

definition report_roundtrip :: "bytes \<Rightarrow> bytes \<Rightarrow> report \<Rightarrow> report" where
  "report_roundtrip crds_bytes crds_bytes2 r =
     (if crds_bytes = crds_bytes2 then say ''Round-trip: OK (same bytes)'' r
      else say (''Round-trip: MISMATCH ('' @ decimal (length crds_bytes) @ '' vs '' @ decimal (length crds_bytes2) @ '' bytes)'')
             (say (''  First:  '' @ hex_bytes crds_bytes) (say (''  Second: '' @ hex_bytes crds_bytes2) r)))"

definition report_fit :: "nat \<Rightarrow> report" where
  "report_fit n =
     say (newline @ ''Protocol::PullRequest: '' @ decimal n @ '' bytes (max packet: 1232)'')
       (say (if n \<le> 1232 then ''  Fits ('' @ decimal (1232 - n) @ '' bytes spare)''
             else ''  OVERFLOW by '' @ decimal (n - 1232) @ '' bytes!'') ([], Inr ()))"

text \<open>The parts after the contact info: the data, the signed value, the request.\<close>

definition report_pull :: "('e, 'b, 'f) gossip_ext \<Rightarrow> 'e crds_value \<Rightarrow> report" where
  "report_pull X cv =
     attempt (new_filter (gx_f64 X) (gx_bloom X 0) 512 0) (\<lambda>filter.
     attempt (or_fail SerializeFailed (cd_ser_protocol (gx_codec X) (PullRequest filter cv))) (\<lambda>pr_bytes.
       report_fit (length pr_bytes)))"

definition report_value :: "('e, 'b, 'f) gossip_ext \<Rightarrow> 'e report_ext \<Rightarrow> keypair \<Rightarrow> 'e contact_info \<Rightarrow> bytes \<Rightarrow> report" where
  "report_value X R keypair ci crds_bytes =
     attempt (new_contact_info (gx_crds X) keypair ci) (\<lambda>cv.
     attempt (or_fail SerializeFailed (rx_value R cv)) (\<lambda>cv_bytes.
     say (newline @ ''CrdsValue: '' @ decimal (length cv_bytes) @ '' bytes (sig=64 + data='' @ decimal (length crds_bytes) @ '')'')
     (say (''Hex: '' @ hex_bytes cv_bytes)
     (say (''Signature self-verify: '' @
        (if cx_verify (gx_crds X) (cv_signature cv) (kp_pubkey keypair) crds_bytes then ''OK'' else ''FAIL''))
     (report_pull X cv)))))"

definition report_data :: "('e, 'b, 'f) gossip_ext \<Rightarrow> 'e report_ext \<Rightarrow> keypair \<Rightarrow> 'e contact_info \<Rightarrow> nat \<Rightarrow> report" where
  "report_data X R keypair ci ci_length =
     attempt (or_fail SerializeFailed (cx_ser_data (gx_crds X) (ContactInfo ci))) (\<lambda>crds_bytes.
     say (newline @ ''CrdsData::ContactInfo: '' @ decimal (length crds_bytes) @ '' bytes (expected: 4+'' @ decimal ci_length @ '')'')
     (say (''Hex: '' @ hex_bytes crds_bytes)
     (attempt (slice_to crds_bytes 4) (\<lambda>tag. say (''  [0..4]   CrdsData tag: '' @ debug_hex tag)
     (attempt (slice_from crds_bytes 4) (\<lambda>rest. say (''  [4..]    ContactInfo: '' @ debug_hex rest)
     (attempt (or_fail DecodeError (cd_de_data (gx_codec X) crds_bytes)) (\<lambda>data2.
     attempt (or_fail SerializeFailed (cx_ser_data (gx_crds X) data2)) (\<lambda>crds_bytes2.
     report_roundtrip crds_bytes crds_bytes2
     (report_value X R keypair ci crds_bytes))))))))))"

definition self_test :: "('e, 'b, 'f) gossip_ext \<Rightarrow> 'e report_ext \<Rightarrow> keypair \<Rightarrow> nat option \<Rightarrow> report" where
  "self_test X R keypair micros =
     say ''=== SELF TEST ===''
     (attempt (new_contact (gx_default_version X) micros (kp_pubkey keypair) 1000000
        \<lparr> sa_ip = V4 0x01020304, sa_port = 8001 \<rparr> 11016) (\<lambda>ci.
     attempt (or_fail SerializeFailed (rx_contact R ci)) (\<lambda>ci_bytes. report_size ''ContactInfo alone'' ci_bytes
     (attempt (or_fail SerializeFailed (rx_version R (ci_version ci))) (\<lambda>ver_bytes. report_size ''Version alone'' ver_bytes
     (attempt (or_fail SerializeFailed (rx_addrs R (ci_addrs ci))) (\<lambda>addrs_bytes. report_size ''addrs Vec'' addrs_bytes
     (attempt (or_fail SerializeFailed (rx_sockets R (ci_sockets ci))) (\<lambda>socks_bytes. report_size ''sockets Vec'' socks_bytes
     (report_data X R keypair ci (length ci_bytes)))))))))))"

section \<open>What the report says\<close>

lemma attempt_simps [simp]: "attempt (Inr x) f = f x" "attempt (Inl e) f = ([], Inl e)"
  by (simp_all add: attempt_def)

lemma say_simps [simp]: "fst (say s r) = s # fst r" "snd (say s r) = snd r"
  by (simp_all add: say_def)

lemma report_size_simps [simp]:
  "snd (report_size w bs r) = snd r" "set (fst r) \<subseteq> set (fst (report_size w bs r))"
  by (auto simp: report_size_def)

lemma report_fit_ends [simp]: "snd (report_fit n) = Inr ()"
  by (simp add: report_fit_def)

text \<open>
  The self test passes when bincode writes everything and reads the data back, and the key verifies what it signs. The
  cache of a contact info is not written, and filled by the reader, so that what is read back is not what was written.
\<close>

definition lite_of :: "'e contact_info \<Rightarrow> 'e contact_info_lite" where
  "lite_of ci = \<lparr> lite_pubkey = ci_pubkey ci, lite_wallclock = ci_wallclock ci, lite_outset = ci_outset ci,
     lite_shred_version = ci_shred_version ci, lite_version = ci_version ci, lite_addrs = ci_addrs ci,
     lite_sockets = ci_sockets ci, lite_extensions = ci_extensions ci \<rparr>"

lemma read_back: "contact_info_of_lite (lite_of ci) = ci\<lparr>ci_cache := ci_cache (contact_info_of_lite (lite_of ci))\<rparr>"
  by (simp add: contact_info_of_lite_def lite_of_def)

definition writes_all :: "('e, 'b, 'f) gossip_ext \<Rightarrow> 'e report_ext \<Rightarrow> bool" where
  "writes_all X R \<longleftrightarrow> (\<forall>c. rx_contact R c \<noteq> None) \<and> (\<forall>v. rx_version R v \<noteq> None) \<and> (\<forall>a. rx_addrs R a \<noteq> None) \<and>
     (\<forall>s. rx_sockets R s \<noteq> None) \<and> (\<forall>v. rx_value R v \<noteq> None) \<and> (\<forall>m. cd_ser_protocol (gx_codec X) m \<noteq> None) \<and>
     (\<forall>ci. \<exists>bs. cx_ser_data (gx_crds X) (ContactInfo ci) = Some bs \<and> 4 \<le> length bs \<and>
       cd_de_data (gx_codec X) bs = Some (ContactInfo (contact_info_of_lite (lite_of ci)))) \<and>
     (\<forall>ci cache. cx_ser_data (gx_crds X) (ContactInfo (ci\<lparr>ci_cache := cache\<rparr>)) = cx_ser_data (gx_crds X) (ContactInfo ci))"

definition test_lines :: "string set" where
  "test_lines = {''Round-trip: OK (same bytes)'', ''Signature self-verify: OK''}"

lemma request_reported:
  assumes "writes_all X R" "new_filter (gx_f64 X) (gx_bloom X 0) 512 0 = Inr f"
  shows "snd (report_pull X cv) = Inr ()"
proof -
  obtain bs where "cd_ser_protocol (gx_codec X) (PullRequest f cv) = Some bs"
    using assms(1) unfolding writes_all_def by blast
  then show ?thesis using assms(2) by (simp add: report_pull_def)
qed

lemma value_reported:
  assumes "writes_all X R" "new_filter (gx_f64 X) (gx_bloom X 0) 512 0 = Inr f" "signs_for (gx_crds X) kp"
    and "cx_ser_data (gx_crds X) (ContactInfo ci) = Some bs"
  shows "snd (report_value X R kp ci bs) = Inr () \<and> ''Signature self-verify: OK'' \<in> set (fst (report_value X R kp ci bs))"
proof -
  let ?cv = "\<lparr> cv_signature = kp_sign kp bs, cv_data = ContactInfo ci, cv_hash = cx_sha256 (gx_crds X) bs \<rparr>"
  obtain cv_bytes where "rx_value R ?cv = Some cv_bytes" using assms(1) unfolding writes_all_def by blast
  moreover have "cx_verify (gx_crds X) (kp_sign kp bs) (kp_pubkey kp) bs" using assms(3) by (simp add: signs_for_def)
  ultimately show ?thesis
    using assms(4) request_reported [OF assms(1,2)] by (simp add: report_value_def new_contact_info_def signed_data_def)
qed

lemma data_reported:
  assumes "writes_all X R" "new_filter (gx_f64 X) (gx_bloom X 0) 512 0 = Inr f" "signs_for (gx_crds X) kp"
  shows "snd (report_data X R kp ci n) = Inr () \<and> test_lines \<subseteq> set (fst (report_data X R kp ci n))"
proof -
  obtain bs where bs: "cx_ser_data (gx_crds X) (ContactInfo ci) = Some bs" "4 \<le> length bs"
      "cd_de_data (gx_codec X) bs = Some (ContactInfo (contact_info_of_lite (lite_of ci)))"
    using assms(1) unfolding writes_all_def by blast
  moreover have "cx_ser_data (gx_crds X) (ContactInfo (contact_info_of_lite (lite_of ci))) = Some bs"
    using assms(1) bs(1) by (subst read_back) (simp add: writes_all_def)
  ultimately show ?thesis using value_reported [OF assms bs(1)]
    by (simp add: report_data_def slice_to_def slice_from_def report_roundtrip_def test_lines_def)
qed

theorem self_test_passes:
  assumes "writes_all X R" "new_filter (gx_f64 X) (gx_bloom X 0) 512 0 = Inr f" "signs_for (gx_crds X) kp" "us < 2 ^ 64"
  shows "\<exists>out. self_test X R kp (Some us) = (out, Inr ()) \<and> test_lines \<subseteq> set out"
proof -
  obtain ci where ci: "new_contact (gx_default_version X) (Some us) (kp_pubkey kp) 1000000
      \<lparr> sa_ip = V4 0x01020304, sa_port = 8001 \<rparr> 11016 = Inr ci"
    using assms(4) by (simp add: new_contact_def unix_timestamp_micros_def)
  obtain b1 b2 b3 b4 where "rx_contact R ci = Some b1" "rx_version R (ci_version ci) = Some b2"
      "rx_addrs R (ci_addrs ci) = Some b3" "rx_sockets R (ci_sockets ci) = Some b4"
    using assms(1) unfolding writes_all_def by blast
  then have "snd (self_test X R kp (Some us)) = Inr () \<and> test_lines \<subseteq> set (fst (self_test X R kp (Some us)))"
    using ci data_reported [OF assms(1-3), of ci "length b1"] by (auto simp: self_test_def report_size_def)
  then show ?thesis by (intro exI [of _ "fst (self_test X R kp (Some us))"]) (simp add: prod_eq_iff)
qed

text \<open>A request that is too long is reported.\<close>

lemma self_test_overflow: "1232 < n \<Longrightarrow> fst (report_fit n) =
    [newline @ ''Protocol::PullRequest: '' @ decimal n @ '' bytes (max packet: 1232)'',
     ''  OVERFLOW by '' @ decimal (n - 1232) @ '' bytes!'']"
  by (simp add: report_fit_def say_def)

end
