(* ===== verification/Startup.thy ===== *)
theory Startup
  imports Collector PublicAddress Transport SelfTest
begin

text \<open>
  How the programs start: the arguments and the boot of the node (\<^verbatim>\<open>dc-tvu/src/main.rs\<close>), the first part of the gossip
  loop (\<^verbatim>\<open>dc-gossip/src/lib.rs\<close>) and the stand-alone client from its command line on (\<^verbatim>\<open>dc-gossip/src/main.rs\<close>). Names,
  sockets, directories and services are what the operating system makes of them, arguments of the definitions; so is
  what the command-line parser returns. Then what a node keeps when it is started again.
\<close>

section \<open>Errors of a start\<close>

text \<open>The \<open>anyhow::Error\<close> that ends a start, or its panic.\<close>

datatype start_error =
    NameLookupFailed
  | NoAddress
  | SocketFailed net_error
  | HttpFailed
  | StoreFailed io_error
  | StartFailed failure

definition lift_error :: "('e \<Rightarrow> 'f) \<Rightarrow> 'e + 'a \<Rightarrow> 'f + 'a" where
  "lift_error f x = (case x of Inl e \<Rightarrow> Inl (f e) | Inr y \<Rightarrow> Inr y)"

lemma lift_error_simps [simp, run_simps]: "lift_error f (Inl e) = Inl (f e)" "lift_error f (Inr y) = Inr y"
  by (simp_all add: lift_error_def)

lemma lift_error_Inr [simp]: "lift_error f x = Inr y \<longleftrightarrow> x = Inr y"
  by (cases x) simp_all

definition any_address :: "u16 \<Rightarrow> string" where
  "any_address port = ''0.0.0.0:'' @ decimal (unat port)"

section \<open>The node\<close>

record args =
  ar_rpc_port :: u16
  ar_repair_port :: u16
  ar_gossip_port :: u16
  ar_data_dir :: string
  ar_entrypoint :: string
  ar_slot_rpc :: string

text \<open>The arguments when none is given.\<close>

definition default_args :: args where
  "default_args = \<lparr> ar_rpc_port = 8899, ar_repair_port = 8003, ar_gossip_port = 8001, ar_data_dir = ''data'',
     ar_entrypoint = ''entrypoint.devnet.solana.com:8001'', ar_slot_rpc = ''https://api.devnet.solana.com'' \<rparr>"

text \<open>What the boot has made when the loop is entered: the key, the socket, what the gossip task and the slot poller are
  given, the address of the JSON-RPC server, and the state of the loop.\<close>

record 'a booted =
  bt_our_key :: signing_key
  bt_socket :: socket_addr
  bt_gossip_args :: "u16 \<times> string"
  bt_slot_rpc :: string
  bt_rpc_addr :: socket_addr
  bt_client :: "'a client"

text \<open>What the operating system has: sockets for a written address, the directory of the store, the files.\<close>

record host =
  ho_bind :: "string \<Rightarrow> socket_addr option"
  ho_created :: "io_error + unit"
  ho_listing :: "io_error + (io_error + dir_entry) list"
  ho_files :: file_system

definition boot :: "(string \<Rightarrow> (socket_addr \<times> string) option) \<Rightarrow> (bytes \<Rightarrow> signing_key) \<Rightarrow> host \<Rightarrow> args \<Rightarrow> bytes \<Rightarrow>
    start_error + 'a booted" where
  "boot de_v6 from_bytes H a secret =
     (let our_key = from_bytes secret; repair_bind = any_address (ar_repair_port a) in
      run_bind (lift_error SocketFailed (net_result BindFailed (ho_bind H repair_bind))) (\<lambda>socket.
      run_bind (lift_error StoreFailed (open_store (ho_created H) (ho_listing H) (ar_data_dir a))) (\<lambda>file_store.
      run_bind (lift_error StartFailed (unwrap (parse_socket_addr de_v6 (any_address (ar_rpc_port a))))) (\<lambda>rpc_addr.
      Inr \<lparr> bt_our_key = our_key, bt_socket = socket, bt_gossip_args = (ar_gossip_port a, ar_entrypoint a),
           bt_slot_rpc = ar_slot_rpc a, bt_rpc_addr = rpc_addr,
           bt_client = new_client (new_node file_store (ho_files H)) \<rparr>))))"

text \<open>The task of the JSON-RPC server begins with the bind of its address, which it unwraps.\<close>

definition rpc_task :: "(socket_addr \<Rightarrow> bool) \<Rightarrow> socket_addr \<Rightarrow> failure + unit" where
  "rpc_task bind_tcp rpc_addr = unwrap (if bind_tcp rpc_addr then Some () else None)"

text \<open>The slot poller: the reply of a request, and the slot that it makes the client's.\<close>

datatype json_value =
    JNull
  | JBool bool
  | JUnsigned u64
  | JOtherNumber
  | JString string
  | JArray "json_value list"
  | JObject "(string \<times> json_value) list"

datatype http_reply = ReplyFailed | ReplyNoJson | ReplyJson json_value

fun json_get :: "json_value \<Rightarrow> string \<Rightarrow> json_value option" where
  "json_get (JObject kvs) k = map_of kvs k"
| "json_get v k = None"

fun as_u64 :: "json_value \<Rightarrow> u64 option" where
  "as_u64 (JUnsigned n) = Some n"
| "as_u64 v = None"

definition polled_slot :: "http_reply \<Rightarrow> u64 option" where
  "polled_slot r =
     (case r of ReplyJson v \<Rightarrow> Option.bind (json_get v ''result'') as_u64 | _ \<Rightarrow> None)"

definition poll_event :: "http_reply \<Rightarrow> 'a event list" where
  "poll_event r = (case polled_slot r of None \<Rightarrow> [] | Some s \<Rightarrow> [SlotRpc s])"

section \<open>The gossip loop\<close>

text \<open>\<open>lookup_host(..).await?.next().ok_or_else(..)?\<close>\<close>

definition resolve_first :: "socket_addr list option \<Rightarrow> start_error + socket_addr" where
  "resolve_first looked_up =
     (case looked_up of None \<Rightarrow> Inl NameLookupFailed | Some [] \<Rightarrow> Inl NoAddress | Some (addr # addrs) \<Rightarrow> Inr addr)"

record network =
  nw_lookup :: "string \<Rightarrow> socket_addr list option"
  nw_bind :: "string \<Rightarrow> socket_addr option"
  nw_http :: "string \<Rightarrow> http_outcome"

definition loop_prologue :: "(string \<Rightarrow> (socket_addr \<times> string) option) \<Rightarrow> network \<Rightarrow> keypair \<Rightarrow> u16 \<Rightarrow> string \<Rightarrow>
    start_error + gossip_node \<times> transport" where
  "loop_prologue de_v6 N kp gossip_port entrypoint =
     run_bind (resolve_first (nw_lookup N entrypoint)) (\<lambda>entry_addr.
     run_bind (lift_error SocketFailed (new_transport (nw_bind N (any_address gossip_port)))) (\<lambda>transport.
     run_bind (lift_error StartFailed (published_addr de_v6 (nw_http N) gossip_port)) (\<lambda>gossip_addr.
     Inr (\<lparr> gn_keypair = kp, gn_entrypoint = entry_addr, gn_gossip_addr = gossip_addr \<rparr>, transport))))"

definition run_loop_start :: "(string \<Rightarrow> (socket_addr \<times> string) option) \<Rightarrow> network \<Rightarrow> ('e, 'b, 'f) gossip_ext \<Rightarrow>
    (bytes \<Rightarrow> socket_addr \<Rightarrow> bool) \<Rightarrow> keypair \<Rightarrow> u16 \<Rightarrow> string \<Rightarrow> start_input \<Rightarrow>
    start_error + gossip_node \<times> 'e gossip_state \<times> (bytes \<times> socket_addr) list" where
  "run_loop_start de_v6 N X net kp gossip_port entrypoint s =
     run_bind (loop_prologue de_v6 N kp gossip_port entrypoint) (\<lambda>(node, transport).
     run_bind (lift_error StartFailed (gossip_start X net node s)) (\<lambda>(st, sent). Inr (node, st, sent)))"

section \<open>The stand-alone client\<close>

definition DEVNET_ENTRYPOINT :: string where "DEVNET_ENTRYPOINT = ''entrypoint.devnet.solana.com:8001''"

text \<open>One service is asked, without a limit of time; the text of its answer is not trimmed.\<close>

definition main_public_addr :: "(string \<Rightarrow> (socket_addr \<times> string) option) \<Rightarrow> (string \<Rightarrow> http_outcome) \<Rightarrow>
    start_error + socket_addr" where
  "main_public_addr de_v6 http =
     (case http ''https://api.ipify.org'' of
        Body public_ip \<Rightarrow> lift_error StartFailed (or_fail AddrParseFailed (parse_socket_addr de_v6 (public_ip @ '':8001'')))
      | _ \<Rightarrow> Inl HttpFailed)"

definition main_prologue :: "(string \<Rightarrow> (socket_addr \<times> string) option) \<Rightarrow> network \<Rightarrow> keypair \<Rightarrow>
    start_error + gossip_node \<times> transport" where
  "main_prologue de_v6 N kp =
     run_bind (resolve_first (nw_lookup N DEVNET_ENTRYPOINT)) (\<lambda>entry_addr.
     run_bind (lift_error SocketFailed (new_transport (nw_bind N ''0.0.0.0:8001''))) (\<lambda>transport.
     run_bind (main_public_addr de_v6 (nw_http N)) (\<lambda>gossip_addr.
     Inr (\<lparr> gn_keypair = kp, gn_entrypoint = entry_addr, gn_gossip_addr = gossip_addr \<rparr>, transport))))"

datatype 'e main_run =
    SelfTested report
  | Started "start_error + gossip_node \<times> 'e main_state \<times> (bytes \<times> socket_addr) list"

definition gossip_main :: "string list \<Rightarrow> (string \<Rightarrow> (socket_addr \<times> string) option) \<Rightarrow> network \<Rightarrow> ('e, 'b, 'f) gossip_ext \<Rightarrow>
    'e report_ext \<Rightarrow> (bytes \<Rightarrow> socket_addr \<Rightarrow> bool) \<Rightarrow> keypair \<Rightarrow> nat option \<Rightarrow> main_input \<Rightarrow> 'e main_run" where
  "gossip_main argv de_v6 N X R net kp micros m =
     (if ''--self-test'' \<in> set argv then SelfTested (self_test X R kp micros)
      else Started (run_bind (main_prologue de_v6 N kp) (\<lambda>(node, transport).
        run_bind (lift_error StartFailed (main_start X net node m)) (\<lambda>(st, sent). Inr (node, st, sent)))))"

section \<open>Addresses\<close>

lemma dotted_parses:
  assumes "a < 256" "b < 256" "c < 256" "d < 256"
  shows "parse_socket_addr de_v6 (show_ipv4 a b c d @ '':'' @ decimal (unat port)) =
    Some \<lparr> sa_ip = V4 (word_of_nat (((a * 256 + b) * 256 + c) * 256 + d)), sa_port = port \<rparr>"
  using read_ipv4_show [OF assms, of "CHR '':'' # decimal (unat port)"]
  by (simp add: parse_socket_addr_def read_socket_def read_socket_v4_def read_port_decimal separators)

lemma any_address_parses [simp]: "parse_socket_addr de_v6 (any_address port) = Some \<lparr> sa_ip = V4 0, sa_port = port \<rparr>"
proof -
  have "any_address port = show_ipv4 0 0 0 0 @ '':'' @ decimal (unat port)"
    by (simp add: any_address_def show_ipv4_def decimal_zero)
  then show ?thesis using dotted_parses [of 0 0 0 0 de_v6 port] by simp
qed

lemma decimal_8001: "decimal (unat (8001 :: u16)) = ''8001''"
  by (simp add: decimal.simps digit_char_def char_of_eq_iff)

lemma any_address_8001: "any_address 8001 = ''0.0.0.0:8001''"
  by (simp only: any_address_def decimal_8001) simp

text \<open>A dotted address with whitespace around it is no address.\<close>

lemma digit_not_bracket: "is_digit x \<Longrightarrow> x \<noteq> CHR ''[''"
  by (auto simp: is_digit_def digit_of_def split: if_splits)

lemma no_octet: "\<not> is_digit (hd s) \<Longrightarrow> s \<noteq> [] \<Longrightarrow> read_octet s = None"
  by (cases s) (simp_all add: read_octet_def read_number_def)

lemma padded_refused:
  assumes "a < 256" "b < 256" "c < 256" "d < 256" "list_all is_whitespace ws1" "list_all is_whitespace ws2" "ws1 @ ws2 \<noteq> []"
  shows "parse_socket_addr de_v6 ((ws1 @ show_ipv4 a b c d @ ws2) @ '':8001'') = None"
proof -
  let ?s = "(ws1 @ show_ipv4 a b c d @ ws2) @ '':8001''"
  have white: "\<not> is_digit x \<and> x \<noteq> CHR '':'' \<and> x \<noteq> CHR ''[''" if "is_whitespace x" for x
    using that digit_not_whitespace [of x] by (auto simp: is_whitespace_def Let_def)
  have v4: "read_socket_v4 ?s = None"
  proof (cases "ws1 = []")
    case True
    then obtain w ws where w: "ws2 = w # ws" "is_whitespace w" using assms(6,7) by (cases ws2) auto
    then show ?thesis using read_ipv4_show [OF assms(1-4), of "ws2 @ '':8001''"] white [OF w(2)] True
      by (simp add: read_socket_v4_def read_port_def read_given_char_def)
  next
    case False
    then obtain w ws where w: "ws1 = w # ws" "is_whitespace w" using assms(5) by (cases ws1) auto
    then show ?thesis using white [OF w(2)] by (simp add: read_socket_v4_def read_ipv4_def no_octet)
  qed
  have "hd ?s \<noteq> CHR ''['' \<and> ?s \<noteq> []"
  proof (cases ws1)
    case Nil
    then have "hd ?s = hd (decimal a)" by (simp add: show_ipv4_def hd_append)
    then show ?thesis using decimal_digits [of "hd (decimal a)" a] digit_not_bracket by simp
  next
    case (Cons w ws)
    then show ?thesis using assms(5) white [of w] by simp
  qed
  then have "read_given_char CHR ''['' ?s = None" by (cases ?s) (auto simp: read_given_char_def)
  then show ?thesis using v4 by (simp add: parse_socket_addr_def read_socket_def)
qed

lemma fetch_dotted:
  assumes "http ''https://api.ipify.org'' = Body (ws1 @ show_ipv4 a b c d @ ws2)"
    and "list_all is_whitespace ws1" "list_all is_whitespace ws2"
  shows "fetch_public_ip http = show_ipv4 a b c d"
proof -
  let ?s = "show_ipv4 a b c d"
  have "hd ?s = hd (decimal a)" "last ?s = last (decimal d)" by (simp_all add: show_ipv4_def hd_append)
  then have "\<not> is_whitespace (hd ?s)" "\<not> is_whitespace (last ?s)"
    using decimal_digits [of "hd (decimal a)" a] decimal_digits [of "last (decimal d)" d] digit_not_whitespace by simp_all
  then have "trim (ws1 @ ?s @ ws2) = ?s" using assms(2,3) by (intro trim_keeps) (simp_all add: show_ipv4_def)
  then show ?thesis using assms(1) by (simp add: fetch_public_ip_def ENDPOINTS_def show_ipv4_def)
qed

section \<open>The directory of a run\<close>

text \<open>While the writes succeed, the directory holds the files of the slots of the index and nothing else.\<close>

definition files_ok :: "string \<Rightarrow> node \<Rightarrow> bool" where
  "files_ok dir node \<longleftrightarrow> dir_of (as_files node) (as_file_store node) \<and> ff_data_dir (as_file_store node) = dir"

lemma publish_files:
  assumes "publish X io node b recovered result = Inr node'" "files_ok dir node" "io_write_data io = None" "io_write_meta io = None"
  shows "files_ok dir node'"
proof -
  obtain fs store saved where p: "save_slot None None (as_files node) (as_file_store node) (fb_slot b) (concat recovered) = (fs, store, saved)"
    "as_files node' = fs" "as_file_store node' = store"
    using assms(1,3,4) by (auto simp: publish_def Let_def elim!: run_bind_InrE split: prod.splits)
  have saved: "saved = Inr ()" "ff_data_dir store = ff_data_dir (as_file_store node)" using p(1) by (auto simp: save_slot_ok)
  then show ?thesis using dir_of_save [OF _ p(1) [unfolded saved(1)]] assms(2) p(2,3) by (simp add: files_ok_def)
qed

lemma process_shred_files:
  assumes "process_shred X io node s = Inr node'" "files_ok dir node" "io_write_data io = None" "io_write_meta io = None"
  shows "files_ok dir node'"
proof -
  have with_s: "files_ok dir (with_shred node s)" using assms(2) by (simp add: files_ok_def)
  consider p where "try_recover (updated_batch node s) = Inl p" | "try_recover (updated_batch node s) = Inr None"
    | data where "try_recover (updated_batch node s) = Inr (Some data)"
    by (cases "try_recover (updated_batch node s)") (auto intro: option.exhaust)
  then show ?thesis
  proof cases
    case 1
    then show ?thesis using assms(1) process_shred_panic [OF 1, of X io] by simp
  next
    case 2
    then show ?thesis using assms(1) process_shred_waits [OF 2, of X io] with_s by simp
  next
    case (3 data)
    then obtain n where n: "(case deshred_into_txs data of None \<Rightarrow> Inr (with_shred node s)
         | Some result \<Rightarrow> publish X io (with_shred node s) (updated_batch node s) data result) = Inr n"
      "as_files node' = as_files n" "as_file_store node' = as_file_store n"
      using assms(1) process_shred_recovers [OF 3, of X io] by (auto elim!: run_bind_InrE)
    then have "files_ok dir n" using with_s publish_files assms(3,4) by (auto split: option.splits)
    then show ?thesis using n by (simp add: files_ok_def)
  qed
qed

lemma client_step_files:
  assumes "client_step X de_data de_coding our_key c e = Inr (c', sent)" "files_ok dir (cl_node c)" "writes_succeed e"
  shows "files_ok dir (cl_node c')"
proof (cases "event_shred de_data de_coding e")
  case None
  then show ?thesis using assms client_step_other [OF None, of X our_key c] by auto
next
  case (Some s)
  then obtain packet peer io where e: "e = Packet packet peer io" "packet_shred de_data de_coding packet = Some s"
    by (cases e) simp_all
  have "handle_packet X de_data de_coding our_key io (cl_node c) packet peer =
      run_bind (process_shred X io (cl_node c) s) (\<lambda>node'. Inr (node', []))"
    using e(2) by (auto simp: handle_packet_def packet_shred_def take_shred_def split: option.splits response.splits)
  then have "process_shred X io (cl_node c) s = Inr (cl_node c')" using assms(1) e(1) by (auto elim!: run_bind_InrE)
  from process_shred_files [OF this assms(2)] show ?thesis using assms(3) e(1) by simp
qed

lemma feed_files:
  "feed X de_data de_coding our_key c events = Inr c' \<Longrightarrow> list_all writes_succeed events \<Longrightarrow> files_ok dir (cl_node c) \<Longrightarrow>
   files_ok dir (cl_node c')"
proof (induction events arbitrary: c)
  case (Cons e events)
  obtain c1 sent where "client_step X de_data de_coding our_key c e = Inr (c1, sent)"
    "feed X de_data de_coding our_key c1 events = Inr c'"
    using Cons.prems(1) by (auto simp: feed_def elim!: run_bind_InrE)
  then show ?case using Cons client_step_files by fastforce
qed (simp add: feed_def)

lemma directory_listed:
  assumes "dir_of fs st"
  shows "\<exists>es. lists_dir fs (ff_data_dir st) es"
proof -
  let ?N = "{n. fs (ff_data_dir st, n) \<noteq> None}" and ?K = "fst ` set (ff_index st)"
  have "?N \<subseteq> data_file ` ?K \<union> meta_file ` ?K"
    using assms by (force simp: dir_of_def has_slot_def map_of_eq_None_iff)
  then have fin: "finite ?N" by (rule finite_subset) simp
  obtain names where names: "set names = ?N" "distinct names" using finite_distinct_list [OF fin] by (elim exE conjE)
  let ?es = "map (\<lambda>n. Inr \<lparr> de_name = Utf8 n, de_len = Inr (word_of_nat (length (the (fs (ff_data_dir st, n))))) \<rparr>) names"
  have "lists_dir fs (ff_data_dir st) ?es" unfolding lists_dir_def by (rule exI [of _ names]) (simp only: names simp_thms)
  then show ?thesis ..
qed

section \<open>Starts\<close>

lemma boot_Inr:
  assumes "boot de_v6 from_bytes H a secret = Inr b"
  shows "\<exists>store. open_store (ho_created H) (ho_listing H) (ar_data_dir a) = Inr store \<and>
    bt_client b = new_client (new_node store (ho_files H))"
  using assms by (auto simp: boot_def Let_def elim!: run_bind_InrE)

lemma boot_opened:
  assumes "ho_bind H (any_address (ar_repair_port a)) = Some addr" "open_store (ho_created H) (ho_listing H) (ar_data_dir a) = Inr store"
  shows "\<exists>b. boot de_v6 from_bytes H a secret = Inr b \<and> bt_client b = new_client (new_node store (ho_files H))"
  using assms by (simp add: boot_def)

text \<open>The loops of both gossip programs are entered in a state of a run.\<close>

lemma loop_start_reachable:
  "run_loop_start de_v6 N X net kp port entrypoint s = Inr (node, st, sent) \<Longrightarrow> gossip_reachable X node st"
  by (auto simp: run_loop_start_def elim!: run_bind_InrE intro: started)

lemma gossip_main_reachable:
  "gossip_main argv de_v6 N X R net kp micros m = Started (Inr (node, st, sent)) \<Longrightarrow> main_reachable X node st"
  by (auto simp: gossip_main_def elim!: run_bind_InrE intro: main_started split: if_splits)

section \<open>Properties\<close>

text \<open>C3. From the packets to the answers of the next run. A node boots with an empty directory and takes a list of events in
  which (1) every shred that parses out of a packet, of whatever slot, belongs to the well-formed set that its identifier
  names, (2) the slots of all these shreds lie in one window of 500, (3) every file write succeeds, (4) no shred of the slot
  of set \<open>i\<close> is of another set, and (5) there are as many different shreds of set \<open>i\<close> as it has data shreds; contacts,
  timers, slots and packets that are no shreds may come between them. Then it is stopped. When it boots again with
  what is then in the directory, listed in any order, the server finds the block of set \<open>i\<close>: the transactions that
  the sender encoded, and their Merkle tree. Without (4) the last completed set of the slot would be found
  (\<open>later_set_replaces_block\<close>); without (1) the node may have been stopped by a panic.\<close>

theorem restart_serves_collected:
  assumes "boot de_v6 from_bytes H a secret = Inr (b :: 'p booted)" "ho_listing H = Inr []" "\<And>n. ho_files H (ar_data_dir a, n) = None"
    and "set_ok (sets i)" "run_ok de_data de_coding sets lo events"
    and "needed sets i \<le> card (rows_of i (shreds_in de_data de_coding events))" "only_set i (shreds_in de_data de_coding events)"
    and "feed X de_data de_coding (bt_our_key b) (bt_client b) events = Inr c"
    and "lists_dir (as_files (cl_node c)) (ar_data_dir a) es"
    and "H' = H\<lparr>ho_created := Inr (), ho_listing := Inr es, ho_files := as_files (cl_node c)\<rparr>"
    and "txs = concat (map en_transactions (ss_entries (sets i)))"
  shows "\<exists>b' :: 'p booted. boot de_v6 from_bytes H' a secret' = Inr b' \<and>
    load_slot_data X (\<lambda>_. app_state.truncate (cl_node (bt_client b'))) (es_slot i) =
      Inr (Some (parse_transactions X txs, merkle_new (x_sha256 X) txs))"
proof -
  let ?dir = "ar_data_dir a"
  have b: "bt_client b = new_client (new_node (empty_store ?dir) (ho_files H))"
    using boot_Inr [OF assms(1)] assms(2) by (auto simp: open_store_def empty_store_def elim!: run_bind_InrE)
  have "store_ok (empty_store ?dir)" by (rule empty_store_ok)
  then have "holds_block X (cl_node c) (es_slot i) (sets i)"
    using any_packets_publish_block [OF _ assms(4-7), of "empty_store ?dir" X "bt_our_key b" "ho_files H"] assms(8) by (simp add: b)
  then have load: "load_slot (as_files (cl_node c)) (as_file_store (cl_node c)) (es_slot i) = Some (concat (ss_data (sets i)))"
    by (simp add: holds_block_def)
  have "files_ok ?dir (new_node (empty_store ?dir) (ho_files H))"
    using assms(3) by (simp add: files_ok_def new_node_def dir_of_def empty_store_ok) (simp add: empty_store_def has_slot_def)
  then have f: "dir_of (as_files (cl_node c)) (as_file_store (cl_node c))" "ff_data_dir (as_file_store (cl_node c)) = ?dir"
    using feed_files [OF assms(8)] assms(5) by (simp_all add: b run_ok_def files_ok_def)
  obtain store where store: "open_store (Inr ()) (Inr es) ?dir = Inr store"
    "load_slot (as_files (cl_node c)) store (es_slot i) = Some (concat (ss_data (sets i)))"
    using reopened [OF f(1), unfolded f(2), OF assms(9)] load by auto
  obtain addr where "ho_bind H (any_address (ar_repair_port a)) = Some addr"
    using assms(1) by (cases "ho_bind H (any_address (ar_repair_port a))") (auto simp: boot_def)
  then obtain b' :: "'p booted" where b': "boot de_v6 from_bytes H' a secret' = Inr b'" "bt_client b' = new_client (new_node store (as_files (cl_node c)))"
    using boot_opened [of H' a addr store de_v6 from_bytes secret'] store(1) by (auto simp: assms(10))
  have deshred: "deshred_into_txs [concat (ss_data (sets i))] = Some \<lparr> dr_entries = ss_entries (sets i), dr_transactions = txs \<rparr>"
    using set_deshreds [OF assms(4)] by (simp add: deshred_concat assms(11))
  have "get (new_ring_buffer 500) (es_slot i) = Inr None" by (simp add: get_def new_ring_buffer_def)
  then have "load_slot_data X (\<lambda>_. app_state.truncate (cl_node (bt_client b'))) (es_slot i) =
      Inr (Some (parse_transactions X txs, merkle_new (x_sha256 X) txs))"
    using load_from_file [OF _ _ deshred, of "\<lambda>_. app_state.truncate (cl_node (bt_client b'))" "es_slot i" X] store(2)
    by (simp add: b'(2) new_node_def app_state.defs)
  then show ?thesis using b'(1) by blast
qed

definition example_host :: "(io_error + dir_entry) list \<Rightarrow> file_system \<Rightarrow> host" where
  "example_host es fs = \<lparr> ho_bind = (\<lambda>s. Some \<lparr> sa_ip = V4 0, sa_port = 8003 \<rparr>), ho_created = Inr (), ho_listing = Inr es,
     ho_files = fs \<rparr>"

lemma example_boot:
  "\<exists>b :: nat booted. boot (\<lambda>s. None) (\<lambda>s. example_key) (example_host [] Map.empty) default_args [] = Inr b \<and>
    bt_our_key b = example_key \<and> bt_client b = new_client (new_node (empty_store ''data'') Map.empty)"
  by (simp add: boot_def example_host_def default_args_def open_store_def) (simp add: empty_store_def)

theorem restart_serves_collected_witness:
  "\<exists>fs es. \<exists>b :: nat booted. lists_dir fs ''data'' es \<and>
    boot (\<lambda>s. None) (\<lambda>s. example_key) (example_host es fs) default_args [1] = Inr b \<and>
    load_slot_data example_externals (\<lambda>_. app_state.truncate (cl_node (bt_client b))) 9 \<noteq> Inr None"
proof -
  let ?rs = "[3, 7] @ [34..<64]" and ?H = "example_host [] Map.empty"
  let ?events = "example_packets 64 ?rs"
  obtain b :: "nat booted" where b: "boot (\<lambda>s. None) (\<lambda>s. example_key) ?H default_args [] = Inr b"
    "bt_our_key b = example_key" "bt_client b = new_client (new_node (empty_store ''data'') Map.empty)"
    using example_boot by blast
  have small: "\<forall>r \<in> set ?rs. r < 64" by auto
  have card: "card (set ?rs) = 32" by (simp add: card_insert_if)
  note run = example_packets_run [OF small, of 64] and shreds = example_shreds_in [OF small, of 64]
  have enough: "needed example_sets (example_id 64) \<le> card (rows_of (example_id 64) (shreds_in le_data_header le_coding_header ?events))"
    unfolding shreds example_rows [OF small] card by (simp add: needed_def)
  have only: "only_set (example_id 64) (shreds_in le_data_header le_coding_header ?events)"
    unfolding shreds by (rule example_only)
  obtain c where c: "feed example_externals le_data_header le_coding_header (bt_our_key b) (bt_client b) ?events = Inr c"
    using any_packets_publish_block [OF empty_store_ok example_sets_ok run enough only, where our_key = example_key] b(2,3) by fastforce
  have "list_all writes_succeed ?events" using run by (simp add: run_ok_def)
  moreover have "files_ok ''data'' (new_node (empty_store ''data'') Map.empty)"
    by (simp add: files_ok_def new_node_def dir_of_def empty_store_ok) (simp add: empty_store_def has_slot_def)
  ultimately have "files_ok ''data'' (cl_node c)" using feed_files [OF c] b(3) by simp
  then obtain es where es: "lists_dir (as_files (cl_node c)) ''data'' es"
    using directory_listed [of "as_files (cl_node c)" "as_file_store (cl_node c)"] by (auto simp: files_ok_def)
  have host: "example_host es (as_files (cl_node c)) = ?H\<lparr>ho_created := Inr (), ho_listing := Inr es, ho_files := as_files (cl_node c)\<rparr>"
    "ho_listing ?H = Inr []" "ho_files ?H p = None" "ar_data_dir default_args = ''data''" for p
    by (simp_all add: example_host_def default_args_def)
  obtain b' :: "nat booted" where "boot (\<lambda>s. None) (\<lambda>s. example_key) (example_host es (as_files (cl_node c))) default_args [1] = Inr b'"
    "load_slot_data example_externals (\<lambda>_. app_state.truncate (cl_node (bt_client b'))) (es_slot (example_id 64)) \<noteq> Inr None"
    using restart_serves_collected [OF b(1) host(2) host(3) example_sets_ok run enough only c es [folded host(4)] host(1) refl, of "[1]"]
    by auto
  then show ?thesis using es by (auto simp: example_id_def)
qed

text \<open>C30. What a failed write leaves is a block after the next start: let a store and its directory agree, and let the slot be one
  that is not stored yet. When the write of its data fails with some of it in the file, the slot is not in the index, as
  \<open>save_slot\<close> says; but the scan of the next start takes the file, and the slot is then read with those bytes.\<close>

theorem failed_write_served_after_restart:
  assumes "dir_of fs st" "\<not> has_slot st slot" "lists_dir fs' (ff_data_dir st) es"
    and "save_slot (Some (e, Some part)) w2 fs st slot entries = (fs', st', result)"
  shows "result = Inl e \<and> \<not> has_slot st' slot \<and>
    (\<exists>st2. open_store (Inr ()) (Inr es) (ff_data_dir st) = Inr st2 \<and> load_slot fs' st2 slot = Some part)"
proof -
  let ?dir = "ff_data_dir st" and ?len = "\<lambda>n. word_of_nat (length (the (fs' (ff_data_dir st, n)))) :: u64"
  have s: "fs' = fs((?dir, data_file slot) \<mapsto> part)" "st' = st" "result = Inl e"
    using assms(4) by (auto simp: save_slot_def fs_write_def Let_def data_file_def)
  obtain names where names: "set names = {n. fs' (?dir, n) \<noteq> None}"
    "es = map (\<lambda>n. Inr \<lparr> de_name = Utf8 n, de_len = Inr (?len n) \<rparr>) names"
    using assms(3) by (auto simp: lists_dir_def)
  have "\<forall>n \<in> set names. \<exists>k. n = data_file k \<or> n = meta_file k"
    using assms(1) by (auto simp: names(1) s(1) dir_of_def split: if_splits)
  then obtain m where m: "scan_dir ?dir es [] = Inr m"
    "map_of m slot = (if data_file slot \<in> set names then Some (info_of_slot ?dir slot (?len (data_file slot))) else None)"
    using scan_names [of names "[]" ?dir ?len] names(2) by auto
  have "data_file slot \<in> set names" by (simp add: names(1) s(1))
  then have "load_slot fs' \<lparr> ff_data_dir = ?dir, ff_index = m \<rparr> slot = Some part"
    using m(2) by (simp add: load_slot_def info_of_slot_def s(1))
  then show ?thesis using s(2,3) assms(2) m(1) by (simp add: open_store_def)
qed

theorem failed_write_served_after_restart_witness:
  "\<exists>fs st st2. save_slot (Some (IoError 28, Some [1])) None Map.empty (empty_store ''data'') 7 [1, 2, 3] = (fs, st, Inl (IoError 28)) \<and>
     open_store (Inr ()) (Inr [Inr \<lparr> de_name = Utf8 (data_file 7), de_len = Inr 1 \<rparr>]) ''data'' = Inr st2 \<and> load_slot fs st2 7 = Some [1]"
proof -
  obtain fs st r where s: "save_slot (Some (IoError 28, Some [1])) None Map.empty (empty_store ''data'') 7 [1, 2, 3] = (fs, st, r)"
    by (cases "save_slot (Some (IoError 28, Some [1])) None Map.empty (empty_store ''data'') 7 [1, 2, 3]")
  have dir: "ff_data_dir (empty_store d) = d" "\<not> has_slot (empty_store d) k" for d k
    by (simp_all add: empty_store_def has_slot_def)
  have "dir_of Map.empty (empty_store ''data'')" using dir by (simp add: dir_of_def empty_store_ok)
  moreover have "fs = [(''data'', data_file 7) \<mapsto> [1]]"
    using s by (simp add: save_slot_def fs_write_def Let_def data_file_def dir)
  then have "lists_dir fs ''data'' [Inr \<lparr> de_name = Utf8 (data_file 7), de_len = Inr 1 \<rparr>]"
    unfolding lists_dir_def by (intro exI [of _ "[data_file 7]"]) (auto split: if_splits)
  ultimately show ?thesis
    using failed_write_served_after_restart [of Map.empty "empty_store ''data''" 7 fs] s dir by auto
qed

text \<open>C32. The two gossip programs publish the same address only when the service answers with the bare address: with
  whitespace around it, the loop of the node trims the answer, and the stand-alone client ends with an error.\<close>

theorem main_needs_bare_answer:
  assumes "http ''https://api.ipify.org'' = Body (ws1 @ show_ipv4 a b c d @ ws2)"
    and "list_all is_whitespace ws1" "list_all is_whitespace ws2" "a < 256" "b < 256" "c < 256" "d < 256"
    and "addr = \<lparr> sa_ip = V4 (word_of_nat (((a * 256 + b) * 256 + c) * 256 + d)), sa_port = 8001 \<rparr>"
  shows "published_addr de_v6 http 8001 = Inr addr \<and>
    main_public_addr de_v6 http = (if ws1 @ ws2 = [] then Inr addr else Inl (StartFailed (Failed AddrParseFailed)))"
proof -
  have port: "'':8001'' = '':'' @ decimal (unat (8001 :: u16))" unfolding decimal_8001 by simp
  note parses = dotted_parses [OF assms(4-7), of de_v6 8001]
  have fetched: "fetch_public_ip http = show_ipv4 a b c d"
    by (rule fetch_dotted [where ?ws1.0 = ws1 and ?ws2.0 = ws2]) (use assms(1-3) in simp_all)
  have "published_addr de_v6 http 8001 = Inr addr"
    unfolding published_addr_def fetched parses assms(8) by simp
  moreover have "main_public_addr de_v6 http = Inr addr" if "ws1 @ ws2 = []"
    using parses that assms(1,8) by (simp add: main_public_addr_def port)
  moreover have "main_public_addr de_v6 http = Inl (StartFailed (Failed AddrParseFailed))" if "ws1 @ ws2 \<noteq> []"
    using padded_refused [OF assms(4-7,2,3) that, of de_v6] assms(1) by (simp add: main_public_addr_def)
  ultimately show ?thesis by simp
qed

theorem main_needs_bare_answer_witness:
  "main_public_addr (\<lambda>s. None) (\<lambda>url. Body (show_ipv4 192 0 2 33 @ [CHR 0x0A])) = Inl (StartFailed (Failed AddrParseFailed))"
  using main_needs_bare_answer [of "\<lambda>url. Body (show_ipv4 192 0 2 33 @ [CHR 0x0A])" "[]" 192 0 2 33 "[CHR 0x0A]" _ "\<lambda>s. None"]
  by (simp add: is_whitespace_def)

end
