(* ===== verification/Delivery.thy ===== *)
theory Delivery
  imports System Startup
begin

text \<open>
  The whole node as a collector of sets: a run of \<open>System\<close>, in which the gossip task, the channel, the slot poller and
  the client take their steps in any order, does to the batches and the stores what the abstract machine of
  \<open>Collector\<close> does with the shreds in the client's packets, under the same conditions on shreds and writes (\<open>system_ok\<close>).
\<close>

section \<open>The shreds of a run\<close>

fun input_shred :: "('e, 'b, 'f, 'v, 'tx) system_env \<Rightarrow> system_input \<Rightarrow> shred option" where
  "input_shred E (ClientPacket packet peer io) = packet_shred (se_de_data E) (se_de_coding E) packet"
| "input_shred E i = None"

fun input_writes :: "system_input \<Rightarrow> bool" where
  "input_writes (ClientPacket packet peer io) \<longleftrightarrow> io_write_data io = None \<and> io_write_meta io = None"
| "input_writes i \<longleftrightarrow> True"

definition system_shreds :: "('e, 'b, 'f, 'v, 'tx) system_env \<Rightarrow> system_input list \<Rightarrow> shred list" where
  "system_shreds E is = List.map_filter (input_shred E) is"

definition system_ok :: "('e, 'b, 'f, 'v, 'tx) system_env \<Rightarrow> (erasure_set_id \<Rightarrow> shred_set) \<Rightarrow> u64 \<Rightarrow> system_input list \<Rightarrow> bool" where
  "system_ok E sets lo is \<longleftrightarrow> list_all input_writes is \<and> list_all (shred_fits sets lo) (system_shreds E is)"

lemma system_shreds_simps [simp]:
  "system_shreds E [] = []"
  "system_shreds E (i # is) =
     (case input_shred E i of None \<Rightarrow> system_shreds E is | Some s \<Rightarrow> s # system_shreds E is)"
  by (simp_all add: system_shreds_def map_filter_simps split: option.split)

lemma system_shreds_append: "system_shreds E (is @ js) = system_shreds E is @ system_shreds E js"
  by (induction "is") (simp_all split: option.split)

section \<open>The simulation\<close>

lemma new_system_node: "cl_node (sy_client (new_system store fs)) = new_node store fs"
  by (simp add: new_system_def)

lemma turn_task_node: "cl_node (sy_client (turn_task E net i s)) = cl_node (sy_client s)"
  by (simp add: turn_task_def split: gossip_task.split sum.split prod.split)

lemma system_step_other:
  assumes "\<And>packet peer io. i \<noteq> ClientPacket packet peer io"
  shows "\<exists>s' sent. system_step E s i = Inr (s', sent) \<and> cl_node (sy_client s') = cl_node (sy_client s)"
proof (cases i)
  case ReceiveContact
  then show ?thesis by (cases "sy_channel s") (simp_all add: client_turn_def contact_event_def split: option.split)
qed (use assms in \<open>simp_all add: client_turn_def turn_task_node split: list.split\<close>)

lemma system_step_tracks:
  assumes "tracks (se_externals E) sets lo (cl_node (sy_client s)) k" "system_ok E sets lo [i]"
    and "k' = collect_all (needed sets) k (system_shreds E [i])"
  shows "\<exists>s' sent. system_step E s i = Inr (s', sent) \<and> tracks (se_externals E) sets lo (cl_node (sy_client s')) k'"
proof (cases "\<exists>packet peer io. i = ClientPacket packet peer io")
  case False
  then have "system_shreds E [i] = []" by (cases i) auto
  then show ?thesis using system_step_other [of i E s] False assms by auto
next
  case True
  then obtain packet peer io where i: "i = ClientPacket packet peer io" by blast
  let ?e = "Packet packet peer io"
  have shred: "event_shred (se_de_data E) (se_de_coding E) ?e = input_shred E i" by (simp add: i)
  have fits: "shred_fits sets lo x" if "event_shred (se_de_data E) (se_de_coding E) ?e = Some x" for x
    using assms(2) that unfolding shred by (simp add: system_ok_def)
  have w: "writes_succeed ?e" using assms(2) i by (simp add: system_ok_def)
  have k': "k' = (case event_shred (se_de_data E) (se_de_coding E) ?e of None \<Rightarrow> k | Some x \<Rightarrow> collect (needed sets) k x)"
    unfolding assms(3) shred by (simp split: option.split)
  obtain c sent where "client_step (se_externals E) (se_de_data E) (se_de_coding E) (se_our_key E) (sy_client s) ?e = Inr (c, sent)"
    "tracks (se_externals E) sets lo (cl_node c) k'"
    using client_step_tracks [OF assms(1) fits w k', of "se_our_key E"] by blast
  then show ?thesis by (simp add: i client_turn_def)
qed

lemma system_run_tracks:
  "tracks (se_externals E) sets lo (cl_node (sy_client s)) k \<Longrightarrow> system_ok E sets lo is \<Longrightarrow>
   \<exists>s' sent. system_run E s is = Inr (s', sent) \<and>
     tracks (se_externals E) sets lo (cl_node (sy_client s')) (collect_all (needed sets) k (system_shreds E is))"
proof (induction "is" arbitrary: s k)
  case (Cons i "is")
  have ok: "system_ok E sets lo [i]" "system_ok E sets lo is"
    using Cons.prems(2) by (auto simp: system_ok_def split: option.splits)
  obtain s1 sent1 where s1: "system_step E s i = Inr (s1, sent1)"
    "tracks (se_externals E) sets lo (cl_node (sy_client s1)) (collect_all (needed sets) k (system_shreds E [i]))"
    using system_step_tracks [OF Cons.prems(1) ok(1) refl] by blast
  obtain s2 sent2 where "system_run E s1 is = Inr (s2, sent2)"
    "tracks (se_externals E) sets lo (cl_node (sy_client s2))
       (collect_all (needed sets) (collect_all (needed sets) k (system_shreds E [i])) (system_shreds E is))"
    using Cons.IH [OF s1(2) ok(2)] by blast
  moreover have "collect_all (needed sets) (collect_all (needed sets) k (system_shreds E [i])) (system_shreds E is) =
      collect_all (needed sets) k (system_shreds E (i # is))"
    by (simp split: option.split)
  ultimately show ?case using s1(1) by simp
qed simp

section \<open>Properties\<close>

text \<open>C1. The whole node publishes the block of a set that arrives, under these hypotheses on the whole run. The steps come in any
  order: the gossip task starts and turns on whatever the network sends, contacts go through the channel, the poller
  writes slots, timers ask, packets come. (1) Every shred that parses out of a client packet of the run, of
  whatever slot, belongs to the set that its identifier names: its payload is a row of that set's encoding, with the
  set's dimensions, and the set is well-formed (equal sizes, dimensions that the code can invert, a serialised entry
  stream). (2) All these slots lie in one window of 500, below the top of the range. (3) Every file write of the run succeeds.
  (4) Among the shreds of the slot of set \<open>i\<close> there is none of another set. (5) There are as many different shreds of
  set \<open>i\<close> as it has data shreds. Then no step stops the node, and at the end ring buffer and file hold the block of set
  \<open>i\<close>. Packets that are no shreds are not restricted. Without (1) and (4) it is false: uneven shreds of any slot can
  stop the node (\<open>uneven_shreds_panic\<close>), another set of the slot replaces the block (\<open>later_set_replaces_block\<close>).\<close>

theorem system_publishes_block:
  assumes "store_ok store" "set_ok (sets i)" "system_ok E sets lo is"
    and "needed sets i \<le> card (rows_of i (system_shreds E is))" "only_set i (system_shreds E is)"
  shows "\<exists>s sent. system_run E (new_system store fs) is = Inr (s, sent) \<and>
    holds_block (se_externals E) (cl_node (sy_client s)) (es_slot i) (sets i)"
proof -
  let ?k = "collect_all (needed sets) empty_collector (system_shreds E is)"
  have "tracks (se_externals E) sets lo (cl_node (sy_client (new_system store fs))) empty_collector"
    unfolding new_system_node by (rule tracks_new [OF assms(1)])
  from system_run_tracks [OF this assms(3)] obtain s sent where s: "system_run E (new_system store fs) is = Inr (s, sent)"
    "tracks (se_externals E) sets lo (cl_node (sy_client s)) ?k" by blast
  have "cr_done ?k (es_slot i) = Some i" by (rule enough_complete [OF assms(2,4,5)])
  then show ?thesis using s tracksD(5) by blast
qed

text \<open>The gossip task starts, the poller gives the slot, and 32 code shreds come, the first between the two.\<close>

definition deliver_shred :: "nat \<Rightarrow> system_input" where
  "deliver_shred r = ClientPacket (shred_bytes (example_shred 64 r) [] @ u32_le 5) repair_socket quiet_io"

lemma delivered_shreds:
  "\<forall>r \<in> set rs. r < 64 \<Longrightarrow> system_shreds example_env (map deliver_shred rs) = map (example_shred 64) rs"
  by (induction rs) (simp_all add: deliver_shred_def example_env_def example_packet_shred)

theorem system_publishes_block_witness:
  "\<exists>s sent. system_run example_env (new_system (empty_store ''data'') Map.empty)
      (deliver_shred 63 # GossipStart (\<lambda>b a. True) example_start # PollerSlot 9 # map deliver_shred [32..<63]) = Inr (s, sent) \<and>
    load_slot (as_files (cl_node (sy_client s))) (as_file_store (cl_node (sy_client s))) 9 = Some (concat (example_payloads 64))"
proof -
  let ?is = "deliver_shred 63 # GossipStart (\<lambda>b a. True) example_start # PollerSlot 9 # map deliver_shred [32..<63]"
  let ?rs = "63 # [32..<63]"
  have small: "\<forall>r \<in> set ?rs. r < 64" by auto
  have "system_shreds example_env ?is = system_shreds example_env (map deliver_shred ?rs)" by (simp split: option.split)
  then have shreds: "system_shreds example_env ?is = map (example_shred 64) ?rs" by (simp only: delivered_shreds [OF small])
  have "list_all input_writes ?is" by (simp add: list_all_iff deliver_shred_def quiet_io_def)
  moreover have "list_all (shred_fits example_sets 0) (map (example_shred 64) ?rs)"
    using example_packets_run [OF small, of 64] by (simp only: run_ok_def example_shreds_in [OF small])
  ultimately have ok: "system_ok example_env example_sets 0 ?is" by (simp only: system_ok_def shreds simp_thms)
  have "card (set ?rs) = 32" by (simp add: card_insert_if)
  then have enough: "needed example_sets (example_id 64) \<le> card (rows_of (example_id 64) (system_shreds example_env ?is))"
    unfolding shreds example_rows [OF small] by (simp add: needed_def)
  have only: "only_set (example_id 64) (system_shreds example_env ?is)" unfolding shreds by (rule example_only)
  show ?thesis
    using system_publishes_block [OF empty_store_ok [of "''data''"] example_sets_ok ok enough only, of Map.empty]
    by (auto simp: holds_block_def example_id_def)
qed

end
