(* ===== verification/SlotCell.thy ===== *)
theory SlotCell
  imports Pipeline GossipLoop
begin

text \<open>
  The latest slot is an atomic cell that two tasks write: the gossip loop after a prune (\<^verbatim>\<open>lib.rs\<close>) and the slot
  poller of the node (\<^verbatim>\<open>dc-tvu/src/main.rs\<close>). Each loads the cell, compares, and stores; the three are not one
  atomic operation. The steps of the two tasks are separate here, and a run is any interleaving of them.
\<close>

section \<open>The code\<close>

datatype slot_writer = GossipTask | PollerTask

text \<open>Where a task is: not between its load and its store, or about to store a slot that was above what it loaded.\<close>

datatype writer_pc = Elsewhere | AboutToStore u64

record slot_cell =
  sc_value :: u64
  sc_gossip :: writer_pc
  sc_poller :: writer_pc

datatype cell_event = LoadCompare slot_writer u64 | StoreSlot slot_writer

definition writer_at :: "slot_cell \<Rightarrow> slot_writer \<Rightarrow> writer_pc" where
  "writer_at c w = (case w of GossipTask \<Rightarrow> sc_gossip c | PollerTask \<Rightarrow> sc_poller c)"

definition put_writer :: "slot_writer \<Rightarrow> writer_pc \<Rightarrow> slot_cell \<Rightarrow> slot_cell" where
  "put_writer w pc c = (case w of GossipTask \<Rightarrow> c\<lparr>sc_gossip := pc\<rparr> | PollerTask \<Rightarrow> c\<lparr>sc_poller := pc\<rparr>)"

text \<open>A task that is not at the point of an event does not take it.\<close>

fun cell_step :: "slot_cell \<Rightarrow> cell_event \<Rightarrow> slot_cell" where
  "cell_step c (LoadCompare w slot) =
     (case writer_at c w of
        Elsewhere \<Rightarrow> if sc_value c < slot then put_writer w (AboutToStore slot) c else c
      | AboutToStore s \<Rightarrow> c)"
| "cell_step c (StoreSlot w) =
     (case writer_at c w of
        Elsewhere \<Rightarrow> c
      | AboutToStore slot \<Rightarrow> put_writer w Elsewhere (c\<lparr>sc_value := slot\<rparr>))"

definition cell_run :: "slot_cell \<Rightarrow> cell_event list \<Rightarrow> slot_cell" where
  "cell_run = foldl cell_step"

section \<open>Runs without overlap\<close>

definition cell_idle :: "slot_cell \<Rightarrow> bool" where
  "cell_idle c \<longleftrightarrow> sc_gossip c = Elsewhere \<and> sc_poller c = Elsewhere"

definition cell_at :: "u64 \<Rightarrow> slot_cell" where
  "cell_at v = \<lparr> sc_value = v, sc_gossip = Elsewhere, sc_poller = Elsewhere \<rparr>"

lemma cell_idle_iff: "cell_idle c \<longleftrightarrow> (\<exists>v. c = cell_at v)"
  by (cases c) (simp add: cell_idle_def cell_at_def)

lemma sc_value_at [simp]: "sc_value (cell_at v) = v"
  by (simp add: cell_at_def)

lemmas cell_defs = writer_at_def put_writer_def cell_at_def

text \<open>A load, comparison and store with nothing in between are the update that the gossip loop and the poller mean.\<close>

lemma update_alone: "cell_run (cell_at v) [LoadCompare w slot, StoreSlot w] = cell_at (advance_slot (Some slot) v)"
  by (cases w) (simp_all add: cell_run_def advance_slot_def cell_defs)

definition updates_of :: "(slot_writer \<times> u64) list \<Rightarrow> cell_event list" where
  "updates_of us = concat (map (\<lambda>(w, slot). [LoadCompare w slot, StoreSlot w]) us)"

lemma advance_slot_max: "advance_slot (Some slot) v = max v slot"
  by (auto simp: advance_slot_def max_def)

lemma cell_run_append: "cell_run c (es @ fs) = cell_run (cell_run c es) fs"
  by (simp add: cell_run_def)

lemma updates_alone: "cell_run (cell_at v) (updates_of us) = cell_at (foldl max v (map snd us))"
proof (induction us arbitrary: v)
  case (Cons u us)
  obtain w slot where "u = (w, slot)" by (cases u)
  then have "updates_of (u # us) = [LoadCompare w slot, StoreSlot w] @ updates_of us" by (simp add: updates_of_def)
  then have "cell_run (cell_at v) (updates_of (u # us)) = cell_run (cell_at (max v slot)) (updates_of us)"
    by (simp only: cell_run_append update_alone advance_slot_max)
  then show ?case using Cons.IH \<open>u = (w, slot)\<close> by simp
qed (simp add: updates_of_def cell_run_def)

section \<open>Runs with overlap\<close>

text \<open>The cell and what is about to be stored stay at least at a value that the cell had when nobody was about to store.\<close>

definition slot_above :: "u64 \<Rightarrow> slot_cell \<Rightarrow> bool" where
  "slot_above v c \<longleftrightarrow> v \<le> sc_value c \<and> (\<forall>w slot. writer_at c w = AboutToStore slot \<longrightarrow> v < slot)"

lemma writer_at_put: "writer_at (put_writer w pc c) w' = (if w = w' then pc else writer_at c w')"
  by (cases w; cases w') (simp_all add: cell_defs)

lemma sc_value_put [simp]: "sc_value (put_writer w pc c) = sc_value c"
  by (cases w) (simp_all add: put_writer_def)

lemma writer_at_value [simp]: "writer_at (c\<lparr>sc_value := v\<rparr>) w = writer_at c w"
  by (simp add: writer_at_def split: slot_writer.split)

lemma slot_above_step: "slot_above v c \<Longrightarrow> slot_above v (cell_step c e)"
proof (cases e)
  case (LoadCompare w slot)
  assume "slot_above v c"
  then show ?thesis by (auto simp: LoadCompare slot_above_def writer_at_put split: writer_pc.splits)
next
  case (StoreSlot w)
  assume a: "slot_above v c"
  show ?thesis
  proof (cases "writer_at c w")
    case (AboutToStore slot)
    then have "v < slot" "v \<le> slot" using a by (auto simp: slot_above_def less_imp_le)
    then show ?thesis using a AboutToStore by (auto simp: StoreSlot slot_above_def writer_at_put)
  qed (use a StoreSlot in simp)
qed

lemma slot_above_run: "slot_above v c \<Longrightarrow> slot_above v (cell_run c es)"
  unfolding cell_run_def by (induction es arbitrary: c) (simp_all add: slot_above_step)

lemma slot_above_idle: "cell_idle c \<Longrightarrow> slot_above (sc_value c) c"
  by (auto simp: slot_above_def cell_idle_def writer_at_def split: slot_writer.splits)

section \<open>Properties\<close>

text \<open>C29. The slot never falls below the value it had at a moment when neither task was between its comparison and its
  store, however the two tasks are interleaved afterwards.\<close>

theorem slot_never_below_idle_value:
  assumes "cell_idle (cell_run c es)"
  shows "sc_value (cell_run c es) \<le> sc_value (cell_run c (es @ fs))"
  using slot_above_run [OF slot_above_idle [OF assms], of fs] by (simp add: slot_above_def cell_run_append)

theorem slot_never_below_idle_value_witness:
  "sc_value (cell_run (cell_at 0) [LoadCompare PollerTask 7, StoreSlot PollerTask]) \<le>
   sc_value (cell_run (cell_at 0) [LoadCompare PollerTask 7, StoreSlot PollerTask, LoadCompare GossipTask 9, LoadCompare PollerTask 12])"
  using slot_never_below_idle_value [of "cell_at 0" "[LoadCompare PollerTask 7, StoreSlot PollerTask]"
      "[LoadCompare GossipTask 9, LoadCompare PollerTask 12]"]
  by (simp add: cell_run_def cell_idle_def cell_defs)

text \<open>The slot can go back: when the poller stores a higher slot between the comparison and the store of the gossip
  loop, the lower slot of the gossip loop overwrites it. Without the overlap the higher one stays.\<close>

theorem slot_can_go_back:
  assumes "v < low" "low < high"
  shows "sc_value (cell_run (cell_at v) [LoadCompare GossipTask low, LoadCompare PollerTask high, StoreSlot PollerTask]) = high \<and>
    cell_run (cell_at v) [LoadCompare GossipTask low, LoadCompare PollerTask high, StoreSlot PollerTask, StoreSlot GossipTask] =
      cell_at low \<and>
    cell_run (cell_at v) (updates_of [(PollerTask, high), (GossipTask, low)]) = cell_at high"
proof -
  have "v < high" "max (max v high) low = high" using assms by (auto simp: max_def)
  then show ?thesis using assms unfolding updates_alone by (simp add: cell_run_def cell_defs)
qed

theorem slot_can_go_back_witness:
  "cell_run (cell_at 0) [LoadCompare GossipTask 100, LoadCompare PollerTask 4000, StoreSlot PollerTask, StoreSlot GossipTask] =
     cell_at 100"
  using slot_can_go_back [of 0 100 4000] by simp

text \<open>Updates that do not overlap keep the maximum of all slots, and a single one is what the model of each task does:
  the gossip loop's \<open>advance_slot\<close> and the poller's step of the node.\<close>

theorem serial_updates_keep_maximum:
  "cell_run (cell_at v) (updates_of us) = cell_at (foldl max v (map snd us)) \<and>
   cell_run (cell_at v) (updates_of [(GossipTask, slot)]) = cell_at (advance_slot (Some slot) v) \<and>
   client_step X de_data de_coding our_key c (SlotRpc slot) =
     Inr (c\<lparr>cl_latest_slot := sc_value (cell_run (cell_at (cl_latest_slot c)) (updates_of [(PollerTask, slot)]))\<rparr>, [])"
  unfolding updates_alone by (auto simp: advance_slot_max max_def)

end
