(* ===== verification/LoopTiming.thy ===== *)
theory LoopTiming
  imports Pipeline GossipLoop
begin

text \<open>
  The timers of the two loops. Each turn of \<open>tokio::select!\<close> makes a new \<open>sleep\<close>, of 500 milliseconds in the gossip
  loop and of one second in the client's, and drops it when another arm is ready first. A turn is modelled by
  what arrives next and after how many milliseconds; when an arrival and the timer are ready together, either is
  taken. The periods of 10 and 15 seconds (5 for the client) are only looked at in the timer's arm.
\<close>

section \<open>The code\<close>

definition GOSSIP_SLEEP_MILLIS :: nat where "GOSSIP_SLEEP_MILLIS = 500"
definition CLIENT_SLEEP_MILLIS :: nat where "CLIENT_SLEEP_MILLIS = 1000"

text \<open>The arm that a turn takes: \<open>next\<close> is the next arrival and its delay, \<open>tie\<close> the choice when both are ready.\<close>

definition select_arm :: "nat \<Rightarrow> (nat \<times> 'i) option \<Rightarrow> bool \<Rightarrow> 'i \<Rightarrow> 'i" where
  "select_arm sleep arrival tie timer =
     (case arrival of
        None \<Rightarrow> timer
      | Some (delay, i) \<Rightarrow> if delay < sleep \<or> (delay = sleep \<and> tie) then i else timer)"

record gossip_turn =
  gt_arrival :: "(nat \<times> gossip_input) option"
  gt_tie :: bool
  gt_timer :: timer_input

definition gossip_turn_input :: "gossip_turn \<Rightarrow> gossip_input" where
  "gossip_turn_input t = select_arm GOSSIP_SLEEP_MILLIS (gt_arrival t) (gt_tie t) (TimerTick (gt_timer t))"

fun gossip_run :: "('e, 'b, 'f) gossip_ext \<Rightarrow> (bytes \<Rightarrow> socket_addr \<Rightarrow> bool) \<Rightarrow> gossip_node \<Rightarrow> 'e gossip_state \<Rightarrow>
    gossip_turn list \<Rightarrow> failure + 'e gossip_state \<times> 'e gossip_output list" where
  "gossip_run X net node st [] = Inr (st, [])"
| "gossip_run X net node st (t # ts) =
     run_bind (gossip_step X net node st (gossip_turn_input t)) (\<lambda>(st1, out).
       run_bind (gossip_run X net node st1 ts) (\<lambda>(st2, outs). Inr (st2, out # outs)))"

record client_turn_record =
  ct_arrival :: "(nat \<times> socket_addr event) option"
  ct_tie :: bool
  ct_now :: nat
  ct_env :: "bytes \<Rightarrow> nat \<Rightarrow> nat option \<times> u32"

definition client_turn_event :: "client_turn_record \<Rightarrow> socket_addr event" where
  "client_turn_event t = select_arm CLIENT_SLEEP_MILLIS (ct_arrival t) (ct_tie t) (Timer (ct_now t) (ct_env t))"

fun client_run :: "('v, 'tx) externals \<Rightarrow> (bytes \<Rightarrow> data_shred_header option) \<Rightarrow> (bytes \<Rightarrow> coding_shred_header option) \<Rightarrow>
    signing_key \<Rightarrow> socket_addr client \<Rightarrow> client_turn_record list \<Rightarrow> panic + socket_addr client \<times> (bytes \<times> socket_addr) list" where
  "client_run X de_data de_coding our_key c [] = Inr (c, [])"
| "client_run X de_data de_coding our_key c (t # ts) =
     run_bind (client_step X de_data de_coding our_key c (client_turn_event t)) (\<lambda>(c1, sent1).
       run_bind (client_run X de_data de_coding our_key c1 ts) (\<lambda>(c2, sent2). Inr (c2, sent1 @ sent2)))"

section \<open>Busy turns\<close>

text \<open>Something arrives before the timer: for the gossip loop a packet or an error of the socket, for the client a contact
  or a packet.\<close>

definition busy_gossip_turn :: "gossip_turn \<Rightarrow> bool" where
  "busy_gossip_turn t \<longleftrightarrow> (\<exists>delay i. gt_arrival t = Some (delay, i) \<and> delay < GOSSIP_SLEEP_MILLIS \<and>
     (i = ReceiveError \<or> (\<exists>bs sender clock. i = PacketIn bs sender clock)))"

definition busy_client_turn :: "client_turn_record \<Rightarrow> bool" where
  "busy_client_turn t \<longleftrightarrow> (\<exists>delay e. ct_arrival t = Some (delay, e) \<and> delay < CLIENT_SLEEP_MILLIS \<and>
     ((\<exists>pk addr. e = Contact pk addr) \<or> (\<exists>packet peer io. e = Packet packet peer io)))"

text \<open>What no packet changes: the clocks of the jobs, the round, the slot.\<close>

definition job_state :: "'e gossip_state \<Rightarrow> nat \<times> nat \<times> u64 \<times> u64" where
  "job_state st = (gs_last_pull st, gs_last_prune st, gs_pull_round st, gs_latest_slot st)"

lemma packet_step_jobs:
  "packet_step X net node st bs sender clock = Inr (st', out) \<Longrightarrow> job_state st' = job_state st \<and> out_contacts out = []"
  by (auto simp: packet_step_def job_state_def quiet_def elim!: run_bind_InrE
      split: sum.splits failure.splits protocol.splits)

lemma busy_gossip_step:
  assumes "busy_gossip_turn t" "gossip_step X net node st (gossip_turn_input t) = Inr (st', out)"
  shows "job_state st' = job_state st \<and> out_contacts out = []"
proof -
  obtain i where "gossip_turn_input t = i" "i = ReceiveError \<or> (\<exists>bs sender clock. i = PacketIn bs sender clock)"
    using assms(1) by (auto simp: busy_gossip_turn_def gossip_turn_input_def select_arm_def)
  then show ?thesis using assms(2) by (auto simp: quiet_def dest!: packet_step_jobs)
qed

lemma busy_gossip_run:
  "list_all busy_gossip_turn ts \<Longrightarrow> gossip_run X net node st ts = Inr (st', outs) \<Longrightarrow>
   job_state st' = job_state st \<and> concat (map out_contacts outs) = []"
proof (induction ts arbitrary: st outs)
  case (Cons t ts)
  then obtain st1 out outs' where "gossip_step X net node st (gossip_turn_input t) = Inr (st1, out)"
    "gossip_run X net node st1 ts = Inr (st', outs')" "outs = out # outs'"
    by (auto elim!: run_bind_InrE)
  then show ?case using Cons.prems(1) Cons.IH [of st1 outs'] busy_gossip_step [of t X net node st st1 out] by simp
qed simp

lemma packet_pongs:
  "handle_packet X de_data de_coding our_key io node packet peer = Inr (node', sent) \<Longrightarrow> (m, addr) \<in> set sent \<Longrightarrow>
   \<exists>token. m = build_pong (x_sha256 X) token our_key"
  by (auto simp: handle_packet_def elim!: run_bind_InrE split: option.splits response.splits)

lemma busy_client_step:
  assumes "busy_client_turn t" "client_step X de_data de_coding our_key c (client_turn_event t) = Inr (c', sent)"
  shows "cl_last_repair_poll c' = cl_last_repair_poll c \<and>
    (\<forall>(m, addr) \<in> set sent. \<exists>token. m = build_pong (x_sha256 X) token our_key)"
proof -
  obtain e where "client_turn_event t = e" "(\<exists>pk addr. e = Contact pk addr) \<or> (\<exists>packet peer io. e = Packet packet peer io)"
    using assms(1) by (auto simp: busy_client_turn_def client_turn_event_def select_arm_def)
  then show ?thesis using assms(2) packet_pongs by (fastforce elim!: run_bind_InrE split: option.splits)
qed

lemma busy_client_run:
  "list_all busy_client_turn ts \<Longrightarrow> client_run X de_data de_coding our_key c ts = Inr (c', sent) \<Longrightarrow>
   cl_last_repair_poll c' = cl_last_repair_poll c \<and>
   (\<forall>(m, addr) \<in> set sent. \<exists>token. m = build_pong (x_sha256 X) token our_key)"
proof (induction ts arbitrary: c sent)
  case (Cons t ts)
  then obtain c1 sent1 sent2 where "client_step X de_data de_coding our_key c (client_turn_event t) = Inr (c1, sent1)"
    "client_run X de_data de_coding our_key c1 ts = Inr (c', sent2)" "sent = sent1 @ sent2"
    by (auto elim!: run_bind_InrE)
  then show ?case
    using Cons.prems(1) Cons.IH [of c1 sent2] busy_client_step [of t X de_data de_coding our_key c c1 sent1]
    by (auto simp: ball_Un)
qed simp

section \<open>Properties\<close>

text \<open>C33. A gossip loop to which something arrives within every half second neither asks its peers nor prunes, however long
  that lasts: the clocks of both jobs, the round and the latest slot stay as they were, and no contact is sent to the
  client. A single turn without an arrival in time is enough to do what is due.\<close>

theorem busy_gossip_loop_starves:
  assumes "list_all busy_gossip_turn ts" "gossip_run X net node st ts = Inr (st', outs)"
    and "gt_arrival t = None \<or> (\<exists>delay i. gt_arrival t = Some (delay, i) \<and> GOSSIP_SLEEP_MILLIS < delay)"
  shows "gs_last_pull st' = gs_last_pull st \<and> gs_last_prune st' = gs_last_prune st \<and> gs_pull_round st' = gs_pull_round st \<and>
    gs_latest_slot st' = gs_latest_slot st \<and> concat (map out_contacts outs) = [] \<and>
    gossip_turn_input t = TimerTick (gt_timer t)"
  using busy_gossip_run [OF assms(1,2)] assms(3)
  by (auto simp: job_state_def gossip_turn_input_def select_arm_def)

text \<open>Pongs that arrive every 400 milliseconds, 40 seconds of them.\<close>

definition pong_ext :: "(unit, unit, nat) gossip_ext" where
  "pong_ext = example_ext\<lparr>gx_codec := (gx_codec example_ext)\<lparr>cd_de_protocol :=
     (\<lambda>bs. Some (PongMessage \<lparr> po_from = take 32 bs, po_hash = take 32 (drop 32 bs), po_signature = drop 64 bs \<rparr>))\<rparr>\<rparr>"

definition pong_turn :: gossip_turn where
  "pong_turn = \<lparr> gt_arrival = Some (400, PacketIn (replicate 128 1) SOCKET_ADDR_UNSPECIFIED (\<lambda>k. None)), gt_tie = False,
     gt_timer = example_tick \<rparr>"

lemma pong_run:
  "gossip_run pong_ext net node st (replicate n pong_turn) = Inr (st, replicate n quiet)"
proof (induction n)
  case (Suc n)
  have "gossip_step pong_ext net node st (gossip_turn_input pong_turn) = Inr (st, quiet)"
    by (simp add: gossip_turn_input_def select_arm_def pong_turn_def GOSSIP_SLEEP_MILLIS_def packet_step_def decode_from_def pong_ext_def)
  then show ?case using Suc by simp
qed simp

lemma pong_turn_busy: "busy_gossip_turn pong_turn"
  by (simp add: busy_gossip_turn_def pong_turn_def GOSSIP_SLEEP_MILLIS_def)

theorem busy_gossip_loop_starves_witness:
  "\<exists>st' outs. gossip_run pong_ext (\<lambda>b a. True) gossip_example_node started_state (replicate 100 pong_turn) = Inr (st', outs) \<and>
     sum_list (map (fst \<circ> the \<circ> gt_arrival) (replicate 100 pong_turn)) = 40000 \<and> gs_last_pull st' = gs_last_pull started_state"
proof -
  have "list_all busy_gossip_turn (replicate 100 pong_turn)" using pong_turn_busy by (simp add: list_all_iff)
  moreover have "gt_arrival (pong_turn\<lparr>gt_arrival := None\<rparr>) = None" by simp
  moreover have "sum_list (map (fst \<circ> the \<circ> gt_arrival) (replicate 100 pong_turn)) = 40000"
    by (simp add: sum_list_replicate pong_turn_def)
  ultimately show ?thesis
    using busy_gossip_loop_starves [OF _ pong_run [of "\<lambda>b a. True" gossip_example_node started_state 100], of "pong_turn\<lparr>gt_arrival := None\<rparr>"] pong_run
    by blast
qed

text \<open>A client to which a contact or a packet arrives within every second sends nothing but pongs, however long that
  lasts and whatever slots and validators it knows.\<close>

theorem busy_client_never_asks:
  assumes "list_all busy_client_turn ts" "client_run X de_data de_coding our_key c ts = Inr (c', sent)"
  shows "cl_last_repair_poll c' = cl_last_repair_poll c \<and>
    (\<forall>(m, addr) \<in> set sent. \<exists>token. m = build_pong (x_sha256 X) token our_key)"
  by (rule busy_client_run [OF assms])

text \<open>Pings that arrive every 900 milliseconds.\<close>

definition ping_turn :: client_turn_record where
  "ping_turn = \<lparr> ct_arrival = Some (900, Packet (u32_le 0 @ replicate 32 4 @ replicate 32 5 @ replicate 64 6) SOCKET_ADDR_UNSPECIFIED
       \<lparr> io_write_data = None, io_write_meta = None, io_listing = Inr [] \<rparr>),
     ct_tie = False, ct_now = 0, ct_env = (\<lambda>_ _. (Some 0, 0)) \<rparr>"

lemma ping_run:
  "client_run X de_data de_coding our_key c (replicate n ping_turn) =
   Inr (c, replicate n (build_pong (x_sha256 X) (replicate 32 5) our_key, SOCKET_ADDR_UNSPECIFIED))"
proof (induction n)
  case (Suc n)
  have "parse_response (u32_le 0 @ replicate 32 4 @ replicate 32 5 @ replicate 64 6) = Some (Ping (replicate 32 5) (replicate 32 4))"
    by (rule parse_response_ping) simp_all
  then have "client_step X de_data de_coding our_key c (client_turn_event ping_turn) =
      Inr (c, [(build_pong (x_sha256 X) (replicate 32 5) our_key, SOCKET_ADDR_UNSPECIFIED)])"
    by (simp add: client_turn_event_def select_arm_def ping_turn_def CLIENT_SLEEP_MILLIS_def handle_packet_def)
  then show ?case using Suc by simp
qed simp

lemma ping_turn_busy: "busy_client_turn ping_turn"
  by (simp add: busy_client_turn_def ping_turn_def CLIENT_SLEEP_MILLIS_def)

theorem busy_client_never_asks_witness:
  "\<exists>c' sent. client_run example_externals le_data_header le_coding_header example_key
     ((new_client example_node)\<lparr>cl_latest_slot := 300, cl_validators := [(replicate 32 7, SOCKET_ADDR_UNSPECIFIED)]\<rparr>)
     (replicate 100 ping_turn) = Inr (c', sent) \<and> length sent = 100 \<and> cl_last_repair_poll c' = 0"
proof -
  let ?c = "(new_client example_node)\<lparr>cl_latest_slot := 300, cl_validators := [(replicate 32 7, SOCKET_ADDR_UNSPECIFIED)]\<rparr> :: socket_addr client"
  let ?sent = "replicate 100 (build_pong (x_sha256 example_externals) (replicate 32 5) example_key, SOCKET_ADDR_UNSPECIFIED)"
  have run: "client_run example_externals le_data_header le_coding_header example_key ?c (replicate 100 ping_turn) = Inr (?c, ?sent)"
    by (rule ping_run)
  have "list_all busy_client_turn (replicate 100 ping_turn)" using ping_turn_busy by (simp add: list_all_iff)
  from busy_client_never_asks [OF this run] have "cl_last_repair_poll ?c = 0" by (simp add: new_client_def)
  moreover have "length ?sent = 100" by simp
  ultimately show ?thesis using run by blast
qed

end
