(* ===== verification/ContactTable.thy ===== *)
theory ContactTable
  imports ContactInfo PublicAddress
begin

text \<open>
  The printed table of contacts (\<open>ContactInfo::table_row\<close> and \<open>header\<close> in \<^verbatim>\<open>dc-gossip/src/contact_info.rs\<close>). How a key is
  printed under a given width, the text of an IPv6 address and the numbers of a version are the record \<open>row_ext\<close>.
\<close>

section \<open>The code\<close>

record 'e row_ext =
  wx_pubkey :: "nat \<Rightarrow> bytes \<Rightarrow> string"
  wx_v6 :: "128 word \<Rightarrow> string"
  wx_version :: "'e \<Rightarrow> nat \<times> nat \<times> nat"

text \<open>\<open>{:>n}\<close> and \<open>{:n}\<close> of a string.\<close>

definition pad_left :: "nat \<Rightarrow> string \<Rightarrow> string" where
  "pad_left n s = replicate (n - length s) CHR '' '' @ s"

definition pad_right :: "nat \<Rightarrow> string \<Rightarrow> string" where
  "pad_right n s = s @ replicate (n - length s) CHR '' ''"

definition show_ip :: "(128 word \<Rightarrow> string) \<Rightarrow> ip_addr \<Rightarrow> string" where
  "show_ip show_v6 ip =
     (case ip of V4 w \<Rightarrow> let n = unat w in show_ipv4 (n div 2 ^ 24) (n div 2 ^ 16 mod 256) (n div 2 ^ 8 mod 256) (n mod 256)
      | V6 w \<Rightarrow> show_v6 w)"

definition separator :: string where "separator = '' | ''"

definition contact_row :: "'e row_ext \<Rightarrow> u64 \<Rightarrow> 'e contact_info \<Rightarrow> string" where
  "contact_row W age_ms ci =
     (let socket = (\<lambda>n key. separator @ pad_left n (socket_addr_or_none ci key))
      in ''  '' @ pad_left 18 (case ci_addrs ci of [] \<Rightarrow> [] | a # as \<Rightarrow> show_ip (wx_v6 W) a) @
         separator @ pad_left 5 (decimal (unat age_ms)) @
         separator @ wx_pubkey W 45 (ci_pubkey ci) @
         separator @ pad_right 7 (case wx_version W (ci_version ci) of (major, minor, patch) \<Rightarrow>
           decimal major @ ''.'' @ decimal minor @ ''.'' @ decimal patch) @
         socket 4 0 @ socket 7 9 @ socket 4 5 @ socket 5 6 @ socket 4 10 @ socket 5 11 @ socket 5 4 @
         separator @ pad_left 7 (decimal (unat (ci_shred_version ci))))"

definition table_row :: "'e row_ext \<Rightarrow> nat option \<Rightarrow> 'e contact_info \<Rightarrow> failure + string" where
  "table_row W clock ci = run_bind (contact_age clock ci) (\<lambda>age_ms. Inr (contact_row W age_ms ci))"

definition table_header :: string where
  "table_header = ''  {:>18} | {:>5} | {:45} | {:7} | {:>4} | {:>7} | {:>4} | {:>5} | {:>4} | {:>5} | {:>5} | {:>7}''"

section \<open>Widths\<close>

lemma length_pad [simp]: "length (pad_left n s) = max n (length s)" "length (pad_right n s) = max n (length s)"
  by (simp_all add: pad_left_def pad_right_def)

lemma length_separator [simp]: "length separator = 3"
  by (simp add: separator_def)

lemma length_decimal_u16: "length (decimal (unat (w :: u16))) \<le> 5"
proof (rule length_decimal)
  have "unat w < 65536" using unsigned_less [of w, where 'a = nat] by simp
  then show "unat w < 10 ^ 5" by simp
qed simp

lemma length_socket: "length (socket_addr_or_none ci key) \<le> 5"
  by (simp add: socket_addr_or_none_def length_decimal_u16 split: option.split)

lemma length_show_ipv4:
  assumes "a < 256" "b < 256" "c < 256" "d < 256"
  shows "length (show_ipv4 a b c d) \<le> 15"
proof -
  have "length (decimal n) \<le> 3" if "n < 256" for n using that by (intro length_decimal) simp_all
  from this [OF assms(1)] this [OF assms(2)] this [OF assms(3)] this [OF assms(4)] show ?thesis
    by (simp add: show_ipv4_def)
qed

lemma length_show_v4: "length (show_ip f (V4 w)) \<le> 15"
proof -
  have "unat w < 2 ^ 32" using unsigned_less [of w, where 'a = nat] by simp
  then have "unat w div 2 ^ 24 < 256" by (simp add: less_mult_imp_div_less)
  then show ?thesis unfolding show_ip_def by (simp add: Let_def length_show_ipv4)
qed

text \<open>
  The columns for one socket are four wide for three of the sockets, and a port may have five digits, so that rows are of
  different lengths even when the age fits.
\<close>

lemma row_length:
  assumes "\<And>k. length (wx_pubkey W 45 k) = 45" "ci_addrs ci = V4 w # as" "unat age_ms < 10 ^ 5"
    and "wx_version W (ci_version ci) = (major, minor, patch)" "length (decimal major) + length (decimal minor) + length (decimal patch) \<le> 5"
  shows "151 \<le> length (contact_row W age_ms ci)" "length (contact_row W age_ms ci) \<le> 154"
proof -
  have ip: "max 18 (length (show_ip (wx_v6 W) (V4 w))) = 18" using length_show_v4 [of "wx_v6 W" w] by simp
  have age: "max 5 (length (decimal (unat age_ms))) = 5" using length_decimal [OF assms(3)] by simp
  have version: "max 7 (length (decimal major @ ''.'' @ decimal minor @ ''.'' @ decimal patch)) = 7" using assms(5) by simp
  have sv: "max 7 (length (decimal (unat (ci_shred_version ci)))) = 7"
    using length_decimal_u16 [of "ci_shred_version ci"] by simp
  have five: "max 5 (length (socket_addr_or_none ci k)) = 5" "max 7 (length (socket_addr_or_none ci k)) = 7" for k
    using length_socket [of ci k] by simp_all
  let ?four = "\<lambda>k. max 4 (length (socket_addr_or_none ci k))"
  have "length (contact_row W age_ms ci) = 139 + ?four 0 + ?four 5 + ?four 10"
    using ip age version sv by (simp add: contact_row_def Let_def assms(1,2,4) five)
  moreover have "4 \<le> ?four k" "?four k \<le> 5" for k using length_socket [of ci k] by simp_all
  from this [of 0] this [of 5] this [of 10] have "12 \<le> ?four 0 + ?four 5 + ?four 10" "?four 0 + ?four 5 + ?four 10 \<le> 15" by linarith+
  ultimately show "151 \<le> length (contact_row W age_ms ci)" "length (contact_row W age_ms ci) \<le> 154" by linarith+
qed

text \<open>The header is the text of the format, not a line of column names.\<close>

lemma header_unformatted: "CHR ''{'' \<in> set table_header"
  by (simp add: table_header_def)

end
