(* ===== verification/FilterBounds.thy ===== *)
theory FilterBounds
  imports CrdsFilter
begin

text \<open>
  The number of partitions for the budgets of a packet, under exact arithmetic: the capacity of a Bloom filter of
  \<open>b\<close> bytes with 8 keys and a false rate of a tenth is \<open>b\<close> times a constant near \<open>ln 4\<close>, rounded up.
\<close>

section \<open>The capacity of a filter\<close>

definition bloom_root :: real where "bloom_root = exp (ln (1 / 10) / 8)"

definition items_per_byte :: real where "items_per_byte = - ln (1 - bloom_root)"

lemma bloom_root_power: "bloom_root ^ 8 = 1 / 10"
proof -
  have "bloom_root ^ 8 = exp (of_nat 8 * (ln (1 / 10) / 8))" unfolding bloom_root_def by (simp only: exp_of_nat_mult)
  then show ?thesis by simp
qed

lemma bloom_root_bounds: "bloom_root \<le> 3 / 4" "3749 / 5000 \<le> bloom_root"
proof -
  have pos: "0 \<le> bloom_root" by (simp add: bloom_root_def)
  show "bloom_root \<le> 3 / 4"
  proof (rule ccontr)
    assume "\<not> bloom_root \<le> 3 / 4"
    then have "(3 / 4) ^ 8 < bloom_root ^ 8" by (intro power_strict_mono) simp_all
    then show False unfolding bloom_root_power by (simp add: power_divide)
  qed
  show "3749 / 5000 \<le> bloom_root"
  proof (rule ccontr)
    assume "\<not> 3749 / 5000 \<le> bloom_root"
    then have "bloom_root ^ 8 < (3749 / 5000) ^ 8" using pos by (intro power_strict_mono) simp_all
    then show False unfolding bloom_root_power by (simp add: power_divide)
  qed
qed

lemma ln_2_bounds: "ln 2 \<le> (3 / 4 :: real)" "2 / 3 \<le> ln (2 :: real)"
proof -
  have "(2 :: real) \<le> (1 + 3 / 64) ^ 16" by (simp add: power_divide)
  also have "\<dots> \<le> exp (3 / 64) ^ 16" by (rule power_mono [OF exp_ge_add_one_self]) simp
  also have "\<dots> = exp (of_nat 16 * (3 / 64))" by (simp only: exp_of_nat_mult)
  finally have "ln 2 \<le> ln (exp (3 / 4 :: real))" by (subst ln_le_cancel_iff) simp_all
  then show "ln 2 \<le> (3 / 4 :: real)" by simp
  have "(1 :: real) / 2 \<le> (1 + - (1 / 24)) ^ 16" by (simp add: power_divide)
  also have "\<dots> \<le> exp (- (1 / 24)) ^ 16" by (rule power_mono [OF exp_ge_add_one_self]) simp
  also have "\<dots> = exp (of_nat 16 * (- (1 / 24)))" by (simp only: exp_of_nat_mult)
  finally have "exp (2 / 3 :: real) \<le> 2" by (simp add: exp_minus field_simps)
  then show "2 / 3 \<le> ln (2 :: real)" by (subst ln_ge_iff) simp_all
qed

lemma items_per_byte_bounds: "items_per_byte \<le> 3 / 2" "13325 / 10000 \<le> items_per_byte"
proof -
  have ln4: "ln (1 / 4 :: real) = - (2 * ln 2)" using ln_realpow [of 2 2] by (simp add: ln_div)
  have "ln (1 / 4) \<le> ln (1 - bloom_root)" using bloom_root_bounds(1) by (subst ln_le_cancel_iff) simp_all
  then show "items_per_byte \<le> 3 / 2" using ln4 ln_2_bounds(1) unfolding items_per_byte_def by simp
  have "1 - bloom_root \<le> 1 / 4 * (1 + 8 / 10000)" "0 < 1 - bloom_root" using bloom_root_bounds by simp_all
  then have "ln (1 - bloom_root) \<le> ln (1 / 4 * (1 + 8 / 10000))" by (subst ln_le_cancel_iff) simp_all
  also have "\<dots> = ln (1 / 4) + ln (1 + 8 / 10000)" by (rule ln_mult_pos) simp_all
  also have "ln (1 + 8 / 10000 :: real) \<le> 8 / 10000" by (rule ln_add_one_self_le_self) simp
  finally show "13325 / 10000 \<le> items_per_byte" using ln4 ln_2_bounds(2) unfolding items_per_byte_def by simp
qed

lemma real_max_items:
  "max_items real_ops (8 * b) (1 / 10) 8 = real_of_int \<lceil>b * items_per_byte\<rceil>"
proof -
  have "8 * b / (- 8 / ln (1 - bloom_root)) = b * items_per_byte" by (simp add: items_per_byte_def)
  then show ?thesis by (simp add: max_items_def real_ops_def bloom_root_def)
qed

lemma log2_values: "log 2 32 = (5 :: real)" "log 2 64 = (6 :: real)" "log 2 65536 = (16 :: real)"
  using log_pow_cancel [of 2 5] log_pow_cancel [of 2 6] log_pow_cancel [of 2 16] by simp_all

lemma capacity_pos: "1 \<le> b \<Longrightarrow> 1 \<le> \<lceil>real b * items_per_byte\<rceil>"
proof -
  assume "1 \<le> b"
  then have "0 < real b * items_per_byte" using items_per_byte_bounds(2) by simp
  then show ?thesis by linarith
qed

lemma budget_mask_bits:
  assumes "1 \<le> b" "b \<le> 1232"
  shows "unat (mask_bits_for real_ops b 0) = nat \<lceil>log 2 (65536 / real_of_int \<lceil>real b * items_per_byte\<rceil>)\<rceil>"
proof -
  let ?m = "real_of_int \<lceil>real b * items_per_byte\<rceil>"
  have "1 \<le> ?m" using capacity_pos [OF assms(1)] by simp
  then have "log 2 (65536 / ?m) \<le> log 2 (2 ^ 16)" by (subst log_le_cancel_iff) (simp_all add: divide_le_eq)
  then have "log 2 (65536 / ?m) \<le> 2 ^ 32 - 1" by (simp add: log2_values)
  moreover have "mask_bits_for real_ops b 0 = compute_mask_bits real_ops 65536 ?m"
    using assms real_max_items [of "real b"]
    by (simp add: mask_bits_for_def MIN_NUM_BLOOM_ITEMS_def) (simp add: real_ops_def of_rat_divide mult.commute)
  ultimately show ?thesis by (simp add: real_mask_bits)
qed

text \<open>Between 32 and 65536 partitions' worth of items for every budget, and at most 64 from 768 bytes on.\<close>

lemma capacity_bounds:
  assumes "1 \<le> b" "b \<le> 1232"
  shows "\<lceil>real b * items_per_byte\<rceil> < 2048" "768 \<le> b \<Longrightarrow> 1024 \<le> \<lceil>real b * items_per_byte\<rceil>"
proof -
  have "real b * items_per_byte \<le> 1232 * (3 / 2)" using assms items_per_byte_bounds by (intro mult_mono) simp_all
  then show "\<lceil>real b * items_per_byte\<rceil> < 2048" by linarith
  assume "768 \<le> b"
  then have "768 * (13325 / 10000) \<le> real b * items_per_byte" using items_per_byte_bounds(2) by (intro mult_mono) simp_all
  then show "1024 \<le> \<lceil>real b * items_per_byte\<rceil>" by linarith
qed

lemma budget_bits:
  assumes "1 \<le> b" "b \<le> 1232" "bits = unat (mask_bits_for real_ops b 0)"
  shows "6 \<le> bits \<and> bits \<le> 16 \<and> (768 \<le> b \<longrightarrow> bits = 6)"
proof -
  define m where "m = real_of_int \<lceil>real b * items_per_byte\<rceil>"
  have bits: "bits = nat \<lceil>log 2 (65536 / m)\<rceil>" unfolding assms(3) m_def by (rule budget_mask_bits [OF assms(1,2)])
  have m: "1 \<le> m" "m < 2048" "768 \<le> b \<Longrightarrow> 1024 \<le> m"
    using capacity_pos [OF assms(1)] capacity_bounds [OF assms(1,2)] by (simp_all add: m_def)
  have "log 2 (2 ^ 5) < log 2 (65536 / m)" using m(1,2) by (subst log_less_cancel_iff) (simp_all add: less_divide_eq)
  then have low: "5 < log 2 (65536 / m)" by (simp add: log2_values)
  have "log 2 (65536 / m) \<le> log 2 (2 ^ 16)" using m(1) by (subst log_le_cancel_iff) (simp_all add: divide_le_eq)
  then have high: "log 2 (65536 / m) \<le> 16" by (simp add: log2_values)
  have six: "log 2 (65536 / m) \<le> 6" if "768 \<le> b"
  proof -
    have "log 2 (65536 / m) \<le> log 2 (2 ^ 6)" using m(3) [OF that] by (subst log_le_cancel_iff) (simp_all add: divide_le_eq)
    then show ?thesis by (simp add: log2_values)
  qed
  define c where "c = \<lceil>log 2 (65536 / m)\<rceil>"
  have "6 \<le> c" "c \<le> 16" using low high unfolding c_def by linarith+
  moreover have "768 \<le> b \<longrightarrow> c \<le> 6" using six unfolding c_def by linarith
  moreover have "bits = nat c" by (simp add: bits c_def)
  ultimately show ?thesis by auto
qed

section \<open>Properties\<close>

text \<open>C26. Under exact arithmetic a Bloom budget of one byte up to a whole packet makes a filter, without a panic, of at least
  the six mask bits that an entrypoint accepts and of at most sixteen; from 768 bytes on it has six, that is 64
  partitions.\<close>

theorem packet_budget_mask_bits:
  assumes "1 \<le> b" "b \<le> 1232" "seed < 2 ^ unat (mask_bits_for real_ops b 0)"
  shows "\<exists>f. new_seeded real_ops bloom_random b 0 (word_of_nat seed) = Inr f \<and> 6 \<le> unat (cf_mask_bits f) \<and>
    unat (cf_mask_bits f) \<le> 16 \<and> (768 \<le> b \<longrightarrow> unat (cf_mask_bits f) = 6)"
proof -
  have bits: "6 \<le> unat (mask_bits_for real_ops b 0) \<and> unat (mask_bits_for real_ops b 0) \<le> 16 \<and>
      (768 \<le> b \<longrightarrow> unat (mask_bits_for real_ops b 0) = 6)"
    using budget_bits [OF assms(1,2)] by blast
  have "(2::nat) ^ unat (mask_bits_for real_ops b 0) \<le> 2 ^ 16" using bits by (intro power_increasing) simp_all
  then have "unat (word_of_nat seed :: u64) < 2 ^ unat (mask_bits_for real_ops b 0)"
    using assms(3) by (simp add: unat_of_nat)
  with new_seeded_eq [OF refl, of real_ops b 0 "word_of_nat seed" bloom_random]
  obtain f where f: "new_seeded real_ops bloom_random b 0 (word_of_nat seed) = Inr f" using bits by auto
  then show ?thesis using bits new_seeded_mask_bits [OF f] by auto
qed

theorem packet_budget_mask_bits_witness:
  "\<exists>f. new_seeded real_ops (\<lambda>n p m. ()) 900 0 (word_of_nat 63) = Inr f \<and> unat (cf_mask_bits f) = 6"
proof -
  have "unat (mask_bits_for real_ops 900 0) = 6" using budget_bits [of 900, OF _ _ refl] by simp
  then show ?thesis using packet_budget_mask_bits [of 900 63 "\<lambda>n p m. ()"] by auto
qed

end
