(* ===== verification/FilterTests.thy ===== *)
theory FilterTests
  imports FilterBounds
begin

text \<open>
  The unit tests of \<^verbatim>\<open>crds_filter.rs\<close> under exact arithmetic, each the conjunction of its assertions, in the failure
  monad because making a filter can panic.
\<close>

section \<open>The tests\<close>

type_synonym bloom_maker = "nat \<Rightarrow> real \<Rightarrow> nat \<Rightarrow> unit"

definition mask_bits_at_least_six :: "bloom_maker \<Rightarrow> nat \<Rightarrow> failure + bool" where
  "mask_bits_at_least_six B bytes = run_bind (new_filter real_ops B bytes 0) (\<lambda>f. Inr (6 \<le> cf_mask_bits f))"

definition new_creates_filter :: "bloom_maker \<Rightarrow> failure + bool" where
  "new_creates_filter B = mask_bits_at_least_six B 512"

definition new_zero_bytes :: "bloom_maker \<Rightarrow> failure + bool" where
  "new_zero_bytes B = mask_bits_at_least_six B 1"

definition mask_bits_scales_with_items :: "bloom_maker \<Rightarrow> failure + bool" where
  "mask_bits_scales_with_items B =
     run_bind (new_filter real_ops B 512 0) (\<lambda>small. run_bind (new_filter real_ops B 512 100000) (\<lambda>big.
       Inr (cf_mask_bits small \<le> cf_mask_bits big)))"

definition larger_bloom_lower_mask_bits :: "bloom_maker \<Rightarrow> failure + bool" where
  "larger_bloom_lower_mask_bits B =
     run_bind (new_filter real_ops B 200 0) (\<lambda>small_budget. run_bind (new_filter real_ops B 1000 0) (\<lambda>large_budget.
       Inr (cf_mask_bits large_budget \<le> cf_mask_bits small_budget)))"

definition compute_mask_zero_bits :: "failure + bool" where
  "compute_mask_zero_bits = run_bind (compute_mask 0 0) (\<lambda>m. Inr (m = - 1))"

definition compute_mask_max_bits :: "failure + bool" where
  "compute_mask_max_bits = run_bind (compute_mask 0x1234 64) (\<lambda>m. Inr (m = 0x1234))"

definition default_creates_filter :: "bloom_maker \<Rightarrow> failure + bool" where
  "default_creates_filter B = run_bind (default_filter real_ops B) (\<lambda>f. Inr (cf_mask_bits f \<le> 32))"

definition filter_is_deterministic :: "bloom_maker \<Rightarrow> bloom_maker \<Rightarrow> failure + bool" where
  "filter_is_deterministic B1 B2 =
     run_bind (new_filter real_ops B1 512 0) (\<lambda>a. run_bind (new_filter real_ops B2 512 0) (\<lambda>b.
       Inr (cf_mask_bits a = cf_mask_bits b)))"

text \<open>Seeds are made into 64-bit words as they are drawn from the range.\<close>

definition seeded_filters_cover_disjoint_partitions :: "bloom_maker \<Rightarrow> failure + bool" where
  "seeded_filters_cover_disjoint_partitions B =
     run_bind (new_filter real_ops B 512 0) (\<lambda>f.
       let n = 2 ^ unat (cf_mask_bits f)
       in run_bind (run_map (\<lambda>seed. new_seeded real_ops B 512 0 (word_of_nat seed)) [0..<n]) (\<lambda>fs.
          run_bind (new_seeded real_ops B 512 0 0) (\<lambda>f0.
            Inr (6 \<le> cf_mask_bits f \<and> card (set (map cf_mask fs)) = n \<and> cf_mask f = cf_mask f0))))"

section \<open>They pass\<close>

lemma budget_filter:
  assumes "1 \<le> b" "b \<le> 1232"
  shows "\<exists>f. new_filter real_ops B b 0 = Inr f \<and> cf_mask_bits f = mask_bits_for real_ops b 0"
proof -
  have "unat (mask_bits_for real_ops b 0) \<le> 16" using budget_bits [OF assms refl] by blast
  then show ?thesis using new_seeded_eq [OF refl, of real_ops b 0 0 B] by (auto simp: new_filter_def)
qed

lemma six_bits_pass: "1 \<le> b \<Longrightarrow> b \<le> 1232 \<Longrightarrow> mask_bits_at_least_six B b = Inr True"
  using budget_filter [of b B] budget_bits [OF _ _ refl, of b]
  by (auto simp: mask_bits_at_least_six_def word_le_nat_alt)

lemma mask_tests_pass: "compute_mask_zero_bits = Inr True" "compute_mask_max_bits = Inr True"
  by (simp_all add: compute_mask_zero_bits_def compute_mask_max_bits_def compute_mask_def Let_def)

lemma budget_tests_pass:
  "new_creates_filter B = Inr True" "new_zero_bytes B = Inr True" "filter_is_deterministic B B' = Inr True"
proof -
  show "new_creates_filter B = Inr True" "new_zero_bytes B = Inr True"
    by (simp_all add: new_creates_filter_def new_zero_bytes_def six_bits_pass)
  obtain a b where "new_filter real_ops B 512 0 = Inr a" "new_filter real_ops B' 512 0 = Inr b"
      "cf_mask_bits a = mask_bits_for real_ops 512 0" "cf_mask_bits b = mask_bits_for real_ops 512 0"
    using budget_filter [of 512 B] budget_filter [of 512 B'] by auto
  then show "filter_is_deterministic B B' = Inr True" by (simp add: filter_is_deterministic_def)
qed

text \<open>More items or less room never lower the number of mask bits.\<close>

lemma larger_budget_passes: "larger_bloom_lower_mask_bits B = Inr True"
proof -
  obtain s l where made: "new_filter real_ops B 200 0 = Inr s" "new_filter real_ops B 1000 0 = Inr l"
      "cf_mask_bits s = mask_bits_for real_ops 200 0" "cf_mask_bits l = mask_bits_for real_ops 1000 0"
    using budget_filter [of 200 B] budget_filter [of 1000 B] by auto
  moreover have "unat (mask_bits_for real_ops 1000 0) \<le> unat (mask_bits_for real_ops 200 0)"
    using budget_bits [OF _ _ refl, of 1000] budget_bits [OF _ _ refl, of 200] by simp
  ultimately show ?thesis by (simp add: larger_bloom_lower_mask_bits_def word_le_nat_alt)
qed

lemma more_items_bits:
  "unat (mask_bits_for real_ops 512 0) \<le> unat (mask_bits_for real_ops 512 100000) \<and> unat (mask_bits_for real_ops 512 100000) \<le> 17"
proof -
  define m where "m = real_of_int \<lceil>512 * items_per_byte\<rceil>"
  have m: "1 \<le> m" using capacity_pos [of 512] by (simp add: m_def)
  have "log 2 (100000 / m) \<le> log 2 (2 ^ 17)" using m by (subst log_le_cancel_iff) (simp_all add: divide_le_eq)
  then have up: "log 2 (100000 / m) \<le> 17" using log_pow_cancel [of 2 17] by simp
  have le: "log 2 (65536 / m) \<le> log 2 (100000 / m)" using m by (subst log_le_cancel_iff) (simp_all add: divide_right_mono)
  have "mask_bits_for real_ops 512 100000 = compute_mask_bits real_ops 100000 m"
    using real_max_items [of 512] unfolding m_def
    by (simp add: mask_bits_for_def MIN_NUM_BLOOM_ITEMS_def) (simp add: real_ops_def of_rat_divide)
  then have b: "unat (mask_bits_for real_ops 512 100000) = nat \<lceil>log 2 (100000 / m)\<rceil>"
    using up by (simp add: real_mask_bits)
  have s: "unat (mask_bits_for real_ops 512 0) = nat \<lceil>log 2 (65536 / m)\<rceil>" using budget_mask_bits [of 512] by (simp add: m_def)
  have "\<lceil>log 2 (65536 / m)\<rceil> \<le> \<lceil>log 2 (100000 / m)\<rceil>" using le by (rule ceiling_mono)
  moreover have "\<lceil>log 2 (100000 / m)\<rceil> \<le> 17" using up by (simp add: ceiling_le_iff)
  ultimately show ?thesis unfolding b s using nat_mono [of "\<lceil>log 2 (100000 / m)\<rceil>" 17]
    by (intro conjI nat_mono) simp_all
qed

lemma more_items_passes: "mask_bits_scales_with_items B = Inr True"
proof -
  obtain s where s: "new_filter real_ops B 512 0 = Inr s" "cf_mask_bits s = mask_bits_for real_ops 512 0"
    using budget_filter [of 512 B] by auto
  obtain l where "new_filter real_ops B 512 100000 = Inr l" "cf_mask_bits l = mask_bits_for real_ops 512 100000"
    using new_seeded_eq [OF refl, of real_ops 512 100000 0 B] more_items_bits by (auto simp: new_filter_def)
  then show ?thesis using s more_items_bits by (simp add: mask_bits_scales_with_items_def word_le_nat_alt)
qed

text \<open>The default filter divides no items; their logarithm is minus infinity in floating point and zero here, and
  either way the filter has no mask bits.\<close>

lemma default_passes: "default_creates_filter B = Inr True"
proof -
  have "compute_mask_bits real_ops 0 c = 0" for c
    by (simp add: compute_mask_bits_def real_ops_def log_def)
  then have "compute_mask_bits real_ops (f_of_nat real_ops 0) c = 0" for c by (simp add: real_ops_def)
  then show ?thesis by (simp add: default_creates_filter_def default_filter_def Let_def compute_mask_def)
qed

lemma seeded_masks:
  assumes "seed < 2 ^ unat (mask_bits_for real_ops 512 0)"
  shows "\<exists>f. new_seeded real_ops B 512 0 (word_of_nat seed) = Inr f \<and>
    mask_matches (cf_mask f) (mask_bits_for real_ops 512 0) (cf_mask f) \<and>
    drop_bit (64 - unat (mask_bits_for real_ops 512 0)) (cf_mask f) = word_of_nat seed"
proof -
  let ?bits = "mask_bits_for real_ops 512 0"
  have bits: "unat ?bits \<le> 16" using budget_bits [OF _ _ refl, of 512] by simp
  have "(2::nat) ^ unat ?bits \<le> 2 ^ 16" using bits by (intro power_increasing) simp_all
  then have seed: "unat (word_of_nat seed :: u64) < 2 ^ unat ?bits" using assms by (simp add: unat_of_nat)
  obtain f where f: "new_seeded real_ops B 512 0 (word_of_nat seed) = Inr f"
      "cf_mask f = push_bit (64 - unat ?bits) (word_of_nat seed) OR drop_bit (unat ?bits) (- 1)"
    using new_seeded_eq [OF refl _ seed, of B] bits by fastforce
  have "cf_mask f OR drop_bit (unat ?bits) (- 1) = push_bit (64 - unat ?bits) (word_of_nat seed) OR drop_bit (unat ?bits) (- 1)"
    unfolding f(2) by (simp add: or.assoc)
  then have "drop_bit (64 - unat ?bits) (cf_mask f) = word_of_nat seed"
    using mask_matches_iff [of "unat ?bits" "word_of_nat seed" "cf_mask f"] bits seed by simp
  moreover have "mask_matches (cf_mask f) ?bits (cf_mask f)" unfolding mask_matches_def f(2) by (simp add: or.assoc)
  ultimately show ?thesis using f(1) by blast
qed

lemma partitions_pass: "seeded_filters_cover_disjoint_partitions B = Inr True"
proof -
  let ?bits = "mask_bits_for real_ops 512 0" and ?n = "(2::nat) ^ unat (mask_bits_for real_ops 512 0)"
  obtain g where g: "\<And>seed. seed < ?n \<Longrightarrow> new_seeded real_ops B 512 0 (word_of_nat seed) = Inr (g seed)"
      "\<And>seed. seed < ?n \<Longrightarrow> drop_bit (64 - unat ?bits) (cf_mask (g seed)) = word_of_nat seed"
    using seeded_masks [of _ B] by metis
  have bits: "6 \<le> unat ?bits" "unat ?bits \<le> 16" using budget_bits [OF _ _ refl, of 512] by simp_all
  have "?n \<le> 2 ^ 16" using bits(2) by (intro power_increasing) simp_all
  then have small: "seed < ?n \<Longrightarrow> unat (word_of_nat seed :: u64) = seed" for seed by (simp add: unat_of_nat)
  have "inj_on (cf_mask \<circ> g) {0..<?n}"
    using g(2) small by (intro inj_onI) (metis atLeastLessThan_iff comp_apply)
  then have "card ((cf_mask \<circ> g) ` {0..<?n}) = ?n" by (subst card_image) simp_all
  then have distinct: "card (set (map cf_mask (map g [0..<?n]))) = ?n" by (simp add: image_comp)
  have run: "run_map (\<lambda>seed. new_seeded real_ops B 512 0 (word_of_nat seed)) [0..<?n] = Inr (map g [0..<?n])"
    using g(1) by (intro run_map_ok) simp
  obtain f where f: "new_filter real_ops B 512 0 = Inr f" "cf_mask_bits f = ?bits" using budget_filter [of 512 B] by auto
  then have "new_seeded real_ops B 512 0 0 = Inr f" by (simp add: new_filter_def)
  then show ?thesis
    unfolding seeded_filters_cover_disjoint_partitions_def f(1) run_bind_Inr Let_def f(2) run
    using distinct bits(1) by (simp add: word_le_nat_alt)
qed

end
