(* ===== verification/CrdsTests.thy ===== *)
theory CrdsTests
  imports Crds
begin

text \<open>
  The unit tests of \<^verbatim>\<open>crds.rs\<close>, run on the model. A test is the conjunction of its assertions, in the failure monad
  because the contact infos take the time from the system clock; \<open>us\<close> is that time in microseconds and \<open>now\<close> the time
  in seconds. Keys that a test draws with \<open>new_unique\<close> are its arguments. Printing keys is the identity here.
\<close>

section \<open>The values of the tests\<close>

definition localhost :: "u16 \<Rightarrow> socket_addr" where
  "localhost port = \<lparr> sa_ip = V4 0x7F000001, sa_port = port \<rparr>"

definition make_contact_value :: "nat \<Rightarrow> bytes \<Rightarrow> u64 \<Rightarrow> u16 \<Rightarrow> failure + unit crds_value" where
  "make_contact_value us pubkey wallclock gossip_port =
     run_bind (new_contact () (Some us) pubkey wallclock (localhost gossip_port) 7016)
       (\<lambda>ci. Inr (unsigned_new_data (ContactInfo ci)))"

definition make_legacy_contact_value :: "bytes \<Rightarrow> u64 \<Rightarrow> u16 \<Rightarrow> unit crds_value" where
  "make_legacy_contact_value pubkey wallclock gossip_port =
     unsigned_new_data (LegacyContactInfo
       \<lparr> lci_id = pubkey, lci_gossip = localhost gossip_port, lci_tvu = SOCKET_ADDR_UNSPECIFIED,
         lci_tvu_quic = SOCKET_ADDR_UNSPECIFIED, lci_serve_repair_quic = SOCKET_ADDR_UNSPECIFIED,
         lci_tpu = SOCKET_ADDR_UNSPECIFIED, lci_tpu_forwards = SOCKET_ADDR_UNSPECIFIED,
         lci_tpu_vote = SOCKET_ADDR_UNSPECIFIED, lci_rpc = SOCKET_ADDR_UNSPECIFIED,
         lci_rpc_pubsub = SOCKET_ADDR_UNSPECIFIED, lci_wallclock = wallclock, lci_shred_version = 7016 \<rparr>)"

definition make_node_instance :: "bytes \<Rightarrow> u64 \<Rightarrow> unit crds_value" where
  "make_node_instance from_key wallclock =
     unsigned_new_data (NodeInstance \<lparr> ni_pubkey = from_key, ni_wallclock = wallclock, ni_timestamp = 0, ni_token = 0 \<rparr>)"

definition make_restart_fork :: "bytes \<Rightarrow> u64 \<Rightarrow> u64 \<Rightarrow> unit crds_value" where
  "make_restart_fork from_key wallclock last_slot =
     unsigned_new_data (RestartHeaviestFork
       \<lparr> rhf_from = from_key, rhf_wallclock = wallclock, rhf_last_slot = last_slot, rhf_last_slot_hash = replicate 32 0,
         rhf_observed_stake = 0, rhf_shred_version = 7016 \<rparr>)"

text \<open>\<open>infos[0].1.port()\<close> and \<open>infos[0].0\<close>.\<close>

definition first_port :: "(bytes \<times> socket_addr) list \<Rightarrow> u16 option" where
  "first_port infos = map_option (sa_port \<circ> snd) (get_at infos 0)"

definition first_key :: "(bytes \<times> 'x) list \<Rightarrow> bytes option" where
  "first_key infos = map_option fst (get_at infos 0)"

section \<open>Merging\<close>

definition merge_new_inserts :: "nat \<Rightarrow> bytes \<Rightarrow> failure + bool" where
  "merge_new_inserts us pk =
     run_bind (make_contact_value us pk 1000 8001) (\<lambda>val.
       let (t, merged_new) = merge_value new_table val in Inr (merged_new \<and> crds_len t = 1))"

definition merge_older_skipped :: "nat \<Rightarrow> bytes \<Rightarrow> failure + bool" where
  "merge_older_skipped us pk =
     run_bind (make_contact_value us pk 2000 8001) (\<lambda>newer. run_bind (make_contact_value us pk 1000 8001) (\<lambda>older.
       let (t1, r1) = merge_value new_table newer; (t2, r2) = merge_value t1 older
       in Inr (r1 \<and> \<not> r2 \<and> crds_len t2 = 1)))"

definition merge_newer_replaces :: "nat \<Rightarrow> bytes \<Rightarrow> failure + bool" where
  "merge_newer_replaces us pk =
     run_bind (make_contact_value us pk 1000 8001) (\<lambda>older. run_bind (make_contact_value us pk 2000 8002) (\<lambda>newer.
       let (t1, r1) = merge_value new_table older; (t2, r2) = merge_value t1 newer
       in Inr (r1 \<and> r2 \<and> crds_len t2 = 1 \<and> first_port (get_contact_infos t2) = Some 8002)))"

definition merge_same_wallclock_skips :: "nat \<Rightarrow> bytes \<Rightarrow> failure + bool" where
  "merge_same_wallclock_skips us pk =
     run_bind (make_contact_value us pk 1000 8001) (\<lambda>first. run_bind (make_contact_value us pk 1000 8002) (\<lambda>second.
       let (t1, r1) = merge_value new_table first; (t2, r2) = merge_value t1 second
       in Inr (r1 \<and> \<not> r2 \<and> first_port (get_contact_infos t2) = Some 8001)))"

definition merge_two_pubkeys :: "nat \<Rightarrow> bytes \<Rightarrow> bytes \<Rightarrow> failure + bool" where
  "merge_two_pubkeys us pk_a pk_b =
     run_bind (make_contact_value us pk_a 1000 8001) (\<lambda>a. run_bind (make_contact_value us pk_b 1000 8002) (\<lambda>b.
       let (t1, r1) = merge_value new_table a; (t2, r2) = merge_value t1 b
       in Inr (r1 \<and> r2 \<and> crds_len t2 = 2)))"

section \<open>Contacts\<close>

definition get_contact_infos_modern :: "nat \<Rightarrow> bytes \<Rightarrow> failure + bool" where
  "get_contact_infos_modern us pk =
     run_bind (make_contact_value us pk 1000 8001) (\<lambda>val.
       let infos = get_contact_infos (fst (merge_value new_table val))
       in Inr (length infos = 1 \<and> first_key infos = Some pk \<and> first_port infos = Some 8001))"

definition get_contact_infos_legacy :: "bytes \<Rightarrow> failure + bool" where
  "get_contact_infos_legacy pk =
     (let infos = get_contact_infos (fst (merge_value new_table (make_legacy_contact_value pk 1000 8001)))
      in Inr (length infos = 1 \<and> first_key infos = Some pk))"

definition get_contact_infos_skips_non_contact :: "bytes \<Rightarrow> failure + bool" where
  "get_contact_infos_skips_non_contact pk =
     Inr (get_contact_infos (fst (merge_value new_table (make_node_instance pk 1000))) = [])"

definition all_contact_infos_modern_only :: "nat \<Rightarrow> bytes \<Rightarrow> bytes \<Rightarrow> failure + bool" where
  "all_contact_infos_modern_only us pk_m pk_l =
     run_bind (make_contact_value us pk_m 1000 8001) (\<lambda>m.
       let t = fst (merge_value (fst (merge_value new_table m)) (make_legacy_contact_value pk_l 1000 8002));
           infos = all_contact_infos t
       in Inr (length infos = 1 \<and> first_key infos = Some pk_m))"

section \<open>Pruning\<close>

text \<open>The clock of a test is read at each use; it does not move here. The wallclocks of these tests are in seconds, as the
  cutoff of \<open>prune\<close> is; those of the values on the network are in milliseconds (\<open>prune_keeps_fifty_years\<close> in \<open>Crds\<close>).\<close>

definition prune_removes_stale :: "nat \<Rightarrow> nat \<Rightarrow> bytes \<Rightarrow> failure + bool" where
  "prune_removes_stale us now pk =
     run_bind (make_contact_value us pk (word_of_nat now - 20 * 60) 8001) (\<lambda>val.
       run_bind (prune (Some now) (fst (merge_value new_table val))) (\<lambda>t. Inr (crds_len t = 0)))"

definition prune_keeps_fresh :: "nat \<Rightarrow> nat \<Rightarrow> bytes \<Rightarrow> failure + bool" where
  "prune_keeps_fresh us now pk =
     run_bind (make_contact_value us pk (word_of_nat now - 60) 8001) (\<lambda>val.
       run_bind (prune (Some now) (fst (merge_value new_table val))) (\<lambda>t. Inr (crds_len t = 1)))"

definition prune_mixed :: "nat \<Rightarrow> nat \<Rightarrow> bytes \<Rightarrow> bytes \<Rightarrow> failure + bool" where
  "prune_mixed us now pk_stale pk_fresh =
     run_bind (make_contact_value us pk_stale (word_of_nat now - 20 * 60) 8001) (\<lambda>stale.
       run_bind (make_contact_value us pk_fresh (word_of_nat now - 60) 8002) (\<lambda>fresh.
         run_bind (prune (Some now) (fst (merge_value (fst (merge_value new_table stale)) fresh))) (\<lambda>t.
           Inr (crds_len t = 1 \<and> first_key (get_contact_infos t) = Some pk_fresh))))"

section \<open>Slots and events\<close>

definition get_highest_slot_from_restart_fork :: "bytes \<Rightarrow> bytes \<Rightarrow> failure + bool" where
  "get_highest_slot_from_restart_fork pk_a pk_b =
     (let t = fst (merge_value (fst (merge_value new_table (make_restart_fork pk_a 1000 42))) (make_restart_fork pk_b 1000 99))
      in Inr (get_highest_slot t = Some 99))"

definition get_highest_slot_none :: "nat \<Rightarrow> bytes \<Rightarrow> failure + bool" where
  "get_highest_slot_none us pk =
     run_bind (make_contact_value us pk 1000 8001) (\<lambda>val. Inr (get_highest_slot (fst (merge_value new_table val)) = None))"

definition drain_events_has_entries :: "(bytes \<Rightarrow> string) \<Rightarrow> nat \<Rightarrow> nat \<Rightarrow> bytes \<Rightarrow> bytes \<Rightarrow> failure + bool" where
  "drain_events_has_entries show_pubkey us now pk_m pk_l =
     run_bind (make_contact_value us pk_m 1000 8001) (\<lambda>m.
       let t = fst (merge_value (fst (merge_value new_table m)) (make_legacy_contact_value pk_l 1000 8002))
       in run_bind (drain_events show_pubkey (\<lambda>pk. Some now) t) (\<lambda>events.
            Inr (length events = 2 \<and>
              list_all (\<lambda>e. case e of NewValidators info \<Rightarrow> vi_id info \<noteq> [] | _ \<Rightarrow> False) events)))"

section \<open>The tests pass\<close>

lemma contact_value:
  assumes "us < 2 ^ 64"
  shows "\<exists>v. make_contact_value us pk wallclock port = Inr v \<and> value_pubkey v = pk \<and> value_wallclock v = wallclock \<and>
    data_gossip_addr (cv_data v) = Some (localhost port) \<and> (\<exists>ci. cv_data v = ContactInfo ci)"
  using assms unsigned_less [of port, where 'a = nat]
  by (auto simp: make_contact_value_def new_contact_def unix_timestamp_micros_def unsigned_new_data_def
      value_pubkey_def value_wallclock_def data_gossip_addr_def gossip_addr_def socket_by_key_def checked_add_u16_def
      get_at_def localhost_def)

lemma other_values [simp]:
  "value_pubkey (make_legacy_contact_value pk w p) = pk" "value_wallclock (make_legacy_contact_value pk w p) = w"
  "data_gossip_addr (cv_data (make_legacy_contact_value pk w p)) = Some (localhost p)"
  "value_pubkey (make_node_instance pk w) = pk" "data_gossip_addr (cv_data (make_node_instance pk w)) = None"
  "value_pubkey (make_restart_fork pk w s) = pk" "data_slot (cv_data (make_restart_fork pk w s)) = Some s"
  "value_wallclock (make_restart_fork pk w s) = w"
  by (simp_all add: make_legacy_contact_value_def make_node_instance_def make_restart_fork_def unsigned_new_data_def
      value_pubkey_def value_wallclock_def data_gossip_addr_def data_slot_def)

text \<open>The value of \<open>make_contact_value\<close>, by a name, with what the tests ask of it.\<close>

definition contact_of :: "nat \<Rightarrow> bytes \<Rightarrow> u64 \<Rightarrow> u16 \<Rightarrow> unit crds_value" where
  "contact_of us pk wallclock port = projr (make_contact_value us pk wallclock port)"

lemma contact_of [simp]:
  assumes "us < 2 ^ 64"
  shows "make_contact_value us pk w p = Inr (contact_of us pk w p)" "value_pubkey (contact_of us pk w p) = pk"
    "value_wallclock (contact_of us pk w p) = w" "data_gossip_addr (cv_data (contact_of us pk w p)) = Some (localhost p)"
    "data_slot (cv_data (contact_of us pk w p)) = None"
  using contact_value [OF assms, of pk w p] by (auto simp: contact_of_def data_slot_def)

lemma contact_of_data: "us < 2 ^ 64 \<Longrightarrow> \<exists>ci. cv_data (contact_of us pk w p) = ContactInfo ci"
  by (drule contact_value [of us pk w p]) (metis contact_of_def sum.sel(2))

lemma localhost_port [simp]: "sa_port (localhost p) = p"
  by (simp add: localhost_def)

lemmas table_eval = merge_value_def Let_def new_table_def crds_len_def get_contact_infos_def map_filter_def first_port_def
  first_key_def get_at_def

lemmas merging_tests = merge_new_inserts_def merge_older_skipped_def merge_newer_replaces_def merge_same_wallclock_skips_def
  merge_two_pubkeys_def

lemma merging_tests_pass:
  assumes "us < 2 ^ 64" "a \<noteq> b"
  shows "merge_new_inserts us a = Inr True" "merge_older_skipped us a = Inr True" "merge_newer_replaces us a = Inr True"
    "merge_same_wallclock_skips us a = Inr True" "merge_two_pubkeys us a b = Inr True"
  using assms by (simp_all add: merging_tests table_eval)

lemma contact_tests_pass:
  assumes "us < 2 ^ 64" "a \<noteq> b"
  shows "get_contact_infos_modern us a = Inr True" "get_contact_infos_legacy a = Inr True"
    "get_contact_infos_skips_non_contact a = Inr True" "all_contact_infos_modern_only us a b = Inr True"
proof -
  obtain ci where ci: "cv_data (contact_of us a 1000 8001) = ContactInfo ci" using contact_of_data [OF assms(1)] by blast
  show "get_contact_infos_modern us a = Inr True" "get_contact_infos_legacy a = Inr True"
    "get_contact_infos_skips_non_contact a = Inr True"
    using assms by (simp_all add: get_contact_infos_modern_def get_contact_infos_legacy_def
        get_contact_infos_skips_non_contact_def table_eval)
  obtain l where "cv_data (make_legacy_contact_value b 1000 8002) = LegacyContactInfo l"
    by (simp add: make_legacy_contact_value_def unsigned_new_data_def)
  then show "all_contact_infos_modern_only us a b = Inr True"
    using assms ci by (simp add: all_contact_infos_modern_only_def all_contact_infos_def table_eval)
qed

lemma minutes_ago:
  assumes "1200 \<le> now" "now < 2 ^ 64"
  shows "\<not> word_of_nat now - 15 * 60 < (word_of_nat now - 20 * 60 :: u64)"
    "word_of_nat now - 15 * 60 < (word_of_nat now - 60 :: u64)"
proof -
  have "unat (word_of_nat now :: u64) = now" using assms(2) by (simp add: unat_of_nat take_bit_nat_eq_self)
  then show "\<not> word_of_nat now - 15 * 60 < (word_of_nat now - 20 * 60 :: u64)"
    "word_of_nat now - 15 * 60 < (word_of_nat now - 60 :: u64)"
    using assms(1) by (simp_all add: word_less_nat_alt unat_sub_if')
qed

lemma pruning_tests_pass:
  assumes "us < 2 ^ 64" "1200 \<le> now" "now < 2 ^ 64" "a \<noteq> b"
  shows "prune_removes_stale us now a = Inr True" "prune_keeps_fresh us now a = Inr True" "prune_mixed us now a b = Inr True"
  using assms minutes_ago [OF assms(2,3)]
  by (simp_all add: prune_removes_stale_def prune_keeps_fresh_def prune_mixed_def prune_def now_secs_def unwrap_def table_eval)

lemma slot_tests_pass:
  assumes "us < 2 ^ 64" "a \<noteq> b"
  shows "get_highest_slot_from_restart_fork a b = Inr True" "get_highest_slot_none us a = Inr True"
  using assms by (simp_all add: get_highest_slot_from_restart_fork_def get_highest_slot_none_def get_highest_slot_def table_eval)

lemma event_test_passes:
  assumes "us < 2 ^ 64" "a \<noteq> b" "\<And>pk. show_pubkey pk \<noteq> []"
  shows "drain_events_has_entries show_pubkey us now a b = Inr True"
  using assms by (simp add: drain_events_has_entries_def drain_events_def now_secs_def unwrap_def table_eval)

end
