(* ===== verification/MessageTests.thy ===== *)
theory MessageTests
  imports CrdsTests PullRequest
begin

text \<open>
  Unit tests of the messages, run on the model: \<^verbatim>\<open>ping_pong.rs\<close>, \<^verbatim>\<open>protocol.rs\<close>, the accessors of \<^verbatim>\<open>crds_data.rs\<close> and the
  refused request of \<^verbatim>\<open>pull_request.rs\<close>. The drawn tokens, keys and the clock are arguments. A test that only writes a
  value with bincode and reads it back says nothing of the repository's code and is left out.
\<close>

section \<open>Pings and pongs\<close>

definition ping_new_creates_valid_ping :: "(bytes \<Rightarrow> bytes \<Rightarrow> bytes \<Rightarrow> bool) \<Rightarrow> keypair \<Rightarrow> bytes \<Rightarrow> bool" where
  "ping_new_creates_valid_ping verify_sig kp token =
     (let ping = new_ping token kp
      in gp_from ping = kp_pubkey kp \<and> gp_token ping \<noteq> replicate 32 0 \<and>
         verify_sig (gp_signature ping) (gp_from ping) (gp_token ping))"

definition ping_token_is_random :: "keypair \<Rightarrow> bytes \<Rightarrow> bytes \<Rightarrow> bool" where
  "ping_token_is_random kp token1 token2 = (gp_token (new_ping token1 kp) \<noteq> gp_token (new_ping token2 kp))"

definition pong_from_ping_creates_valid_pong :: "(bytes \<Rightarrow> bytes) \<Rightarrow> (bytes \<Rightarrow> bytes \<Rightarrow> bytes \<Rightarrow> bool) \<Rightarrow> keypair \<Rightarrow>
    bytes \<Rightarrow> bool" where
  "pong_from_ping_creates_valid_pong H verify_sig kp token =
     (let ping = new_ping token kp; pong = new_pong H ping kp;
          expected = map (\<lambda>c. word_of_nat (of_char c)) ''SOLANA_PING_PONG'' @ gp_token ping
      in po_from pong = kp_pubkey kp \<and> po_hash pong = H expected \<and>
         verify_sig (po_signature pong) (po_from pong) (po_hash pong))"

definition pong_deterministic_hash :: "(bytes \<Rightarrow> bytes) \<Rightarrow> keypair \<Rightarrow> bytes \<Rightarrow> bool" where
  "pong_deterministic_hash H kp token =
     (let ping = new_ping token kp in po_hash (new_pong H ping kp) = po_hash (new_pong H ping kp))"

section \<open>Messages\<close>

definition unwrapped :: "failure + 'a \<Rightarrow> failure + 'a" where
  "unwrapped r = (case r of Inl (Failed e) \<Rightarrow> Inl (Panicked UnwrapFailed) | _ \<Rightarrow> r)"

definition sent_and_read :: "('e, 'b) codec \<Rightarrow> ('e, 'b) protocol \<Rightarrow> failure + ('e, 'b) protocol" where
  "sent_and_read X msg = run_bind (unwrapped (encode_to X msg)) (\<lambda>bs. unwrapped (decode_from X bs))"

definition test_pubkey :: bytes where "test_pubkey = replicate 32 8"

definition roundtrip_pull_request :: "(unit, 'b) codec \<Rightarrow> 'f f64_ops \<Rightarrow> (nat \<Rightarrow> 'f \<Rightarrow> nat \<Rightarrow> 'b) \<Rightarrow> nat \<Rightarrow> bytes \<Rightarrow> failure + bool" where
  "roundtrip_pull_request X F bloom us pk =
     run_bind (new_filter F bloom 512 0) (\<lambda>flt. run_bind (make_contact_value us pk 1000 8001) (\<lambda>val.
     run_bind (sent_and_read X (PullRequest flt val)) (\<lambda>decoded.
       Inr (case decoded of PullRequest f v \<Rightarrow> True | _ \<Rightarrow> False))))"

definition roundtrip_pull_response :: "(unit, 'b) codec \<Rightarrow> nat \<Rightarrow> bytes \<Rightarrow> bytes \<Rightarrow> failure + bool" where
  "roundtrip_pull_response X us pk1 pk2 =
     run_bind (make_contact_value us pk1 1000 8001) (\<lambda>v1. run_bind (make_contact_value us pk2 2000 8002) (\<lambda>v2.
     run_bind (sent_and_read X (PullResponse test_pubkey [v1, v2])) (\<lambda>decoded.
       Inr (case decoded of PullResponse pk vals \<Rightarrow> pk = test_pubkey \<and> length vals = 2 | _ \<Rightarrow> False))))"

definition roundtrip_push_message :: "(unit, 'b) codec \<Rightarrow> nat \<Rightarrow> bytes \<Rightarrow> failure + bool" where
  "roundtrip_push_message X us pk1 =
     run_bind (make_contact_value us pk1 1000 8001) (\<lambda>v1.
     run_bind (sent_and_read X (PushMessage test_pubkey [v1])) (\<lambda>decoded.
       Inr (case decoded of PushMessage pk vals \<Rightarrow> pk = test_pubkey \<and> length vals = 1 | _ \<Rightarrow> False)))"

definition roundtrip_ping_message :: "('e, 'b) codec \<Rightarrow> keypair \<Rightarrow> bytes \<Rightarrow> failure + bool" where
  "roundtrip_ping_message X kp token =
     run_bind (sent_and_read X (PingMessage (new_ping token kp))) (\<lambda>decoded.
       Inr (case decoded of PingMessage p \<Rightarrow> True | _ \<Rightarrow> False))"

definition roundtrip_pong_message :: "('e, 'b) codec \<Rightarrow> (bytes \<Rightarrow> bytes) \<Rightarrow> keypair \<Rightarrow> bytes \<Rightarrow> failure + bool" where
  "roundtrip_pong_message X H kp token =
     run_bind (sent_and_read X (PongMessage (new_pong H (new_ping token kp) kp))) (\<lambda>decoded.
       Inr (case decoded of PongMessage p \<Rightarrow> True | _ \<Rightarrow> False))"

definition roundtrip_prune_message :: "('e, 'b) codec \<Rightarrow> bytes \<Rightarrow> bytes \<Rightarrow> failure + bool" where
  "roundtrip_prune_message X pk other =
     run_bind (sent_and_read X (PruneMessage pk \<lparr> pd_pubkey = pk, pd_prunes = [other], pd_signature = replicate 64 0,
       pd_destination = pk, pd_wallclock = 1000 \<rparr>)) (\<lambda>decoded.
       Inr (case decoded of PruneMessage k p \<Rightarrow> True | _ \<Rightarrow> False))"

definition decode_unknown_tag :: "('e, 'b) codec \<Rightarrow> failure + bool" where
  "decode_unknown_tag X =
     run_bind (unwrapped (decode_from X [0xff, 0xff, 0xff, 0xff])) (\<lambda>decoded.
       Inr (case decoded of Unknown \<Rightarrow> True | _ \<Rightarrow> False))"

definition decode_pull_response_empty :: "('e, 'b) codec \<Rightarrow> failure + bool" where
  "decode_pull_response_empty X =
     run_bind (sent_and_read X (PullResponse test_pubkey [])) (\<lambda>decoded.
       Inr (case decoded of PullResponse k vals \<Rightarrow> vals = [] | _ \<Rightarrow> False))"

definition decode_push_message_empty :: "('e, 'b) codec \<Rightarrow> failure + bool" where
  "decode_push_message_empty X =
     run_bind (sent_and_read X (PushMessage test_pubkey [])) (\<lambda>decoded.
       Inr (case decoded of PushMessage k vals \<Rightarrow> vals = [] | _ \<Rightarrow> False))"

section \<open>Values and requests\<close>

definition pk :: bytes where "pk = replicate 32 42"

definition crds_value_pubkey_contact_info :: "nat \<Rightarrow> failure + bool" where
  "crds_value_pubkey_contact_info us =
     run_bind (make_contact_value us pk 1000 8001) (\<lambda>val. Inr (value_pubkey val = pk))"

definition crds_value_pubkey_legacy_contact :: bool where
  "crds_value_pubkey_legacy_contact = (value_pubkey (make_legacy_contact_value pk 1000 8001) = pk)"

definition crds_value_wallclock :: "nat \<Rightarrow> failure + bool" where
  "crds_value_wallclock us = run_bind (make_contact_value us pk 7777 8001) (\<lambda>val. Inr (value_wallclock val = 7777))"

definition crds_value_wallclock_node_instance :: bool where
  "crds_value_wallclock_node_instance = (value_wallclock (make_node_instance pk 8888) = 8888)"

definition test_create_pull_request_with_no_gossip_addres :: "('e, 'b, 'f) gossip_ext \<Rightarrow> keypair \<Rightarrow> bytes \<Rightarrow> u64 \<Rightarrow> nat \<Rightarrow>
    failure + bool" where
  "test_create_pull_request_with_no_gossip_addres X kp unique_key timestamp us =
     run_bind (default_contact (gx_default_version X) (Some us) unique_key timestamp) (\<lambda>contact_info.
       case create_pull_request_message X contact_info kp of
         Inl (Panicked p) \<Rightarrow> Inl (Panicked p) | Inl (Failed e) \<Rightarrow> Inr True | Inr bs \<Rightarrow> Inr False)"

section \<open>They pass\<close>

text \<open>
  What the tests need of bincode: it writes every message, and reads one of the same kind back, with the same key and
  as many values (a contact info comes back with its cache filled); a tag that no message has is refused.
\<close>

fun same_shape :: "('e, 'b) protocol \<Rightarrow> ('e, 'b) protocol \<Rightarrow> bool" where
  "same_shape (PullRequest f v) m \<longleftrightarrow> (\<exists>f' v'. m = PullRequest f' v')"
| "same_shape (PullResponse k vs) m \<longleftrightarrow> (\<exists>vs'. m = PullResponse k vs' \<and> length vs' = length vs)"
| "same_shape (PushMessage k vs) m \<longleftrightarrow> (\<exists>vs'. m = PushMessage k vs' \<and> length vs' = length vs)"
| "same_shape m m' \<longleftrightarrow> m' = m"

definition bincode_messages :: "('e, 'b) codec \<Rightarrow> bool" where
  "bincode_messages X \<longleftrightarrow>
     (\<forall>m. m \<noteq> Unknown \<longrightarrow> (\<exists>bs m'. cd_ser_protocol X m = Some bs \<and> cd_de_protocol X bs = Some m' \<and> same_shape m m')) \<and>
     cd_de_protocol X [0xff, 0xff, 0xff, 0xff] = None"

lemma sent_read:
  "bincode_messages X \<Longrightarrow> msg \<noteq> Unknown \<Longrightarrow> \<exists>m'. sent_and_read X msg = Inr m' \<and> same_shape msg m'"
proof -
  assume "bincode_messages X" "msg \<noteq> Unknown"
  then obtain bs m' where "cd_ser_protocol X msg = Some bs" "cd_de_protocol X bs = Some m'" "same_shape msg m'"
    unfolding bincode_messages_def by blast
  then show ?thesis by (simp add: sent_and_read_def encode_to_def decode_from_def unwrapped_def)
qed

lemma ping_tests_pass:
  assumes "\<And>m. verify_sig (kp_sign kp m) (kp_pubkey kp) m" "token \<noteq> replicate 32 0" "token \<noteq> token2"
  shows "ping_new_creates_valid_ping verify_sig kp token" "ping_token_is_random kp token token2"
    "pong_from_ping_creates_valid_pong H verify_sig kp token" "pong_deterministic_hash H kp token"
  using assms by (simp_all add: ping_new_creates_valid_ping_def ping_token_is_random_def pong_from_ping_creates_valid_pong_def
      pong_deterministic_hash_def new_ping_def new_pong_def Let_def)

lemma value_message_tests_pass:
  assumes "bincode_messages X" "us < 2 ^ 64"
  shows "new_filter F bloom 512 0 = Inr flt \<Longrightarrow> roundtrip_pull_request X F bloom us a = Inr True"
    and "roundtrip_pull_response X us a b = Inr True" "roundtrip_push_message X us a = Inr True"
proof -
  obtain v1 v2 where v: "make_contact_value us a 1000 8001 = Inr v1" "make_contact_value us b 2000 8002 = Inr v2"
    using assms(2) by (simp add: make_contact_value_def new_contact_def unix_timestamp_micros_def)
  show "roundtrip_pull_request X F bloom us a = Inr True" if "new_filter F bloom 512 0 = Inr flt"
    using sent_read [OF assms(1), of "PullRequest flt v1"] that v(1) by (auto simp: roundtrip_pull_request_def)
  show "roundtrip_pull_response X us a b = Inr True"
    using sent_read [OF assms(1), of "PullResponse test_pubkey [v1, v2]"] v by (auto simp: roundtrip_pull_response_def)
  show "roundtrip_push_message X us a = Inr True"
    using sent_read [OF assms(1), of "PushMessage test_pubkey [v1]"] v by (auto simp: roundtrip_push_message_def)
qed

lemma message_tests_pass:
  assumes "bincode_messages X"
  shows "roundtrip_ping_message X kp token = Inr True" "roundtrip_pong_message X H kp token = Inr True"
    "roundtrip_prune_message X a b = Inr True" "decode_pull_response_empty X = Inr True" "decode_push_message_empty X = Inr True"
proof -
  note read = sent_read [OF assms]
  show "roundtrip_ping_message X kp token = Inr True"
    using read [of "PingMessage (new_ping token kp)"] by (auto simp: roundtrip_ping_message_def)
  show "roundtrip_pong_message X H kp token = Inr True"
    using read [of "PongMessage (new_pong H (new_ping token kp) kp)"] by (auto simp: roundtrip_pong_message_def)
  show "roundtrip_prune_message X a b = Inr True"
    using read [of "PruneMessage a \<lparr> pd_pubkey = a, pd_prunes = [b], pd_signature = replicate 64 0, pd_destination = a,
      pd_wallclock = 1000 \<rparr>"] by (auto simp: roundtrip_prune_message_def)
  show "decode_pull_response_empty X = Inr True"
    using read [of "PullResponse test_pubkey []"] by (auto simp: decode_pull_response_empty_def)
  show "decode_push_message_empty X = Inr True"
    using read [of "PushMessage test_pubkey []"] by (auto simp: decode_push_message_empty_def)
qed

text \<open>An unknown tag takes the slow path, whose last branch gives the unknown message.\<close>

lemma unknown_tag_test_passes:
  assumes "bincode_messages X" "bincode_layout X"
  shows "decode_unknown_tag X = Inr True"
proof -
  let ?bs = "[0xff, 0xff, 0xff, 0xff] :: bytes"
  have four: "(4 :: nat) = Suc (Suc (Suc (Suc 0)))" by simp
  have "u32_le 0xffffffff = ?bs" unfolding u32_le_def four by simp
  moreover have "cd_read_tag X (u32_le 0xffffffff @ []) = Some (0xffffffff, 4)"
    using assms(2) unfolding bincode_layout_def by blast
  ultimately have "cd_read_tag X ?bs = Some (0xffffffff, 4)" by simp
  moreover have "cd_de_protocol X ?bs = None" using assms(1) by (simp add: bincode_messages_def)
  ultimately show ?thesis by (simp add: decode_unknown_tag_def decode_from_def decode_slow_def unwrapped_def)
qed

lemma accessor_tests_pass:
  assumes "us < 2 ^ 64"
  shows "crds_value_pubkey_contact_info us = Inr True" "crds_value_pubkey_legacy_contact"
    "crds_value_wallclock us = Inr True" "crds_value_wallclock_node_instance"
  using assms by (simp_all add: crds_value_pubkey_contact_info_def crds_value_pubkey_legacy_contact_def crds_value_wallclock_def
      crds_value_wallclock_node_instance_def make_contact_value_def make_legacy_contact_value_def make_node_instance_def
      new_contact_def unix_timestamp_micros_def unsigned_new_data_def value_pubkey_def value_wallclock_def)

lemma refused_request_test_passes:
  "us < 2 ^ 64 \<Longrightarrow> test_create_pull_request_with_no_gossip_addres X kp unique_key timestamp us = Inr True"
  by (simp add: test_create_pull_request_with_no_gossip_addres_def default_contact_def unix_timestamp_micros_def
      create_pull_request_message_def)

end
