(* ===== verification/FieldTests.thy ===== *)
theory FieldTests
  imports Gf256
begin

text \<open>
  The unit tests of \<^verbatim>\<open>dc-tvu/src/gf256.rs\<close>, each the conjunction of its assertions. Those that sample the laws follow
  from the field laws of \<open>Gf256\<close>.
\<close>

section \<open>The tests\<close>

definition all_bytes :: "u8 list" where
  "all_bytes = map word_of_nat [0..<256]"

definition nonzero_bytes :: "u8 list" where
  "nonzero_bytes = map word_of_nat [1..<256]"

definition add_is_xor :: bool where
  "add_is_xor \<longleftrightarrow> gf_add 10 12 = 6 \<and> gf_add 0xFF 0 = 0xFF \<and> gf_add 0xFF 0xFF = 0 \<and> gf_add 0xAB 0xCD = 0x66"

definition sub_equals_add :: bool where
  "sub_equals_add \<longleftrightarrow> list_all (\<lambda>a. list_all (\<lambda>b. gf_sub a b = gf_add a b) all_bytes) all_bytes"

definition mul_by_zero_is_zero :: bool where
  "mul_by_zero_is_zero \<longleftrightarrow> list_all (\<lambda>a. gf_mul a 0 = 0 \<and> gf_mul 0 a = 0) all_bytes"

definition mul_by_one_is_identity :: bool where
  "mul_by_one_is_identity \<longleftrightarrow> list_all (\<lambda>a. gf_mul a 1 = a \<and> gf_mul 1 a = a) all_bytes"

definition mul_commutative :: bool where
  "mul_commutative \<longleftrightarrow> list_all (\<lambda>a. list_all (\<lambda>b. gf_mul a b = gf_mul b a) all_bytes) all_bytes"

definition mul_associative :: bool where
  "mul_associative \<longleftrightarrow> list_all (\<lambda>a. list_all (\<lambda>b. list_all (\<lambda>c.
     gf_mul (gf_mul a b) c = gf_mul a (gf_mul b c)) [0, 1, 2, 64, 255]) [0, 1, 3, 128, 254]) [0, 1, 25, 142, 255]"

definition mul_distributive :: bool where
  "mul_distributive \<longleftrightarrow> list_all (\<lambda>a. list_all (\<lambda>b. list_all (\<lambda>c.
     gf_mul a (gf_add b c) = gf_add (gf_mul a b) (gf_mul a c)) [0, 1, 32, 55, 128]) [0, 1, 16, 77, 255]) [0, 1, 7, 99, 201]"

definition inv_of_zero_is_zero :: bool where
  "inv_of_zero_is_zero \<longleftrightarrow> gf_inv 0 = 0"

definition inv_of_one_is_one :: bool where
  "inv_of_one_is_one \<longleftrightarrow> gf_inv 1 = 1"

definition mul_inv_roundtrip_all_bytes :: bool where
  "mul_inv_roundtrip_all_bytes \<longleftrightarrow> list_all (\<lambda>a. gf_inv a \<noteq> 0 \<and> gf_mul a (gf_inv a) = 1) nonzero_bytes"

definition log_alog_consistent :: bool where
  "log_alog_consistent \<longleftrightarrow> list_all (\<lambda>a. ALOG ! unat (LOG ! unat a) = a) nonzero_bytes"

definition known_values_from_solana_spec :: bool where
  "known_values_from_solana_spec \<longleftrightarrow> gf_mul 2 2 = 4 \<and> gf_mul 2 (gf_inv 2) = 1 \<and> gf_mul 5 (gf_inv 5) = 1 \<and>
     gf_mul 255 (gf_inv 255) = 1"

section \<open>They pass\<close>

lemma nonzero_bytes_nonzero: "a \<in> set nonzero_bytes \<Longrightarrow> a \<noteq> 0"
proof -
  assume "a \<in> set nonzero_bytes"
  then obtain n where "1 \<le> n" "n < 256" "a = word_of_nat n" by (auto simp: nonzero_bytes_def)
  then have "unat a = n" by (simp add: unat_of_nat)
  then show "a \<noteq> 0" using \<open>1 \<le> n\<close> by auto
qed

text \<open>The two lists of bytes are all that there are.\<close>

lemma all_bytes_complete: "set all_bytes = UNIV"
proof -
  have "a \<in> set all_bytes" for a :: u8
    using unat_u8_less [of a] by (force simp: all_bytes_def intro: image_eqI [where x = "unat a"])
  then show ?thesis by blast
qed

lemma two_squared: "gf_mul 2 2 = 4"
  by (simp add: gf_mul_ref gf_ref_mul_def upt_rec xtime_def)

lemma inv_one: "gf_inv 1 = 1"
  using gf_mul_inv [of 1] by simp

lemma field_tests_pass:
  "add_is_xor" "sub_equals_add" "mul_by_zero_is_zero" "mul_by_one_is_identity" "mul_commutative" "mul_associative"
  "mul_distributive" "inv_of_zero_is_zero" "inv_of_one_is_one" "mul_inv_roundtrip_all_bytes" "log_alog_consistent"
  "known_values_from_solana_spec"
  by (simp_all add: add_is_xor_def sub_equals_add_def mul_by_zero_is_zero_def mul_by_one_is_identity_def
      mul_commutative_def mul_associative_def mul_distributive_def inv_of_zero_is_zero_def inv_of_one_is_one_def
      mul_inv_roundtrip_all_bytes_def log_alog_consistent_def known_values_from_solana_spec_def list_all_iff
      gf_mul_assoc gf_mul_add gf_mul_inv gf_inv_nonzero ALOG_LOG nonzero_bytes_nonzero gf_mul_comm two_squared inv_one)
   (simp_all add: gf_add_def gf_sub_def gf_inv_def)

end
