(* ===== verification/ShredTest.thy ===== *)
theory ShredTest
  imports Shred Repair
begin

text \<open>
  The layout test of \<^verbatim>\<open>dc-tvu/src/shred.rs\<close>: a packet of 1203 bytes is filled field by field, parsed, and the parts of the
  shred are compared. bincode is an argument with the layout that \<open>Shred\<close> states.
\<close>

section \<open>The test\<close>

definition layout_fields :: "(nat \<times> bytes) list" where
  "layout_fields =
     [(0, replicate 64 0xAA), (64, [0x96]), (65, u64_le 42), (73, u32_le 0), (77, u16_le 7016), (79, u32_le 0),
      (83, u16_le 1), (85, [0]), (86, u16_le 1051), (88, replicate 963 0x42), (1051, replicate 32 0xBB),
      (1083, replicate 120 0xCC)]"

definition fill_fields :: "bytes \<Rightarrow> (nat \<times> bytes) list \<Rightarrow> bytes" where
  "fill_fields buf writes = foldl (\<lambda>buf (start, src). overwrite buf start src) buf writes"

definition layout_packet :: bytes where
  "layout_packet = fill_fields (replicate SIZE_OF_DATA_SHRED 0) layout_fields"

definition test_parse_data_shred_correct_layout ::
  "(bytes \<Rightarrow> data_shred_header option) \<Rightarrow> (bytes \<Rightarrow> coding_shred_header option) \<Rightarrow> bool" where
  "test_parse_data_shred_correct_layout de_data de_coding \<longleftrightarrow>
     (case parse_from_bytes de_data de_coding layout_packet of
        Some (MerkleData common_header data_header merkle_root merkle_proof data) \<Rightarrow>
          ch_slot common_header = 42 \<and> ch_index common_header = 0 \<and> dh_size data_header = 1051 \<and>
          length data = 963 \<and> list_all (\<lambda>b. b = 0x42) data \<and>
          length merkle_root = 32 \<and> list_all (\<lambda>b. b = 0xBB) merkle_root \<and>
          length merkle_proof = 6 \<and> list_all (\<lambda>e. length e = 20 \<and> list_all (\<lambda>b. b = 0xCC) e) merkle_proof
      | _ \<Rightarrow> False)"

section \<open>It passes\<close>

text \<open>The fields are written one after the other, each over zeros.\<close>

fun contiguous :: "nat \<Rightarrow> (nat \<times> bytes) list \<Rightarrow> bool" where
  "contiguous n [] \<longleftrightarrow> True"
| "contiguous n ((start, src) # writes) \<longleftrightarrow> start = n \<and> contiguous (n + length src) writes"

lemma fill_contiguous:
  "contiguous (length p) writes \<Longrightarrow> k = sum_list (map (length \<circ> snd) writes) \<Longrightarrow>
   fill_fields (p @ replicate k 0) writes = p @ concat (map snd writes)"
proof (induction writes arbitrary: p k)
  case (Cons f writes)
  obtain start src where f: "f = (start, src)" by force
  let ?j = "sum_list (map (length \<circ> snd) writes)"
  have "overwrite (p @ replicate k 0) start src = (p @ src) @ replicate ?j 0"
    using Cons.prems f by (simp add: overwrite_def comp_def)
  moreover have "fill_fields ((p @ src) @ replicate ?j 0) writes = (p @ src) @ concat (map snd writes)"
    using Cons.prems f by (intro Cons.IH) (simp_all add: comp_def)
  ultimately show ?case using f by (simp add: fill_fields_def)
qed (simp add: fill_fields_def)

definition layout_shred :: shred where
  "layout_shred = MerkleData
     \<lparr> ch_signature = replicate 64 0xAA, ch_shred_variant = 0x96, ch_slot = 42, ch_index = 0, ch_version = 7016,
       ch_fec_set_index = 0 \<rparr>
     \<lparr> dh_parent_offset = 1, dh_flags = 0, dh_size = 1051 \<rparr> (replicate 32 0xBB) (replicate 6 (replicate 20 0xCC)) (replicate 963 0x42)"

lemma concat_same: "concat (replicate n (replicate m x)) = replicate (n * m) x"
  by (induction n) (simp_all add: replicate_add)

lemma layout_packet_bytes: "layout_packet = shred_bytes layout_shred []"
proof -
  have "layout_packet = [] @ concat (map snd layout_fields)"
    using fill_contiguous [of "[]" layout_fields SIZE_OF_DATA_SHRED]
    by (simp add: layout_packet_def layout_fields_def SIZE_OF_DATA_SHRED_def)
  also have "\<dots> = shred_bytes layout_shred []"
    using concat_same [of 6 20 "0xCC :: u8"]
    by (simp add: layout_fields_def layout_shred_def shred_bytes_def common_header_bytes_def data_header_bytes_def)
  finally show ?thesis .
qed

lemma layout_test_passes:
  assumes "bincode_data_header de_data" "bincode_coding_header de_coding"
  shows "test_parse_data_shred_correct_layout de_data de_coding"
proof -
  have "shred_ok layout_shred False"
    by (simp add: shred_ok_def layout_shred_def)
  then have "parse_from_bytes de_data de_coding (shred_bytes layout_shred [] @ []) = Some layout_shred"
    by (rule shred_roundtrip [OF assms]) simp
  then show ?thesis
    by (simp add: test_parse_data_shred_correct_layout_def layout_packet_bytes layout_shred_def list_all_iff)
qed

end
