(* ===== verification/Spec2Isabelle.thy ===== *)
theory Spec2Isabelle
  imports Delivery SlotCell LoopTiming SelfTest ContactTable Transport FilterTests CrdsTests MessageTests FieldTests ShredTest ShortVec
begin

text \<open>
  A model of sg32, a Solana light node that asks validators for the shreds of recent slots, recovers
  the missing ones with a Reed-Solomon code, parses the result into transactions, keeps the block
  and serves it with Merkle proofs over JSON-RPC. The repository has two crates: \<^verbatim>\<open>crates/dc-tvu\<close>, the
  node, and \<^verbatim>\<open>crates/dc-gossip\<close>, the gossip client that finds validators and runs inside the node.

  \<^bold>\<open>The node: the path of a packet and the theories that model it.\<close>

  \<^item> \<open>Pipeline\<close> (\<^verbatim>\<open>main.rs\<close>): \<open>client_step\<close> is a turn of \<open>tokio::select!\<close>: a contact with a repair address,
    the timer (\<open>repair_poll\<close> sends the requests), a packet (\<open>handle_packet\<close>), or the slot poller. A
    packet that parses as a shred goes to \<open>process_shred\<close>: find or make the batch (\<open>batch_entry\<close>), note
    the statistics (\<open>note_batch\<close>), add the shred (\<open>add_to_batch\<close>), try recovery, deshred, build the tree,
    put the block in the ring buffer and the files (\<open>publish\<close>), drop the batch.
  \<^item> \<open>Repair\<close> (\<^verbatim>\<open>repair.rs\<close>): the signed request packet, the response parsers, the pong.
  \<^item> \<open>ShredHeader\<close>, \<open>Shred\<close> (\<^verbatim>\<open>shred_header.rs\<close>, \<^verbatim>\<open>shred.rs\<close>): bytes to shreds.
  \<^item> \<open>FecBatch\<close> (\<^verbatim>\<open>fec_batch.rs\<close>) over \<open>ReedSolomon\<close> (\<^verbatim>\<open>reed_solomon.rs\<close>) over \<open>Gf256\<close> (\<^verbatim>\<open>gf256.rs\<close>):
    recovery. \<open>Linear\<close> holds the algebra (elimination, Cauchy matrices) over any field.
  \<^item> \<open>Deshredder\<close> (\<^verbatim>\<open>deshredder.rs\<close>): payloads to entries and raw transactions.
  \<^item> \<open>MerkleProver\<close> (\<^verbatim>\<open>merkle_prover.rs\<close>), \<open>RingBuffer\<close> (\<^verbatim>\<open>ring_buffer.rs\<close>), \<open>FlatFileStore\<close>
    (\<^verbatim>\<open>flat_file_store.rs\<close>), \<open>Stats\<close> (\<^verbatim>\<open>stats.rs\<close>), \<open>RpcServer\<close> (\<^verbatim>\<open>rpc_server.rs\<close>): the block, its
    stores and the methods that serve it.

  \<^bold>\<open>The gossip client\<close> (files of \<^verbatim>\<open>dc-gossip/src\<close>).

  \<^item> \<open>GossipTypes\<close> (\<^verbatim>\<open>types.rs\<close>, \<^verbatim>\<open>emitter.rs\<close>, \<^verbatim>\<open>keypair.rs\<close>): addresses, keys, events; a result is
    \<open>failure + 'a\<close>, where a failure is a panic or an error value.
  \<^item> \<open>ContactInfo\<close> (\<^verbatim>\<open>contact_info.rs\<close>, \<^verbatim>\<open>legacy_contact_info.rs\<close>), \<open>CrdsData\<close> (\<^verbatim>\<open>crds_data.rs\<close>): what nodes say.
    \<open>ContactTable\<close>: the printed table of contacts.
  \<^item> \<open>Crds\<close> (\<^verbatim>\<open>crds.rs\<close>): the table of the newest value per key, merge, prune, the highest slot, the contacts.
  \<^item> \<open>CrdsFilter\<close> (\<^verbatim>\<open>crds_filter.rs\<close>) with \<open>FilterBounds\<close>, \<open>PullRequest\<close> (\<^verbatim>\<open>pull_request.rs\<close>): partitions of the
    hash space and the requests for them.
  \<^item> \<open>PingPong\<close> (\<^verbatim>\<open>ping_pong.rs\<close>), \<open>Protocol\<close> (\<^verbatim>\<open>protocol.rs\<close>), \<open>Handler\<close> (\<^verbatim>\<open>handler.rs\<close>), \<open>ShortVec\<close>
    (\<^verbatim>\<open>short_vec.rs\<close>): messages, their decoding with the slow path, and what a message does.
  \<^item> \<open>GossipLoop\<close> (\<^verbatim>\<open>lib.rs\<close>): \<open>gossip_start\<close> (handshake, first request, wait) and \<open>gossip_step\<close>, a turn of the loop
    on a packet or the timer (\<open>pull_job\<close>, \<open>advance_slot\<close>, \<open>prune_job\<close>). \<open>PublicAddress\<close>: the address it publishes.
  \<^item> \<open>GossipMain\<close> (\<^verbatim>\<open>main.rs\<close>): the stand-alone client, and \<open>SelfTest\<close>, its \<^verbatim>\<open>--self-test\<close>. \<open>Transport\<close>
    (\<^verbatim>\<open>transport.rs\<close>, \<^verbatim>\<open>ip_echo.rs\<close>): the socket operations.
  \<^item> \<open>Startup\<close> (both \<^verbatim>\<open>main.rs\<close>, \<^verbatim>\<open>lib.rs\<close>): the arguments and the boot of the node (\<open>boot\<close>), the slot poller's replies
    (\<open>polled_slot\<close>), what comes before the handshake in the gossip loop (\<open>loop_prologue\<close>) and in the stand-alone client
    (\<open>gossip_main\<close>).

  \<^bold>\<open>How the two interact.\<close> \<open>System\<close> (\<^verbatim>\<open>dc-tvu/src/main.rs\<close>) composes them: the gossip task sends contacts
  into a bounded channel, the client receives them, and both the gossip task and the poller write the latest slot; a run is a
  list of steps of either side in any order. \<open>SlotCell\<close> splits the writes to the slot into loads and stores and interleaves
  them. \<open>LoopTiming\<close> adds the arrival times that decide which arm \<open>select!\<close> takes.

  \<^bold>\<open>The abstract node.\<close> \<open>Collector\<close> states what the client promises: \<open>collect\<close> keeps the rows that have come of every
  set and completes a set when there are as many as it has data shreds; \<open>tracks\<close> relates it to the client, and \<open>feed\<close>
  runs the client over a list of events. \<open>Delivery\<close> lifts the simulation to runs of the whole system, and \<open>Startup\<close> carries the result over a restart.

  \<^bold>\<open>Unit tests.\<close> \<open>FieldTests\<close>, \<open>CrdsTests\<close>, \<open>FilterTests\<close>, \<open>MessageTests\<close> and \<open>ShredTest\<close> state tests of the repository over the
  model and prove that they pass.

  \<^bold>\<open>Conventions\<close> (\<open>Prelude\<close>). Integers keep their width as words; \<open>usize\<close> is \<open>nat\<close>, with \<open>checked_add_usize\<close>
  where the code checks (the gossip crate's \<open>usize\<close> that is shifted is the 64-bit word). Sums and
  differences of words wrap, as in the release build the repository's Dockerfile makes. A function that
  can panic has the type \<open>panic + 'a\<close>; \<open>Option\<close> is \<open>option\<close>; \<open>Arc<RwLock<..>>\<close> is the value, passed as
  state. A \<open>[u8; N]\<close> is a byte list whose length is a hypothesis where it matters. A hash map is a list with one
  binding per key, in an order that nothing depends on. Clocks, random bytes, received datagrams and whether
  a send succeeds are inputs of a step.

  \<^bold>\<open>Interfaces\<close> are locales, each interpreted on the model: \<open>erasure_code\<close> (any \<open>n\<close> shreds give the data;
  \<open>rs\<close> in \<open>ReedSolomon\<close>, used by \<open>FecBatch\<close>), \<open>reader\<close> (a cursor reader reads what its writer wrote;
  \<open>shortu16\<close> and \<open>le64\<close> in \<open>Deshredder\<close>), \<open>commitment\<close> (openings check; \<open>tree\<close> in \<open>MerkleProver\<close>, used for
  the proofs that the server serves), \<open>slot_store\<close> and its extension \<open>durable_store\<close> (what a store
  answers after puts; \<open>ring\<close> in \<open>RingBuffer\<close>, \<open>files\<close> in \<open>FlatFileStore\<close>), \<open>newest_table\<close> (a table that keeps the
  newest value of each key; \<open>crds\<close> in \<open>Crds\<close>).

  \<^bold>\<open>What is assumed of code outside the repository\<close>, always as a named hypothesis or a field of a record:
  \<open>bincode_data_header\<close>, \<open>bincode_coding_header\<close>, \<open>bincode_layout\<close>, \<open>wire_layout\<close> (bincode's fixed little-endian layout),
  \<open>bincode_entries\<close> and \<open>bincode_messages\<close> (it reads back what it wrote), \<open>codec_wt\<close> (it reads keys of 32 bytes), \<open>key_ok\<close> and \<open>signs_for\<close>
  (lengths of keys and signatures; a signature verifies), the records \<open>externals\<close> and \<open>gossip_ext\<close> (serde_json, text
  encodings, transaction codec, SHA-256, Bloom filters), \<open>f64_ops\<close> (floating point; \<open>real_ops\<close> are exact reals), the record
  \<open>io\<close> and the directory listings (the operating system). Collision freedom of the hash is assumed only of the strings
  that a tree and a verification hash.

  \<^bold>\<open>What is shown.\<close> Recovery: table arithmetic is the field, any \<open>n\<close> of \<open>n + m\<close> shreds decode (\<open>cauchy_dims\<close>:
  no more code than data shreds, at most 128 data shreds; the node uses 32 and 32), a batch recovers
  exactly when it has enough. Parsing: round trips of shreds, compact lengths, transactions and entry
  streams, and what a successful parse implies. The round trip of shreds is for the layout that the parser reads (the
  retransmitter's signature before the root and the proof, the root right after the payload), which is not the one that the comments and
  the design notes give; \<open>documented_layout_read\<close> says what becomes of theirs. Blocks: completeness and soundness of Merkle
  proofs, the ring buffer as a sliding window, the files as a durable map that survives a restart, and what a store serves
  that is opened on any listing. The node: an invariant of all reachable states, the last shred of a batch publishes its
  block, the two stores serve the same block, served proofs verify, every request is answered. Gossip: the table keeps the
  newest value of every key in any order of merges, the requests cover every hash exactly once and fit a packet, every peer is
  asked for every partition, the invariant of the reachable states of the loop, and a bounded start. The system: its runs
  refine runs of the client, requests go only to contacts that gossip received, and a contact in the table at a prune is asked,
  whatever comes between the prune and the poll, once the contacts have gone through the channel (\<open>deliveries_drain\<close>: as many
  sends and receives in turn as there are contacts on their way empty it, in any interleaving).

  End to end, for runs of honest shreds (\<open>run_ok\<close>, \<open>system_ok\<close>: every shred that parses out of a packet, of whatever
  slot, is a row of the encoding of a well-formed set, all the slots lie in one window of 500, every file write
  succeeds): the client refines the abstract machine and does not panic; the system stores the block of a set of which
  enough different shreds come, if none of another set of its slot comes (\<open>only_set\<close>); and after a stop and a new start
  the server answers with the transactions that the sender encoded and their tree. Without these conditions the node can
  panic (\<open>uneven_shreds_panic\<close>) or store the block of another set (\<open>later_set_replaces_block\<close>).

  Some properties state how the code fails: undecodable dimensions, panics on shreds of uneven size and on short packets, the wrap
  at the top slot, proofs of empty blocks, transactions shifted against their leaves, timers that busy sockets starve, lost
  updates of the slot, units of time that do not agree, requests for the first 64 shreds only, blocks published twice or
  replaced by another set of their slot, the part of a block that a failed write leaves, a root read at the wrong place of
  a resigned or filled-up shred, values read seven bytes early.

  \<^bold>\<open>Bounds.\<close> All loops are structural or have a measure; there is no fuel. \<open>slot_near\<close> and \<open>event_near\<close> keep slots
  500 below the top of the 64-bit range, so that the window arithmetic does not wrap; \<open>in_window\<close> keeps the slots of a run of
  \<open>Collector\<close> within the 500 of the ring buffer, so that no block leaves it; buffers are at
  most \<open>usize_max\<close> long, as every \<open>Vec\<close> is. The start of the gossip loop makes at most 10 attempts of the handshake and 15
  of the wait and sends at most 27 datagrams; the channel holds 1000 contacts (\<open>CHANNEL_CAPACITY\<close>).

  \<^bold>\<open>Not modelled.\<close> Socket and file descriptors, task scheduling below the steps above, the parser of the command line (its result is \<open>args\<close>), logging, the HTTP
  router and the web page: they call libraries and decide nothing. The unit tests that only check bincode or the signature
  library on a value, which are parameters here. A Bloom budget of zero bytes is left out of the bounds of the filter:
  its size is then decided by the division of zero in floating point.
\<close>

end
